(* ===== verification/Prelude.thy ===== *)
theory Prelude
  imports Main "HOL-Library.Word" "HOL-Library.List_Lexorder" "HOL-Library.Product_Lexorder"
    "HOL-Library.Multiset"
begin

text \<open>
  Shared vocabulary of the development: machine integers and bytes, the parts of the Rust
  standard library and of \<^verbatim>\<open>arrayvec\<close> that the sources use (saturating arithmetic, integer
  to byte conversions, bounded push, in-place update of the first match, stable sorting),
  the collection \<open>byte_simps\<close> of rewrite rules for byte strings, and the interface of a
  state machine with an invariant, which the components interpret.
\<close>

unbundle bit_operations_syntax

named_theorems byte_simps \<open>lengths and round trips of byte strings\<close>

section \<open>Machine types\<close>

type_synonym u8 = "8 word"
type_synonym u16 = "16 word"
type_synonym u32 = "32 word"
type_synonym u64 = "64 word"
type_synonym bytes = "u8 list"

text \<open>
  \<^verbatim>\<open>std::time::Instant\<close> is a monotonic clock reading in nanoseconds. The difference of two
  readings saturates at zero (\<^verbatim>\<open>duration_since\<close>, \<^verbatim>\<open>elapsed\<close>), as subtraction on \<open>nat\<close> does.
\<close>

type_synonym instant = nat

definition millis :: "nat \<Rightarrow> nat" where
  "millis n = n * 1000000"

definition secs :: "nat \<Rightarrow> nat" where
  "secs n = n * 1000000000"

definition sat_sub :: "'a::len word \<Rightarrow> 'a word \<Rightarrow> 'a word" where
  "sat_sub a b = (if a < b then 0 else a - b)"

definition sat_add :: "'a::len word \<Rightarrow> 'a word \<Rightarrow> 'a word" where
  "sat_add a b = (if unat a + unat b < 2 ^ LENGTH('a) then a + b else - 1)"

definition sat_mul :: "'a::len word \<Rightarrow> 'a word \<Rightarrow> 'a word" where
  "sat_mul a b = (if unat a * unat b < 2 ^ LENGTH('a) then a * b else - 1)"

definition leading_zeros :: "'a::len word \<Rightarrow> nat" where
  "leading_zeros w = length (takeWhile (\<lambda>i. \<not> bit w i) (rev [0..<LENGTH('a)]))"

definition is_power_of_two :: "'a::len word \<Rightarrow> bool" where
  "is_power_of_two w = list_ex (\<lambda>j. w = 2 ^ j) [0..<LENGTH('a)]"

section \<open>Integers as byte strings\<close>

fun le_of_nat :: "nat \<Rightarrow> nat \<Rightarrow> bytes" where
  "le_of_nat 0 v = []"
| "le_of_nat (Suc n) v = of_nat (v mod 256) # le_of_nat n (v div 256)"

fun nat_of_le :: "bytes \<Rightarrow> nat" where
  "nat_of_le [] = 0"
| "nat_of_le (b # bs) = unat b + 256 * nat_of_le bs"

fun nat_of_be :: "bytes \<Rightarrow> nat" where
  "nat_of_be [] = 0"
| "nat_of_be (b # bs) = unat b * 256 ^ length bs + nat_of_be bs"

definition to_le_bytes :: "'a::len word \<Rightarrow> bytes" where
  "to_le_bytes w = le_of_nat (LENGTH('a) div 8) (unat w)"

definition from_le_bytes :: "bytes \<Rightarrow> 'a::len word" where
  "from_le_bytes bs = of_nat (nat_of_le bs)"

definition to_be_bytes :: "'a::len word \<Rightarrow> bytes" where
  "to_be_bytes w = rev (to_le_bytes w)"

definition from_be_bytes :: "bytes \<Rightarrow> 'a::len word" where
  "from_be_bytes bs = of_nat (nat_of_be bs)"

section \<open>Sequences\<close>

text \<open>\<^verbatim>\<open>ArrayVec::try_push\<close> with its error ignored.\<close>

definition try_push :: "nat \<Rightarrow> 'a list \<Rightarrow> 'a \<Rightarrow> 'a list" where
  "try_push cap xs x = (if length xs < cap then xs @ [x] else xs)"

fun position :: "('a \<Rightarrow> bool) \<Rightarrow> 'a list \<Rightarrow> nat option" where
  "position P [] = None"
| "position P (x # xs) = (if P x then Some 0 else map_option Suc (position P xs))"

text \<open>\<^verbatim>\<open>iter_mut().find(P)\<close> followed by an update of the element found.\<close>

fun update_first :: "('a \<Rightarrow> bool) \<Rightarrow> ('a \<Rightarrow> 'a) \<Rightarrow> 'a list \<Rightarrow> 'a list" where
  "update_first P f [] = []"
| "update_first P f (x # xs) = (if P x then f x # xs else x # update_first P f xs)"

definition remove_at :: "nat \<Rightarrow> 'a list \<Rightarrow> 'a list" where
  "remove_at i xs = take i xs @ drop (Suc i) xs"

section \<open>Lemmas on bytes\<close>

lemma unat_u8_less [simp]: "unat (b :: u8) < 256"
  using unsigned_less [of b] by simp

lemma length_le_of_nat [simp, byte_simps]: "length (le_of_nat n v) = n"
  by (induction n arbitrary: v) auto

lemma nat_of_le_of_nat [simp]: "nat_of_le (le_of_nat n v) = v mod 256 ^ n"
proof (induction n arbitrary: v)
  case 0
  then show ?case by simp
next
  case (Suc n)
  have "unat (of_nat (v mod 256) :: u8) = v mod 256"
    by (simp add: unat_of_nat)
  then show ?case
    using Suc by (simp add: mod_mult2_eq)
qed

lemma le_of_nat_of_le: "le_of_nat (length bs) (nat_of_le bs) = bs"
proof (induction bs)
  case Nil
  then show ?case by simp
next
  case (Cons b bs)
  have "(unat b + 256 * nat_of_le bs) mod 256 = unat b"
    and "(unat b + 256 * nat_of_le bs) div 256 = nat_of_le bs"
    by simp_all
  with Cons show ?case by simp
qed

lemma nat_of_be_append:
  "nat_of_be (xs @ ys) = nat_of_be xs * 256 ^ length ys + nat_of_be ys"
  by (induction xs) (auto simp: algebra_simps power_add)

lemma nat_of_be_rev [simp]: "nat_of_be (rev bs) = nat_of_le bs"
  by (induction bs) (auto simp: nat_of_be_append)

lemma nat_of_be_less: "nat_of_be bs < 256 ^ length bs"
proof (induction bs)
  case Nil
  then show ?case by simp
next
  case (Cons b bs)
  have "unat b \<le> 255"
    using unat_u8_less [of b] by linarith
  then have "unat b * 256 ^ length bs \<le> 255 * 256 ^ length bs"
    by (rule mult_right_mono) simp
  then have "unat b * 256 ^ length bs + nat_of_be bs < 256 * 256 ^ length bs"
    using Cons.IH by linarith
  then show ?case by simp
qed

lemma nat_of_be_zero_iff: "nat_of_be bs = 0 \<longleftrightarrow> bs = replicate (length bs) 0"
proof (induction bs)
  case Nil
  then show ?case by simp
next
  case (Cons b bs)
  then show ?case by (auto simp: unat_eq_0)
qed

lemma length_to_le_bytes [simp, byte_simps]:
  "length (to_le_bytes (w :: 'a::len word)) = LENGTH('a) div 8"
  by (simp add: to_le_bytes_def)

lemma length_to_be_bytes [simp, byte_simps]:
  "length (to_be_bytes (w :: 'a::len word)) = LENGTH('a) div 8"
  by (simp add: to_be_bytes_def)

lemma pow256: "(256::nat) ^ n = 2 ^ (8 * n)"
  by (simp add: power_mult)

lemma from_to_le_bytes:
  assumes "8 * (LENGTH('a) div 8) = LENGTH('a)"
  shows "from_le_bytes (to_le_bytes w) = (w :: 'a::len word)"
  using assms by (simp add: from_le_bytes_def to_le_bytes_def pow256)

lemma from_to_be_bytes:
  assumes "8 * (LENGTH('a) div 8) = LENGTH('a)"
  shows "from_be_bytes (to_be_bytes w) = (w :: 'a::len word)"
  using from_to_le_bytes [OF assms, of w]
  by (simp add: from_be_bytes_def to_be_bytes_def from_le_bytes_def)

lemma from_to_bytes [simp, byte_simps]:
  "from_le_bytes (to_le_bytes (w32 :: u32)) = w32"
  "from_be_bytes (to_be_bytes w32) = w32"
  "from_le_bytes (to_le_bytes (w64 :: u64)) = w64"
  "from_be_bytes (to_be_bytes w64) = w64"
  by (rule from_to_le_bytes from_to_be_bytes, simp)+

lemma to_from_le_bytes:
  assumes "8 * length bs = LENGTH('a)"
  shows "to_le_bytes (from_le_bytes bs :: 'a::len word) = bs"
proof -
  have "nat_of_le bs < 2 ^ LENGTH('a)"
    using nat_of_be_less [of "rev bs"] assms by (simp add: pow256)
  moreover have "LENGTH('a) div 8 = length bs"
    using assms by presburger
  ultimately show ?thesis
    by (simp add: to_le_bytes_def from_le_bytes_def unat_of_nat le_of_nat_of_le)
qed

lemma to_from_be_bytes:
  assumes "8 * length bs = LENGTH('a)"
  shows "to_be_bytes (from_be_bytes bs :: 'a::len word) = bs"
proof -
  have "from_be_bytes bs = (from_le_bytes (rev bs) :: 'a word)"
    using nat_of_be_rev [of "rev bs"] by (simp add: from_be_bytes_def from_le_bytes_def)
  then show ?thesis
    using to_from_le_bytes [where 'a = 'a, of "rev bs"] assms by (simp add: to_be_bytes_def)
qed

lemma to_be_bytes_inject [simp]:
  "to_be_bytes (a :: u64) = to_be_bytes b \<longleftrightarrow> a = b"
  by (metis from_to_bytes(4))

text \<open>The derived order of \<^verbatim>\<open>[u8; N]\<close> is the order of the big-endian integers.\<close>

lemma be_le_iff:
  "length xs = length ys \<Longrightarrow> xs \<le> ys \<longleftrightarrow> nat_of_be xs \<le> nat_of_be ys"
proof (induction xs ys rule: list_induct2)
  case Nil
  then show ?case by simp
next
  case (Cons x xs y ys)
  let ?m = "(256::nat) ^ length ys"
  have xs: "nat_of_be xs < ?m" and ys: "nat_of_be ys < ?m"
    using nat_of_be_less [of xs] nat_of_be_less [of ys] Cons.hyps by simp_all
  consider (lt) "x < y" | (eq) "x = y" | (gt) "y < x" by fastforce
  then show ?case
  proof cases
    case lt
    then have "Suc (unat x) * ?m \<le> unat y * ?m"
      by (intro mult_right_mono) (simp_all add: word_less_nat_alt)
    then have "unat x * ?m + ?m \<le> unat y * ?m" by simp
    then show ?thesis using lt xs Cons.hyps by simp
  next
    case eq
    then show ?thesis using Cons by simp
  next
    case gt
    then have "Suc (unat y) * ?m \<le> unat x * ?m"
      by (intro mult_right_mono) (simp_all add: word_less_nat_alt)
    then have "unat y * ?m + ?m \<le> unat x * ?m" by simp
    then show ?thesis using gt ys Cons.hyps by auto
  qed
qed

section \<open>Lemmas on leading zeros\<close>

lemma bit_le_nat: "bit (x :: nat) i \<Longrightarrow> 2 ^ i \<le> x"
proof -
  assume "bit x i"
  then have "odd (x div 2 ^ i)"
    by (simp add: bit_iff_odd)
  then have "1 \<le> x div 2 ^ i"
    by (cases "x div 2 ^ i") auto
  then show ?thesis
    using div_less [of x "2 ^ i"] by (metis leI not_one_le_zero)
qed

lemma leading_zeros_zero [simp]: "leading_zeros (0 :: 'a::len word) = LENGTH('a)"
  by (simp add: leading_zeros_def takeWhile_eq_all_conv [THEN iffD2])

lemma leading_zeros_bits:
  fixes w :: "'a::len word"
  assumes "w \<noteq> 0"
  shows "leading_zeros w < LENGTH('a)" and "bit w (LENGTH('a) - 1 - leading_zeros w)"
    and "\<And>i. LENGTH('a) - leading_zeros w \<le> i \<Longrightarrow> \<not> bit w i"
proof -
  let ?n = "LENGTH('a)" and ?xs = "rev [0..<LENGTH('a)]" and ?P = "\<lambda>i. \<not> bit w i"
  have lz: "leading_zeros w = length (takeWhile ?P ?xs)"
    by (simp add: leading_zeros_def)
  obtain b where "bit w b" "b < ?n"
    using assms bit_word_eqI [of w 0] by auto
  then have "takeWhile ?P ?xs \<noteq> ?xs"
    by (auto simp: takeWhile_eq_all_conv)
  then have lt: "length (takeWhile ?P ?xs) < length ?xs"
    by (metis length_takeWhile_le nat_less_le takeWhile_eq_take take_all_iff)
  then show 1: "leading_zeros w < ?n"
    by (simp add: lz)
  have "\<not> ?P (?xs ! length (takeWhile ?P ?xs))"
    using lt by (rule nth_length_takeWhile)
  then show "bit w (?n - 1 - leading_zeros w)"
    using lt 1 by (simp add: lz rev_nth)
  show "\<not> bit w i" if "?n - leading_zeros w \<le> i" for i
  proof (cases "i < ?n")
    case True
    have j: "?n - 1 - i < length (takeWhile ?P ?xs)"
      using that True lz 1 by simp
    then have "takeWhile ?P ?xs ! (?n - 1 - i) \<in> set (takeWhile ?P ?xs)"
      by simp
    moreover have "takeWhile ?P ?xs ! (?n - 1 - i) = ?xs ! (?n - 1 - i)"
      using j by (simp add: takeWhile_nth)
    moreover have "?xs ! (?n - 1 - i) = i"
      using True by (simp add: rev_nth)
    ultimately show ?thesis
      by (metis set_takeWhileD)
  next
    case False
    then show ?thesis by (simp add: bit_word.rep_eq)
  qed
qed

lemma leading_zeros_bounds:
  fixes w :: "'a::len word"
  assumes "w \<noteq> 0"
  shows "2 ^ (LENGTH('a) - 1 - leading_zeros w) \<le> unat w"
    and "unat w < 2 ^ (LENGTH('a) - leading_zeros w)"
proof -
  have "bit (unat w) (LENGTH('a) - 1 - leading_zeros w)"
    using leading_zeros_bits(2) [OF assms] by (simp add: bit_unsigned_iff)
  then show "2 ^ (LENGTH('a) - 1 - leading_zeros w) \<le> unat w"
    by (rule bit_le_nat)
  have "take_bit (LENGTH('a) - leading_zeros w) (unat w) = unat w"
    by (rule bit_eqI)
      (metis bit_take_bit_iff bit_unsigned_iff leading_zeros_bits(3) [OF assms] linorder_not_less)
  then show "unat w < 2 ^ (LENGTH('a) - leading_zeros w)"
    by (metis take_bit_nat_less_exp)
qed

section \<open>Lemmas on sequences\<close>

lemma length_try_push_le: "length xs \<le> cap \<Longrightarrow> length (try_push cap xs x) \<le> cap"
  by (simp add: try_push_def)

lemma set_try_push: "set (try_push cap xs x) \<subseteq> insert x (set xs)"
  by (auto simp: try_push_def)

lemma position_Some_iff:
  "position P xs = Some i \<longleftrightarrow> i < length xs \<and> P (xs ! i) \<and> (\<forall>j < i. \<not> P (xs ! j))"
proof (induction xs arbitrary: i)
  case Nil
  then show ?case by simp
next
  case (Cons x xs)
  then show ?case
    by (cases i) (auto simp: less_Suc_eq_0_disj)
qed

lemma position_None_iff: "position P xs = None \<longleftrightarrow> (\<forall>x \<in> set xs. \<not> P x)"
  by (induction xs) auto

lemma find_SomeD: "find P xs = Some x \<Longrightarrow> x \<in> set xs \<and> P x"
  by (induction xs) (auto split: if_splits)

lemma length_update_first [simp]: "length (update_first P f xs) = length xs"
  by (induction xs) auto

lemma set_update_first: "set (update_first P f xs) \<subseteq> set xs \<union> f ` {x \<in> set xs. P x}"
  by (induction xs) auto

lemma map_update_first: "(\<And>x. P x \<Longrightarrow> g (f x) = g x) \<Longrightarrow> map g (update_first P f xs) = map g xs"
  by (induction xs) auto

lemma length_remove_at: "i < length xs \<Longrightarrow> length (remove_at i xs) = length xs - 1"
  by (simp add: remove_at_def)

lemma set_remove_at: "set (remove_at i xs) \<subseteq> set xs"
  by (auto simp: remove_at_def dest: in_set_takeD in_set_dropD)

lemma in_set_remove_at: "x \<in> set (remove_at i xs) \<Longrightarrow> x \<in> set xs"
  by (rule subsetD [OF set_remove_at])

lemma mset_remove_at:
  assumes "i < length xs"
  shows "mset xs = add_mset (xs ! i) (mset (remove_at i xs))"
proof -
  have "mset xs = mset (take i xs @ xs ! i # drop (Suc i) xs)"
    using assms by (simp add: id_take_nth_drop [symmetric])
  then show ?thesis by (simp add: remove_at_def)
qed

text \<open>The first \<open>n\<close> elements of a sorted list are no larger than the others.\<close>

lemma take_sort_key_le:
  assumes "x \<in> set (take n (sort_key f xs))" and "y \<in> set (drop n (sort_key f xs))"
  shows "f x \<le> f y"
proof -
  have "sorted (map f (take n (sort_key f xs) @ drop n (sort_key f xs)))"
    by simp
  then show ?thesis
    unfolding map_append sorted_append using assms by auto
qed

section \<open>State machines with an invariant\<close>

text \<open>
  What the operations of a component promise together: each event that is admitted keeps the
  invariant. Every run of admitted events from a good state then stays good.
\<close>

locale inv_machine =
  fixes step :: "'s \<Rightarrow> 'e \<Rightarrow> 's"
    and inv :: "'s \<Rightarrow> bool"
    and ok :: "'e \<Rightarrow> bool"
  assumes step_inv: "inv s \<Longrightarrow> ok e \<Longrightarrow> inv (step s e)"
begin

lemma run_inv: "inv s \<Longrightarrow> list_all ok es \<Longrightarrow> inv (foldl step s es)"
  by (induction es arbitrary: s) (auto intro: step_inv)

end

end
