(* ===== verification/Types.thy ===== *)
theory Types
  imports Prelude
begin

text \<open>
  \<^verbatim>\<open>src/types.rs\<close>: 256-bit identifiers, the XOR distance and the k-bucket index, the choice
  of the shard that owns a key, and the description of a peer. An identifier is the array
  \<^verbatim>\<open>[u8; 32]\<close>: a byte list for which \<open>id_ok\<close> says that it has 32 bytes.
\<close>

section \<open>Constants\<close>

definition ID_LEN :: nat where "ID_LEN = 32"
definition K_DEFAULT :: nat where "K_DEFAULT = 20"
definition K_MAX :: nat where "K_MAX = 32"
definition ALPHA_DEFAULT :: nat where "ALPHA_DEFAULT = 4"
definition ALPHA_MIN :: nat where "ALPHA_MIN = 3"
definition ALPHA_MAX :: nat where "ALPHA_MAX = 8"
definition PROTOCOL_VERSION :: u8 where "PROTOCOL_VERSION = 1"
definition PMTU_FLOOR :: nat where "PMTU_FLOOR = 1200"
definition HEADER_LEN :: nat where "HEADER_LEN = 12"
definition MAX_FIND_NODE_PEERS :: nat where "MAX_FIND_NODE_PEERS = 16"
definition MAX_PROVIDERS_PER_CHUNK :: nat where "MAX_PROVIDERS_PER_CHUNK = 32"
definition MAX_CLOSER_PEERS :: nat where "MAX_CLOSER_PEERS = 8"
definition FEATURE_PRIVACY_BLINDING :: u64 where "FEATURE_PRIVACY_BLINDING = 1"
definition FEATURE_TWO_HOP_RELAY :: u64 where "FEATURE_TWO_HOP_RELAY = 2"
definition FEATURE_STREAMING_CHUNKS :: u64 where "FEATURE_STREAMING_CHUNKS = 4"
definition FEATURE_ERASURE_HINTS :: u64 where "FEATURE_ERASURE_HINTS = 8"

section \<open>Identifiers and keys\<close>

datatype node_id = NodeId (nid: bytes)
datatype key = Key (kbytes: bytes)

definition id_ok :: "bytes \<Rightarrow> bool" where
  "id_ok bs = (length bs = ID_LEN)"

definition node_id_from_bytes :: "bytes \<Rightarrow> node_id option" where
  "node_id_from_bytes bs = (if length bs = ID_LEN then Some (NodeId bs) else None)"

definition key_from_bytes :: "bytes \<Rightarrow> key option" where
  "key_from_bytes bs = (if length bs = ID_LEN then Some (Key bs) else None)"

definition key_from_node :: "node_id \<Rightarrow> key" where
  "key_from_node i = Key (nid i)"

text \<open>\<^verbatim>\<open>#[derive(PartialOrd, Ord)]\<close>: the order of the arrays, byte by byte.\<close>

instantiation node_id :: linorder
begin

definition less_eq_node_id :: "node_id \<Rightarrow> node_id \<Rightarrow> bool" where
  "less_eq_node_id a b = (nid a \<le> nid b)"

definition less_node_id :: "node_id \<Rightarrow> node_id \<Rightarrow> bool" where
  "less_node_id a b = (nid a < nid b)"

instance
  by standard (auto simp: less_eq_node_id_def less_node_id_def node_id.expand)

end

instantiation key :: linorder
begin

definition less_eq_key :: "key \<Rightarrow> key \<Rightarrow> bool" where
  "less_eq_key a b = (kbytes a \<le> kbytes b)"

definition less_key :: "key \<Rightarrow> key \<Rightarrow> bool" where
  "less_key a b = (kbytes a < kbytes b)"

instance
  by standard (auto simp: less_eq_key_def less_key_def key.expand)

end

section \<open>Distance, buckets and shards\<close>

definition xor_distance :: "bytes \<Rightarrow> bytes \<Rightarrow> bytes" where
  "xor_distance a b = map2 (XOR) a b"

fun leading_zeros_loop :: "bytes \<Rightarrow> nat" where
  "leading_zeros_loop [] = 0"
| "leading_zeros_loop (b # bs) = (if b = 0 then 8 + leading_zeros_loop bs else leading_zeros b)"

definition leading_zeros_256 :: "bytes \<Rightarrow> nat" where
  "leading_zeros_256 d = min (leading_zeros_loop d) 256"

definition bucket_index :: "node_id \<Rightarrow> node_id \<Rightarrow> nat" where
  "bucket_index self_id other =
     (let d = xor_distance (nid self_id) (nid other); lz = leading_zeros_256 d
      in if lz \<ge> 256 then 0 else 255 - lz)"

definition shard_id :: "node_id \<Rightarrow> key \<Rightarrow> u32 \<Rightarrow> u32" where
  "shard_id self_id k shard_count =
     (if shard_count \<le> 1 then 0
      else let bits = 32 - leading_zeros (shard_count - 1);
               d = xor_distance (nid self_id) (kbytes k);
               prefix = from_be_bytes (take 4 d);
               raw = (if bits = 0 then 0 else drop_bit (32 - bits) prefix)
           in if is_power_of_two shard_count then raw else raw mod shard_count)"

section \<open>Socket addresses and peers\<close>

datatype ip_addr = IpV4 u8 u8 u8 u8 | IpV6 bytes

datatype socket_addr =
    AddrV4 u8 u8 u8 u8 u16
  | AddrV6 bytes u16 u32 u32 \<comment> \<open>octets, port, flow information, scope\<close>

fun sa_ip :: "socket_addr \<Rightarrow> ip_addr" where
  "sa_ip (AddrV4 a b c d p) = IpV4 a b c d"
| "sa_ip (AddrV6 o6 p f s) = IpV6 o6"

fun sa_port :: "socket_addr \<Rightarrow> u16" where
  "sa_port (AddrV4 a b c d p) = p"
| "sa_port (AddrV6 o6 p f s) = p"

fun socket_addr_new :: "ip_addr \<Rightarrow> u16 \<Rightarrow> socket_addr" where
  "socket_addr_new (IpV4 a b c d) p = AddrV4 a b c d p"
| "socket_addr_new (IpV6 o6) p = AddrV6 o6 p 0 0"

record peer_info =
  pi_id :: node_id
  pi_addrs :: "socket_addr list" \<comment> \<open>\<^verbatim>\<open>ArrayVec<SocketAddr, 4>\<close>\<close>
  rtt_ms :: u32
  x25519 :: "bytes option"

definition peer_info_new :: "node_id \<Rightarrow> socket_addr \<Rightarrow> peer_info" where
  "peer_info_new i a = \<lparr>pi_id = i, pi_addrs = try_push 4 [] a, rtt_ms = 0, x25519 = None\<rparr>"

definition primary_addr :: "peer_info \<Rightarrow> socket_addr option" where
  "primary_addr p = (case pi_addrs p of [] \<Rightarrow> None | a # _ \<Rightarrow> Some a)"

definition push_addr :: "peer_info \<Rightarrow> socket_addr \<Rightarrow> peer_info" where
  "push_addr p a =
     (if a \<in> set (pi_addrs p) then p else p\<lparr>pi_addrs := try_push 4 (pi_addrs p) a\<rparr>)"

section \<open>Lemmas on the distance\<close>

lemma length_xor_distance [simp, byte_simps]:
  "length (xor_distance a b) = min (length a) (length b)"
  by (simp add: xor_distance_def)

lemma xor_distance_simps [simp]:
  "xor_distance [] b = []"
  "xor_distance a [] = []"
  "xor_distance (x # a) (y # b) = (x XOR y) # xor_distance a b"
  by (simp_all add: xor_distance_def)

lemma xor_distance_sym: "xor_distance a b = xor_distance b a"
proof (induction a arbitrary: b)
  case Nil
  then show ?case by simp
next
  case (Cons x a)
  then show ?case by (cases b) (auto simp: xor.commute)
qed

lemma xor_eq_zero_iff: "(x :: 'a::len word) XOR y = 0 \<longleftrightarrow> x = y"
  by (metis xor.assoc xor.left_neutral xor_self_eq)

lemma xor_distance_zero_iff:
  "length a = length b \<Longrightarrow> nat_of_be (xor_distance a b) = 0 \<longleftrightarrow> a = b"
  by (induction a b rule: list_induct2) (auto simp: unat_eq_0 xor_eq_zero_iff)

lemma xor_distance_cancel:
  "length a = length b \<Longrightarrow> length a = length c \<Longrightarrow>
     xor_distance a b = xor_distance a c \<longleftrightarrow> b = c"
proof (induction a b arbitrary: c rule: list_induct2)
  case Nil
  then show ?case by simp
next
  case (Cons x a y b)
  have "x XOR y = x XOR z \<longleftrightarrow> y = z" for z
    by (metis xor.assoc xor.left_neutral xor_self_eq)
  with Cons show ?case by (cases c) auto
qed

lemma int_xor_and: "(x XOR y) + 2 * (x AND y) = x + (y :: int)"
proof -
  have "(x XOR y) AND (x AND y) = 0"
    by (rule bit_eqI) (auto simp: bit_simps)
  then have "(x XOR y) + (x AND y) = (x XOR y) OR (x AND y)"
    by (rule disjunctive_add_eq_or)
  also have "\<dots> = x OR y"
    by (rule bit_eqI) (auto simp: bit_simps)
  finally show ?thesis
    using plus_and_or [of x y] by simp
qed

lemma unat_xor_le: "unat (x XOR y) \<le> unat x + unat (y :: 'a::len word)"
proof -
  have "0 \<le> uint x AND uint y"
    by simp
  then have "uint x XOR uint y \<le> uint x + uint y"
    using int_xor_and [of "uint x" "uint y"] by linarith
  then have "uint (x XOR y) \<le> uint x + uint y"
    by (simp add: unsigned_xor_eq)
  then show ?thesis
    by (simp only: unat_eq_nat_uint nat_le_eq_zle flip: nat_add_distrib)
qed

lemma xor_distance_triangle:
  "length a = length b \<Longrightarrow> length b = length c \<Longrightarrow>
     nat_of_be (xor_distance a c)
       \<le> nat_of_be (xor_distance a b) + nat_of_be (xor_distance b c)"
proof (induction a b arbitrary: c rule: list_induct2)
  case Nil
  then show ?case by simp
next
  case (Cons x a y b)
  then obtain z c' where c: "c = z # c'" "length b = length c'"
    by (cases c) auto
  let ?m = "(256::nat) ^ length c'"
  have "x XOR z = (x XOR y) XOR (y XOR z)"
    by (simp add: xor.assoc)
  then have "unat (x XOR z) \<le> unat (x XOR y) + unat (y XOR z)"
    using unat_xor_le [of "x XOR y" "y XOR z"] by simp
  then have "unat (x XOR z) * ?m \<le> (unat (x XOR y) + unat (y XOR z)) * ?m"
    by (rule mult_right_mono) simp
  then show ?case
    using Cons.IH [OF c(2)] c Cons.hyps by (simp add: algebra_simps)
qed

lemma leading_zeros_u8 [simp]: "leading_zeros (b :: u8) \<le> 8"
  using length_takeWhile_le [of _ "rev [0..<8]"] by (simp add: leading_zeros_def)

lemma leading_zeros_loop_le: "leading_zeros_loop bs \<le> 8 * length bs"
  by (induction bs) (auto intro: order_trans [OF leading_zeros_u8])

lemma leading_zeros_loop_bounds:
  "nat_of_be bs \<noteq> 0 \<Longrightarrow> leading_zeros_loop bs < 8 * length bs
     \<and> 2 ^ (8 * length bs - 1 - leading_zeros_loop bs) \<le> nat_of_be bs
     \<and> nat_of_be bs < 2 ^ (8 * length bs - leading_zeros_loop bs)"
proof (induction bs)
  case Nil
  then show ?case by simp
next
  case (Cons b bs)
  show ?case
  proof (cases "b = 0")
    case True
    with Cons show ?thesis by auto
  next
    case False
    let ?z = "leading_zeros b" and ?m = "(2::nat) ^ (8 * length bs)"
    have z: "?z < 8" and lo: "2 ^ (7 - ?z) \<le> unat b" and hi: "unat b < 2 ^ (8 - ?z)"
      using leading_zeros_bits(1) [OF False] leading_zeros_bounds [OF False] by simp_all
    have tl: "nat_of_be bs < ?m"
      using nat_of_be_less [of bs] by (simp add: pow256)
    have e: "8 * length (b # bs) - 1 - ?z = (7 - ?z) + 8 * length bs"
      "8 * length (b # bs) - ?z = (8 - ?z) + 8 * length bs"
      using z by simp_all
    have n: "nat_of_be (b # bs) = unat b * ?m + nat_of_be bs"
      by (simp add: pow256)
    have "2 ^ (7 - ?z) * ?m \<le> unat b * ?m"
      using lo by (rule mult_right_mono) simp
    then have l: "2 ^ (7 - ?z) * ?m \<le> unat b * ?m + nat_of_be bs"
      by (rule trans_le_add1)
    have "Suc (unat b) * ?m \<le> 2 ^ (8 - ?z) * ?m"
      using hi by (intro mult_right_mono) simp_all
    then have h: "unat b * ?m + nat_of_be bs < 2 ^ (8 - ?z) * ?m"
      using tl by simp
    have "leading_zeros_loop (b # bs) = ?z"
      using False by simp
    then show ?thesis
      using z l h unfolding n by (simp only: e power_add) simp
  qed
qed

lemma bucket_index_less: "bucket_index a b < 256"
  by (auto simp: bucket_index_def Let_def)

lemma bucket_index_bounds:
  assumes "id_ok (nid a)" "id_ok (nid b)" "a \<noteq> b"
  shows "2 ^ bucket_index a b \<le> nat_of_be (xor_distance (nid a) (nid b))"
    and "nat_of_be (xor_distance (nid a) (nid b)) < 2 ^ Suc (bucket_index a b)"
proof -
  let ?d = "xor_distance (nid a) (nid b)"
  have len: "length (nid a) = 32" "length (nid b) = 32"
    using assms by (simp_all add: id_ok_def ID_LEN_def)
  have "nat_of_be ?d \<noteq> 0"
    using assms xor_distance_zero_iff [of "nid a" "nid b"]
    by (auto simp: id_ok_def node_id.expand)
  from leading_zeros_loop_bounds [OF this] have z: "leading_zeros_loop ?d < 256"
    and lo: "2 ^ (255 - leading_zeros_loop ?d) \<le> nat_of_be ?d"
    and hi: "nat_of_be ?d < 2 ^ (256 - leading_zeros_loop ?d)"
    by (simp_all add: len)
  have b: "bucket_index a b = 255 - leading_zeros_loop ?d"
    using z by (simp add: bucket_index_def leading_zeros_256_def Let_def)
  moreover have "Suc (255 - leading_zeros_loop ?d) = 256 - leading_zeros_loop ?d"
    using z by simp
  ultimately show "2 ^ bucket_index a b \<le> nat_of_be ?d"
    and "nat_of_be ?d < 2 ^ Suc (bucket_index a b)"
    using lo hi by (simp_all only:)
qed

section \<open>Lemmas on shards\<close>

lemma unat_drop_bit_less:
  fixes w :: u32
  assumes "k \<le> 32"
  shows "unat (drop_bit (32 - k) w) < 2 ^ k"
proof -
  have "unat w < 2 ^ (k + (32 - k))"
    using unsigned_less [of w] assms by simp
  then have "unat w div 2 ^ (32 - k) < 2 ^ k"
    by (simp add: power_add less_mult_imp_div_less)
  moreover have "unat (drop_bit (32 - k) w) = unat w div 2 ^ (32 - k)"
    unfolding unat_drop_bit_eq by (simp add: drop_bit_eq_div)
  ultimately show ?thesis by simp
qed

lemma unat_two_power: "j < LENGTH('a) \<Longrightarrow> unat ((2 :: 'a::len word) ^ j) = 2 ^ j"
proof -
  assume j: "j < LENGTH('a)"
  have "unat ((2 :: 'a word) ^ j) = unat (of_nat (2 ^ j) :: 'a word)"
    by simp
  also have "\<dots> = 2 ^ j"
    using j unfolding unat_of_nat by simp
  finally show ?thesis .
qed

lemma is_power_of_twoE:
  assumes "is_power_of_two (w :: 'a::len word)"
  obtains j where "j < LENGTH('a)" "w = 2 ^ j" "unat w = 2 ^ j"
  using assms by (auto simp: is_power_of_two_def list_ex_iff unat_two_power)

text \<open>For a power of two the number of routing bits is the binary logarithm.\<close>

lemma shard_bits_power:
  assumes "w = (2 :: u32) ^ j" "j < 32" "0 < j"
  shows "32 - leading_zeros (w - 1) = j"
proof -
  have u: "unat w = 2 ^ j"
    using assms by (simp add: unat_two_power)
  have "(2::nat) ^ 1 \<le> 2 ^ j"
    using assms by (intro power_increasing) simp_all
  then have u1: "unat (w - 1) = 2 ^ j - 1" and nz: "w - 1 \<noteq> 0"
    using u by (auto simp: unat_sub word_le_nat_alt)
  let ?z = "leading_zeros (w - 1)"
  have z: "?z < 32" and lo: "2 ^ (31 - ?z) \<le> unat (w - 1)" and hi: "unat (w - 1) < 2 ^ (32 - ?z)"
    using leading_zeros_bits(1) [OF nz] leading_zeros_bounds [OF nz] by simp_all
  have "(2::nat) ^ (31 - ?z) < 2 ^ j"
    using lo u1 by (simp add: le_less_trans)
  then have a: "31 - ?z < j"
    by simp
  have "(2::nat) ^ j \<le> 2 ^ (32 - ?z)"
    using hi u1 by linarith
  then have "j \<le> 32 - ?z"
    by (rule power_le_imp_le_exp [rotated]) simp
  with a z show ?thesis by linarith
qed

lemma shard_bits_le: "32 - leading_zeros (w :: u32) \<le> 32"
  by simp

lemma unat_from_be_take4: "unat (from_be_bytes (take 4 d) :: u32) = nat_of_be (take 4 d)"
proof -
  have "nat_of_be (take 4 d) < 256 ^ length (take 4 d)"
    by (rule nat_of_be_less)
  also have "\<dots> \<le> (256::nat) ^ 4"
    by (rule power_increasing) simp_all
  finally show ?thesis
    by (simp add: from_be_bytes_def unat_of_nat)
qed

section \<open>Properties\<close>

text \<open>
  \<open>xor_distance\<close>, read as a big-endian integer, is a metric on 256-bit identifiers: it is
  symmetric, zero only between equal identifiers, obeys the triangle inequality, and is
  unidirectional (from a fixed point each distance belongs to exactly one identifier).
\<close>

theorem xor_distance_metric:
  assumes "id_ok a" and "id_ok b" and "id_ok c"
  shows "xor_distance a b = xor_distance b a
    \<and> (nat_of_be (xor_distance a b) = 0 \<longleftrightarrow> a = b)
    \<and> nat_of_be (xor_distance a c) \<le> nat_of_be (xor_distance a b) + nat_of_be (xor_distance b c)
    \<and> (xor_distance a b = xor_distance a c \<longleftrightarrow> b = c)"
  using assms xor_distance_sym xor_distance_zero_iff [of a b] xor_distance_triangle [of a b c]
    xor_distance_cancel [of a b c]
  by (simp add: id_ok_def)

theorem xor_distance_metric_witness:
  "nat_of_be (xor_distance (replicate 32 1) (replicate 32 4))
     \<le> nat_of_be (xor_distance (replicate 32 1) (replicate 32 2))
       + nat_of_be (xor_distance (replicate 32 2) (replicate 32 4))"
proof -
  have "id_ok (replicate 32 x)" for x
    by (simp add: id_ok_def ID_LEN_def)
  then show ?thesis
    using xor_distance_metric by blast
qed

text \<open>
  \<open>bucket_index\<close> is the floor of the binary logarithm of the distance between two
  different identifiers, as the comment on the function says.
\<close>

theorem bucket_index_log2:
  assumes "id_ok (nid a)" and "id_ok (nid b)" and "a \<noteq> b"
  shows "2 ^ bucket_index a b \<le> nat_of_be (xor_distance (nid a) (nid b))
    \<and> nat_of_be (xor_distance (nid a) (nid b)) < 2 ^ Suc (bucket_index a b)"
  using bucket_index_bounds [OF assms] by simp

theorem bucket_index_log2_witness:
  "2 ^ bucket_index (NodeId (replicate 32 0)) (NodeId (replicate 32 5))
     \<le> nat_of_be (xor_distance (replicate 32 0) (replicate 32 5))"
  using bucket_index_log2 [of "NodeId (replicate 32 0)" "NodeId (replicate 32 5)"]
  by (simp add: id_ok_def ID_LEN_def)

text \<open>The shard chosen for a key is always one of the node's shards.\<close>

theorem shard_id_in_range:
  assumes "shard_count \<noteq> 0"
  shows "shard_id s k shard_count < shard_count"
proof (cases "shard_count \<le> 1")
  case True
  with assms show ?thesis
    by (simp add: shard_id_def word_gt_0)
next
  case False
  let ?bits = "32 - leading_zeros (shard_count - 1)"
  let ?raw = "\<lambda>p :: u32. if ?bits = 0 then 0 else drop_bit (32 - ?bits) p"
  have "?raw p < shard_count" if pow: "is_power_of_two shard_count" for p
  proof -
    from pow obtain j where j: "j < 32" "shard_count = 2 ^ j" "unat shard_count = 2 ^ j"
      by (rule is_power_of_twoE) simp
    with False have "0 < j"
      by (cases j) simp_all
    with j have "?bits = j"
      by (intro shard_bits_power) simp_all
    with j \<open>0 < j\<close> show ?thesis
      using unat_drop_bit_less [of j p] by (simp add: word_less_nat_alt)
  qed
  with False assms show ?thesis
    by (simp add: shard_id_def Let_def word_mod_less_divisor word_gt_0)
qed

theorem shard_id_in_range_witness:
  "shard_id (NodeId (replicate 32 0)) (Key (replicate 32 255)) 3 < 3"
  using shard_id_in_range [of 3] by simp

text \<open>
  With a power of two \<open>2 ^ j\<close> of shards, the shard of a key is given by the top \<open>j\<close> bits of
  its distance to the node, so keys at similar distances share a shard.
\<close>

theorem shard_id_prefix:
  assumes "id_ok (nid s)" and "id_ok (kbytes k)" and "0 < j" and "j < 32"
  shows "unat (shard_id s k (2 ^ j)) = nat_of_be (xor_distance (nid s) (kbytes k)) div 2 ^ (256 - j)"
proof -
  let ?d = "xor_distance (nid s) (kbytes k)"
  have len: "length (drop 4 ?d) = 28"
    using assms by (simp add: id_ok_def ID_LEN_def)
  have "nat_of_be ?d = nat_of_be (take 4 ?d @ drop 4 ?d)"
    by simp
  also have "\<dots> = nat_of_be (take 4 ?d) * 2 ^ 224 + nat_of_be (drop 4 ?d)"
    unfolding nat_of_be_append len by (simp add: pow256)
  finally have "nat_of_be ?d div 2 ^ 224 = nat_of_be (take 4 ?d)"
    using nat_of_be_less [of "drop 4 ?d"] unfolding len by simp
  moreover have "256 - j = 224 + (32 - j)"
    using assms by simp
  ultimately have d: "nat_of_be ?d div 2 ^ (256 - j) = nat_of_be (take 4 ?d) div 2 ^ (32 - j)"
    by (simp only: power_add div_mult2_eq)
  have pow: "is_power_of_two ((2 :: u32) ^ j)"
    using assms by (auto simp: is_power_of_two_def list_ex_iff)
  have big: "\<not> (2 :: u32) ^ j \<le> 1"
    using assms one_less_power [of "2::nat" j] by (simp add: word_le_nat_alt unat_two_power)
  have "shard_id s k (2 ^ j) = drop_bit (32 - j) (from_be_bytes (take 4 ?d))"
    using assms big pow shard_bits_power [of "2 ^ j" j] by (simp add: shard_id_def Let_def)
  then show ?thesis
    by (simp only: d unat_drop_bit_eq unat_from_be_take4) (simp only: drop_bit_eq_div)
qed

theorem shard_id_prefix_witness:
  "unat (shard_id (NodeId (replicate 32 0)) (Key (replicate 32 192)) (2 ^ 2))
     = nat_of_be (xor_distance (replicate 32 0) (replicate 32 192)) div 2 ^ (256 - 2)"
  using shard_id_prefix [of "NodeId (replicate 32 0)" "Key (replicate 32 192)" 2]
  by (simp add: id_ok_def ID_LEN_def)

end
