(* ===== verification/Routing.thy ===== *)
theory Routing
  imports Types
begin

text \<open>
  \<^verbatim>\<open>src/routing.rs\<close>: the k-bucket routing table of one shard. A table holds 256 buckets in
  least-recently-seen order (the oldest contact first) and, for each bucket, a replacement
  cache. Each operation takes the clock reading \<^verbatim>\<open>Instant::now()\<close> that the code asks for.
\<close>

section \<open>State\<close>

record peer_entry =
  pe_info :: peer_info
  last_seen :: instant
  fail_count :: u32
  srtt_us :: u32

record routing_table =
  rt_self :: node_id
  rt_k :: nat
  buckets :: "peer_entry list list"
  replacement :: "peer_entry list list"

definition pe_id :: "peer_entry \<Rightarrow> node_id" where
  "pe_id e = pi_id (pe_info e)"

definition new_entry :: "instant \<Rightarrow> peer_info \<Rightarrow> peer_entry" where
  "new_entry now info = \<lparr>pe_info = info, last_seen = now, fail_count = 0, srtt_us = 200000\<rparr>"

section \<open>Operations\<close>

definition rt_new :: "node_id \<Rightarrow> routing_table" where
  "rt_new self_id = \<lparr>rt_self = self_id, rt_k = K_DEFAULT,
     buckets = replicate 256 [], replacement = replicate 256 []\<rparr>"

definition rt_len :: "routing_table \<Rightarrow> nat" where
  "rt_len rt = sum_list (map length (buckets rt))"

definition rt_is_empty :: "routing_table \<Rightarrow> bool" where
  "rt_is_empty rt = (rt_len rt = 0)"

definition all_peers :: "routing_table \<Rightarrow> peer_entry list" where
  "all_peers rt = concat (buckets rt)"

definition rt_get :: "routing_table \<Rightarrow> node_id \<Rightarrow> peer_entry option" where
  "rt_get rt i = find (\<lambda>e. pe_id e = i) (buckets rt ! bucket_index (rt_self rt) i)"

text \<open>The /24 prefix of the primary address, when that is an IPv4 address.\<close>

definition v4_prefix :: "peer_info \<Rightarrow> (u8 \<times> u8 \<times> u8) option" where
  "v4_prefix info =
     (case primary_addr info of None \<Rightarrow> None
      | Some a \<Rightarrow> (case sa_ip a of IpV4 o0 o1 o2 o3 \<Rightarrow> Some (o0, o1, o2) | IpV6 _ \<Rightarrow> None))"

text \<open>
  A slot is a bucket together with its replacement cache: the part of the table that one
  operation reads and writes.
\<close>

type_synonym slot = "peer_entry list \<times> peer_entry list"

definition slot_at :: "routing_table \<Rightarrow> nat \<Rightarrow> slot" where
  "slot_at rt i = (buckets rt ! i, replacement rt ! i)"

definition put_slot :: "routing_table \<Rightarrow> nat \<Rightarrow> slot \<Rightarrow> routing_table" where
  "put_slot rt i s = rt\<lparr>buckets := (buckets rt)[i := fst s],
     replacement := (replacement rt)[i := snd s]\<rparr>"

definition same_prefix :: "u8 \<times> u8 \<times> u8 \<Rightarrow> peer_entry list \<Rightarrow> nat" where
  "same_prefix prefix b = length (filter (\<lambda>e. v4_prefix (pe_info e) = Some prefix) b)"

definition prefix_ok :: "routing_table \<Rightarrow> peer_info \<Rightarrow> bool" where
  "prefix_ok rt info =
     (case v4_prefix info of None \<Rightarrow> True
      | Some prefix \<Rightarrow>
          same_prefix prefix (buckets rt ! bucket_index (rt_self rt) (pi_id info)) < 8)"

text \<open>
  Insert or touch within the slot: a known contact moves to the most recently seen end; a new
  one is appended while the bucket has room; otherwise it goes to the replacement cache and the
  least recently seen contact is returned.
\<close>

fun slot_insert :: "instant \<Rightarrow> peer_info \<Rightarrow> nat \<Rightarrow> slot \<Rightarrow> peer_entry option \<times> slot" where
  "slot_insert now info k (b, r) =
     (case position (\<lambda>e. pe_id e = pi_id info) b of
        Some pos \<Rightarrow>
          (None, (remove_at pos b @ [(b ! pos)\<lparr>pe_info := info, last_seen := now, fail_count := 0\<rparr>], r))
      | None \<Rightarrow>
          if length b < min k K_MAX then (None, (b @ [new_entry now info], r))
          else (Some (b ! 0), (b, if length r < 8 then r @ [new_entry now info] else r)))"

definition rt_insert :: "instant \<Rightarrow> peer_info \<Rightarrow> routing_table \<Rightarrow> peer_entry option \<times> routing_table" where
  "rt_insert now info rt =
     (if pi_id info = rt_self rt then (None, rt)
      else if \<not> prefix_ok rt info then (None, rt)
      else let i = bucket_index (rt_self rt) (pi_id info);
               (lru, s) = slot_insert now info (rt_k rt) (slot_at rt i)
           in (lru, put_slot rt i s))"

fun slot_evict :: "node_id \<Rightarrow> slot \<Rightarrow> slot" where
  "slot_evict dead (b, r) =
     (let b' = filter (\<lambda>e. pe_id e \<noteq> dead) b
      in if r = [] then (b', r) else (try_push K_MAX b' (last r), butlast r))"

definition evict_and_replace :: "node_id \<Rightarrow> routing_table \<Rightarrow> routing_table" where
  "evict_and_replace dead rt =
     (let i = bucket_index (rt_self rt) dead in put_slot rt i (slot_evict dead (slot_at rt i)))"

definition ewma :: "u32 \<Rightarrow> u32 \<Rightarrow> u32" where
  "ewma old sample = (old * 7 + sample) div 8"

definition touch_entry :: "instant \<Rightarrow> u32 \<Rightarrow> peer_entry \<Rightarrow> peer_entry" where
  "touch_entry now rtt_us e =
     (let s = ewma (srtt_us e) rtt_us
      in e\<lparr>fail_count := 0, last_seen := now, srtt_us := s,
           pe_info := (pe_info e)\<lparr>rtt_ms := s div 1000\<rparr>\<rparr>)"

fun slot_touch :: "instant \<Rightarrow> node_id \<Rightarrow> u32 \<Rightarrow> slot \<Rightarrow> slot" where
  "slot_touch now i rtt_us (b, r) =
     (update_first (\<lambda>e. pe_id e = i) (touch_entry now rtt_us) b, r)"

definition touch_ok :: "instant \<Rightarrow> node_id \<Rightarrow> u32 \<Rightarrow> routing_table \<Rightarrow> routing_table" where
  "touch_ok now i rtt_us rt =
     (let n = bucket_index (rt_self rt) i
      in put_slot rt n (slot_touch now i rtt_us (slot_at rt n)))"

definition bump_fail :: "peer_entry \<Rightarrow> peer_entry" where
  "bump_fail e = e\<lparr>fail_count := sat_add (fail_count e) 1\<rparr>"

fun slot_fail :: "node_id \<Rightarrow> slot \<Rightarrow> slot" where
  "slot_fail i (b, r) =
     (case find (\<lambda>e. pe_id e = i) b of
        None \<Rightarrow> (b, r)
      | Some e \<Rightarrow>
          let s = (update_first (\<lambda>e. pe_id e = i) bump_fail b, r)
          in if fail_count (bump_fail e) \<ge> 3 then slot_evict i s else s)"

definition mark_fail :: "node_id \<Rightarrow> routing_table \<Rightarrow> routing_table" where
  "mark_fail i rt =
     (let n = bucket_index (rt_self rt) i in put_slot rt n (slot_fail i (slot_at rt n)))"

definition contact_rank :: "key \<Rightarrow> peer_info \<Rightarrow> bytes \<times> u32" where
  "contact_rank target p = (xor_distance (nid (pi_id p)) (kbytes target), rtt_ms p)"

definition closest :: "routing_table \<Rightarrow> key \<Rightarrow> nat \<Rightarrow> peer_info list" where
  "closest rt target n =
     foldl (\<lambda>out e. try_push K_MAX out (pe_info e)) []
       (take (min n K_MAX) (sort_key (\<lambda>e. contact_rank target (pe_info e)) (all_peers rt)))"

definition timeout_us :: "routing_table \<Rightarrow> node_id \<Rightarrow> u32" where
  "timeout_us rt i =
     (let srtt = (case rt_get rt i of Some e \<Rightarrow> srtt_us e | None \<Rightarrow> 200000)
      in min (max (sat_mul srtt 2) 50000) 600000)"

section \<open>Runs of a table\<close>

datatype rt_op =
    RtInsert instant peer_info
  | RtEvict node_id
  | RtTouch instant node_id u32
  | RtFail node_id

fun rt_step :: "routing_table \<Rightarrow> rt_op \<Rightarrow> routing_table" where
  "rt_step rt (RtInsert now info) = snd (rt_insert now info rt)"
| "rt_step rt (RtEvict dead) = evict_and_replace dead rt"
| "rt_step rt (RtTouch now i us) = touch_ok now i us rt"
| "rt_step rt (RtFail i) = mark_fail i rt"

definition rt_run :: "node_id \<Rightarrow> rt_op list \<Rightarrow> routing_table" where
  "rt_run self_id ops = foldl rt_step (rt_new self_id) ops"

section \<open>Slot invariants\<close>

lemmas rt_consts = K_DEFAULT_def K_MAX_def

lemma pe_id_simps [simp]:
  "pe_id (new_entry now info) = pi_id info"
  "pe_id (e\<lparr>pe_info := info, last_seen := t, fail_count := c\<rparr>) = pi_id info"
  "pe_id (touch_entry now us e) = pe_id e"
  "pe_id (bump_fail e) = pe_id e"
  by (simp_all add: pe_id_def new_entry_def touch_entry_def bump_fail_def Let_def)

text \<open>
  A predicate on slots, indexed by the node and the bucket, lifted to tables.
\<close>

definition rt_all :: "(node_id \<Rightarrow> nat \<Rightarrow> slot \<Rightarrow> bool) \<Rightarrow> routing_table \<Rightarrow> bool" where
  "rt_all P rt = (rt_k rt = K_DEFAULT \<and> length (buckets rt) = 256 \<and> length (replacement rt) = 256
     \<and> (\<forall>i < 256. P (rt_self rt) i (slot_at rt i)))"

lemma rt_all_put:
  "rt_all P rt \<Longrightarrow> P (rt_self rt) i s \<Longrightarrow> rt_all P (put_slot rt i s)"
  by (cases "i < 256") (auto simp: rt_all_def put_slot_def slot_at_def nth_list_update list_update_beyond)

lemma put_slot_self [simp]: "rt_self (put_slot rt i s) = rt_self rt"
  by (simp add: put_slot_def)

lemma rt_self_step [simp]: "rt_self (rt_step rt op) = rt_self rt"
  by (cases op) (auto simp: rt_insert_def evict_and_replace_def touch_ok_def mark_fail_def Let_def
      split: prod.splits)

text \<open>
  The interface between the slot operations and the table: an invariant of slots that the
  admitted operations keep is an invariant of every run of those operations.
\<close>

locale slot_inv =
  fixes P :: "node_id \<Rightarrow> nat \<Rightarrow> slot \<Rightarrow> bool"
    and admitted :: "rt_op \<Rightarrow> bool"
  assumes empty_slot: "P self_id i ([], [])"
    and insert_slot: "\<lbrakk>P self_id i s; admitted (RtInsert now info); pi_id info \<noteq> self_id;
        bucket_index self_id (pi_id info) = i;
        \<And>p. v4_prefix info = Some p \<Longrightarrow> same_prefix p (fst s) < 8\<rbrakk>
      \<Longrightarrow> P self_id i (snd (slot_insert now info K_DEFAULT s))"
    and evict_slot: "\<lbrakk>P self_id i s; admitted (RtEvict d)\<rbrakk> \<Longrightarrow> P self_id i (slot_evict d s)"
    and touch_slot: "\<lbrakk>P self_id i s; admitted (RtTouch now j us)\<rbrakk>
      \<Longrightarrow> P self_id i (slot_touch now j us s)"
    and fail_slot: "\<lbrakk>P self_id i s; admitted (RtFail j)\<rbrakk> \<Longrightarrow> P self_id i (slot_fail j s)"
begin

lemma bucket_slot: "rt_all P rt \<Longrightarrow> P (rt_self rt) (bucket_index a b) (slot_at rt (bucket_index a b))"
  by (simp add: rt_all_def bucket_index_less)

lemma step_all:
  assumes all: "rt_all P rt" and ok: "admitted op"
  shows "rt_all P (rt_step rt op)"
proof (cases op)
  case (RtInsert now info)
  let ?i = "bucket_index (rt_self rt) (pi_id info)"
  have "P (rt_self rt) ?i (snd (slot_insert now info K_DEFAULT (slot_at rt ?i)))"
    if "pi_id info \<noteq> rt_self rt" "prefix_ok rt info"
  proof (rule insert_slot)
    show "P (rt_self rt) ?i (slot_at rt ?i)"
      using all by (rule bucket_slot)
    show "same_prefix p (fst (slot_at rt ?i)) < 8" if "v4_prefix info = Some p" for p
      using that \<open>prefix_ok rt info\<close> by (simp add: prefix_ok_def slot_at_def)
  qed (use that ok RtInsert in simp_all)
  moreover have "rt_k rt = K_DEFAULT"
    using all by (simp add: rt_all_def)
  ultimately show ?thesis
    using all RtInsert by (auto simp: rt_insert_def Let_def split_beta intro: rt_all_put)
next
  case (RtEvict d)
  then show ?thesis
    using all ok by (simp add: evict_and_replace_def Let_def rt_all_put evict_slot bucket_slot)
next
  case (RtTouch now j us)
  then show ?thesis
    using all ok by (simp add: touch_ok_def Let_def rt_all_put touch_slot bucket_slot)
next
  case (RtFail j)
  then show ?thesis
    using all ok by (simp add: mark_fail_def Let_def rt_all_put fail_slot bucket_slot)
qed

lemma new_all: "rt_all P (rt_new s)"
  using empty_slot by (simp add: rt_all_def rt_new_def slot_at_def)

end

sublocale slot_inv \<subseteq> machine: inv_machine rt_step "rt_all P" admitted
  by unfold_locales (rule step_all)

context slot_inv
begin

lemma run_all: "list_all admitted ops \<Longrightarrow> rt_all P (rt_run s ops)"
  unfolding rt_run_def by (rule machine.run_inv [OF new_all])

end

subsection \<open>Well-formedness\<close>

text \<open>
  Both lists stay within the capacity of their \<^verbatim>\<open>ArrayVec\<close>s, and every entry belongs to this
  bucket and is not the node itself.
\<close>

definition entry_wf :: "node_id \<Rightarrow> nat \<Rightarrow> peer_entry \<Rightarrow> bool" where
  "entry_wf self_id i e = (pe_id e \<noteq> self_id \<and> bucket_index self_id (pe_id e) = i)"

definition slot_wf :: "node_id \<Rightarrow> nat \<Rightarrow> slot \<Rightarrow> bool" where
  "slot_wf self_id i s = (length (fst s) \<le> K_MAX \<and> length (snd s) \<le> 8
     \<and> (\<forall>e \<in> set (fst s) \<union> set (snd s). entry_wf self_id i e))"

definition rt_wf :: "routing_table \<Rightarrow> bool" where
  "rt_wf = rt_all slot_wf"

lemma entry_wf_simps [simp]:
  "entry_wf s i (touch_entry now us e) = entry_wf s i e"
  "entry_wf s i (bump_fail e) = entry_wf s i e"
  by (simp_all add: entry_wf_def)

lemma slot_evict_wf:
  assumes "slot_wf self_id i s"
  shows "slot_wf self_id i (slot_evict d s)"
proof (cases s)
  case (Pair b r)
  have "length (filter (\<lambda>e. pe_id e \<noteq> d) b) \<le> K_MAX"
    using assms Pair le_trans [OF length_filter_le] by (auto simp: slot_wf_def)
  moreover have "set (butlast r) \<subseteq> set r"
    by (auto dest: in_set_butlastD)
  moreover have "last r \<in> set r" if "r \<noteq> []"
    using that by simp
  ultimately show ?thesis
    using assms Pair set_try_push [of K_MAX "filter (\<lambda>e. pe_id e \<noteq> d) b" "last r"]
    by (auto simp: slot_wf_def Let_def length_try_push_le)
qed

lemma slot_insert_wf:
  assumes wf: "slot_wf self_id i s" and info: "pi_id info \<noteq> self_id" "bucket_index self_id (pi_id info) = i"
  shows "slot_wf self_id i (snd (slot_insert now info K_DEFAULT s))"
proof (cases s)
  case (Pair b r)
  have new: "entry_wf self_id i e" if "pe_id e = pi_id info" for e
    using that info by (simp add: entry_wf_def)
  show ?thesis
  proof (cases "position (\<lambda>e. pe_id e = pi_id info) b")
    case None
    with wf Pair show ?thesis
      by (auto simp: slot_wf_def intro: new)
  next
    case (Some pos)
    then have "length (remove_at pos b) < K_MAX"
      using wf Pair by (auto simp: slot_wf_def position_Some_iff length_remove_at)
    with Some wf Pair show ?thesis
      by (auto simp: slot_wf_def intro: new dest: in_set_remove_at)
  qed
qed

lemma slot_update_wf:
  assumes "slot_wf self_id i (b, r)" and "\<And>e. pe_id (f e) = pe_id e"
  shows "slot_wf self_id i (update_first Q f b, r)"
  using assms set_update_first [of Q f b] by (fastforce simp: slot_wf_def entry_wf_def)

lemma slot_fail_wf: "slot_wf self_id i s \<Longrightarrow> slot_wf self_id i (slot_fail j s)"
  by (cases s) (auto simp: Let_def simp del: slot_evict.simps split: option.splits
      intro!: slot_evict_wf slot_update_wf)

interpretation wf: slot_inv slot_wf "\<lambda>_. True"
proof
  show "slot_wf self_id i ([], [])" for self_id i
    by (simp add: slot_wf_def)
  show "slot_wf self_id i (slot_touch now j us s)" if "slot_wf self_id i s" for self_id i now j us s
    using that by (cases s) (auto intro: slot_update_wf)
qed (simp_all add: slot_insert_wf slot_evict_wf slot_fail_wf)

subsection \<open>At most k contacts\<close>

definition slot_tight :: "node_id \<Rightarrow> nat \<Rightarrow> slot \<Rightarrow> bool" where
  "slot_tight self_id i s = (length (fst s) \<le> K_DEFAULT)"

fun not_evict :: "rt_op \<Rightarrow> bool" where
  "not_evict (RtEvict _) = False"
| "not_evict _ = True"

lemma slot_fail_length: "length (fst (slot_fail j s)) \<le> length (fst s)"
proof (cases s)
  case (Pair b r)
  show ?thesis
  proof (cases "find (\<lambda>e. pe_id e = j) b")
    case None
    then show ?thesis by (simp add: Pair)
  next
    case (Some e)
    let ?b = "update_first (\<lambda>e. pe_id e = j) bump_fail b"
    have "j \<in> set (map pe_id b)"
      using find_SomeD [OF Some] by force
    moreover have ids: "map pe_id ?b = map pe_id b"
      by (rule map_update_first) simp
    ultimately have "length (filter (\<lambda>i. i \<noteq> j) (map pe_id ?b)) < length (map pe_id b)"
      by (simp only: ids) (rule length_filter_less, simp_all)
    then have "length (filter (\<lambda>e. pe_id e \<noteq> j) ?b) < length b"
      by (simp add: filter_map o_def)
    then show ?thesis
      by (auto simp: Pair Some Let_def try_push_def)
  qed
qed

lemma slot_insert_tight:
  assumes "slot_tight self_id i s"
  shows "slot_tight self_id i (snd (slot_insert now info K_DEFAULT s))"
proof (cases s)
  case (Pair b r)
  show ?thesis
  proof (cases "position (\<lambda>e. pe_id e = pi_id info) b")
    case None
    with assms Pair show ?thesis by (simp add: slot_tight_def)
  next
    case (Some pos)
    then have "Suc (length (remove_at pos b)) = length b"
      by (auto simp: position_Some_iff length_remove_at)
    with Some assms Pair show ?thesis by (simp add: slot_tight_def)
  qed
qed

interpretation tight: slot_inv slot_tight not_evict
proof
  show "slot_tight self_id i ([], [])" for self_id i
    by (simp add: slot_tight_def)
  show "slot_tight self_id i (slot_touch now j us s)"
    if "slot_tight self_id i s" for self_id i now j us s
    using that by (cases s) (simp add: slot_tight_def)
  show "slot_tight self_id i (slot_fail j s)" if "slot_tight self_id i s" for self_id i j s
    using that slot_fail_length [of j s] by (simp add: slot_tight_def)
qed (simp_all add: slot_insert_tight)

subsection \<open>Distinct and diverse contacts\<close>

text \<open>Identifiers in a bucket are distinct, with at most eight contacts of one IPv4 /24.\<close>

definition slot_diverse :: "node_id \<Rightarrow> nat \<Rightarrow> slot \<Rightarrow> bool" where
  "slot_diverse self_id i s = (distinct (map pe_id (fst s)) \<and> (\<forall>p. same_prefix p (fst s) \<le> 8))"

fun no_eviction :: "rt_op \<Rightarrow> bool" where
  "no_eviction (RtEvict _) = False"
| "no_eviction (RtFail _) = False"
| "no_eviction _ = True"

lemma same_prefix_append [simp]:
  "same_prefix p (xs @ ys) = same_prefix p xs + same_prefix p ys"
  by (simp add: same_prefix_def)

lemma same_prefix_single:
  "same_prefix p [e] = (if v4_prefix (pe_info e) = Some p then 1 else 0)"
  by (simp add: same_prefix_def)

lemma same_prefix_remove_at: "same_prefix p (remove_at i b) \<le> same_prefix p b"
proof -
  have "same_prefix p b = same_prefix p (take i b) + same_prefix p (drop i b)"
    by (metis append_take_drop_id same_prefix_append)
  moreover have "same_prefix p (drop (Suc i) b) \<le> same_prefix p (drop i b)"
    by (cases "drop i b")
      (auto simp: same_prefix_def drop_Suc simp flip: drop_drop tl_drop)
  ultimately show ?thesis
    by (simp add: remove_at_def)
qed

lemma distinct_remove_at:
  assumes "distinct (map f b)" and "i < length b"
  shows "distinct (map f (remove_at i b))" and "f (b ! i) \<notin> set (map f (remove_at i b))"
proof -
  have "mset (map f b) = add_mset (f (b ! i)) (mset (map f (remove_at i b)))"
    using mset_remove_at [OF assms(2)] by simp
  then have "distinct (f (b ! i) # map f (remove_at i b))"
    using assms(1) by (metis mset.simps(2) mset_eq_imp_distinct_iff)
  then show "distinct (map f (remove_at i b))" and "f (b ! i) \<notin> set (map f (remove_at i b))"
    by simp_all
qed

lemma slot_insert_diverse:
  assumes div: "slot_diverse self_id i s"
    and pre: "\<And>p. v4_prefix info = Some p \<Longrightarrow> same_prefix p (fst s) < 8"
  shows "slot_diverse self_id i (snd (slot_insert now info K_DEFAULT s))"
proof (cases s)
  case (Pair b r)
  have lim: "same_prefix p b' + same_prefix p [e] \<le> 8"
    if "same_prefix p b' \<le> same_prefix p b" "pe_info e = info" for p b' e
  proof (cases "v4_prefix info = Some p")
    case True
    with pre [of p] that Pair show ?thesis by (simp add: same_prefix_single)
  next
    case False
    have "same_prefix p b \<le> 8"
      using div unfolding Pair slot_diverse_def fst_conv by blast
    with False that show ?thesis
      by (simp add: same_prefix_single)
  qed
  show ?thesis
  proof (cases "position (\<lambda>e. pe_id e = pi_id info) b")
    case None
    have "pi_id info \<notin> pe_id ` set b"
      using None by (auto simp: position_None_iff)
    moreover have "same_prefix p b + same_prefix p [new_entry now info] \<le> 8" for p
      by (rule lim) (simp_all add: new_entry_def)
    ultimately show ?thesis
      using None div Pair by (simp add: slot_diverse_def)
  next
    case (Some pos)
    then have pos: "pos < length b" "pe_id (b ! pos) = pi_id info"
      by (auto simp: position_Some_iff)
    have "distinct (map pe_id b)"
      using div Pair by (simp add: slot_diverse_def)
    from distinct_remove_at [OF this pos(1)] pos(2) Some Pair lim [OF same_prefix_remove_at]
    show ?thesis
      by (simp add: slot_diverse_def)
  qed
qed

lemma v4_prefix_touch [simp]: "v4_prefix (pe_info (touch_entry now us e)) = v4_prefix (pe_info e)"
  by (simp add: v4_prefix_def primary_addr_def touch_entry_def Let_def)

lemma same_prefix_touch [simp]:
  "same_prefix p (update_first Q (touch_entry now us) b) = same_prefix p b"
  by (induction b) (auto simp: same_prefix_def)

interpretation diverse: slot_inv slot_diverse no_eviction
proof
  show "slot_diverse self_id i ([], [])" for self_id i
    by (simp add: slot_diverse_def same_prefix_def)
  show "slot_diverse self_id i (slot_touch now j us s)"
    if "slot_diverse self_id i s" for self_id i now j us s
    using that by (cases s) (simp add: slot_diverse_def map_update_first)
qed (simp_all add: slot_insert_diverse)

subsection \<open>Smoothed round-trip times\<close>

text \<open>
  With samples below \<open>2 ^ 29\<close> microseconds the product in \<^verbatim>\<open>ewma\<close> does not overflow 32 bits, and
  the smoothed value stays below the same bound.
\<close>

definition RTT_BOUND :: nat where "RTT_BOUND = 2 ^ 29"

definition slot_srtt :: "node_id \<Rightarrow> nat \<Rightarrow> slot \<Rightarrow> bool" where
  "slot_srtt self_id i s = (\<forall>e \<in> set (fst s) \<union> set (snd s). unat (srtt_us e) < RTT_BOUND)"

fun small_sample :: "rt_op \<Rightarrow> bool" where
  "small_sample (RtTouch _ _ us) = (unat us < RTT_BOUND)"
| "small_sample _ = True"

lemma unat_ewma:
  assumes "unat old < RTT_BOUND" and "unat sample < RTT_BOUND"
  shows "unat (ewma old sample) = (unat old * 7 + unat sample) div 8"
proof -
  have "unat old * 7 < 2 ^ 32" and s: "unat old * 7 + unat sample < 2 ^ 32"
    using assms by (simp_all add: RTT_BOUND_def)
  then have "unat (old * 7) = unat old * 7"
    by (simp add: unat_word_ariths)
  with s have "unat (old * 7 + sample) = unat old * 7 + unat sample"
    by (simp add: unat_word_ariths)
  then show ?thesis
    by (simp add: ewma_def unat_div)
qed

lemma ewma_bound:
  "unat old < RTT_BOUND \<Longrightarrow> unat sample < RTT_BOUND \<Longrightarrow> unat (ewma old sample) < RTT_BOUND"
  by (simp add: unat_ewma)

lemma srtt_simps [simp]:
  "srtt_us (new_entry now info) = 200000"
  "srtt_us (bump_fail e) = srtt_us e"
  "srtt_us (touch_entry now us e) = ewma (srtt_us e) us"
  by (simp_all add: new_entry_def bump_fail_def touch_entry_def Let_def)

lemma slot_evict_srtt:
  assumes "slot_srtt self_id i s"
  shows "slot_srtt self_id i (slot_evict d s)"
proof (cases s)
  case (Pair b r)
  have "set (butlast r) \<subseteq> set r"
    by (auto dest: in_set_butlastD)
  moreover have "last r \<in> set r" if "r \<noteq> []"
    using that by simp
  ultimately show ?thesis
    using assms Pair set_try_push [of K_MAX "filter (\<lambda>e. pe_id e \<noteq> d) b" "last r"]
    by (fastforce simp: slot_srtt_def Let_def)
qed

lemma slot_insert_srtt:
  assumes "slot_srtt self_id i s"
  shows "slot_srtt self_id i (snd (slot_insert now info K_DEFAULT s))"
proof (cases s)
  case (Pair b r)
  show ?thesis
  proof (cases "position (\<lambda>e. pe_id e = pi_id info) b")
    case None
    with assms Pair show ?thesis by (auto simp: slot_srtt_def RTT_BOUND_def)
  next
    case (Some pos)
    then have "b ! pos \<in> set b"
      by (simp add: position_Some_iff)
    with Some assms Pair show ?thesis
      by (auto simp: slot_srtt_def dest: in_set_remove_at)
  qed
qed

lemma slot_update_srtt:
  assumes "slot_srtt self_id i (b, r)"
    and "\<And>e. unat (srtt_us e) < RTT_BOUND \<Longrightarrow> unat (srtt_us (f e)) < RTT_BOUND"
  shows "slot_srtt self_id i (update_first Q f b, r)"
  using assms set_update_first [of Q f b] by (fastforce simp: slot_srtt_def)

lemma slot_fail_srtt: "slot_srtt self_id i s \<Longrightarrow> slot_srtt self_id i (slot_fail j s)"
  by (cases s) (auto simp: Let_def simp del: slot_evict.simps split: option.splits
      intro!: slot_evict_srtt slot_update_srtt)

interpretation srtt: slot_inv slot_srtt small_sample
proof
  show "slot_srtt self_id i ([], [])" for self_id i
    by (simp add: slot_srtt_def)
  show "slot_srtt self_id i (slot_touch now j us s)"
    if "slot_srtt self_id i s" "small_sample (RtTouch now j us)" for self_id i now j us s
    using that by (cases s) (auto intro!: slot_update_srtt simp: ewma_bound)
qed (simp_all add: slot_insert_srtt slot_evict_srtt slot_fail_srtt)

section \<open>Reading the table back\<close>

lemma find_append: "find P (xs @ ys) = (case find P xs of None \<Rightarrow> find P ys | Some x \<Rightarrow> Some x)"
  by (induction xs) auto

lemma find_None_id: "find (\<lambda>e. pe_id e = j) b = None \<longleftrightarrow> j \<notin> pe_id ` set b"
  by (auto simp: find_None_iff)

lemma find_remove_at_other:
  assumes "pos < length b" and "pe_id (b ! pos) \<noteq> j"
  shows "find (\<lambda>e. pe_id e = j) (remove_at pos b) = find (\<lambda>e. pe_id e = j) b"
proof -
  have "find (\<lambda>e. pe_id e = j) b
      = find (\<lambda>e. pe_id e = j) (take pos b @ b ! pos # drop (Suc pos) b)"
    using assms(1) by (simp add: id_take_nth_drop [symmetric])
  with assms(2) show ?thesis
    by (simp add: remove_at_def find_append split: option.splits)
qed

lemma rt_get_slot:
  "rt_get rt j = find (\<lambda>e. pe_id e = j) (fst (slot_at rt (bucket_index (rt_self rt) j)))"
  by (simp add: rt_get_def slot_at_def)

lemma rt_get_put_slot:
  assumes "length (buckets rt) = 256"
  shows "rt_get (put_slot rt (bucket_index (rt_self rt) a) s) j =
    (if bucket_index (rt_self rt) j = bucket_index (rt_self rt) a
     then find (\<lambda>e. pe_id e = j) (fst s) else rt_get rt j)"
  using assms by (simp add: rt_get_def put_slot_def nth_list_update bucket_index_less)

lemma slot_insert_find_other:
  assumes "j \<noteq> pi_id info"
  shows "find (\<lambda>e. pe_id e = j) (fst (snd (slot_insert now info k s))) = find (\<lambda>e. pe_id e = j) (fst s)"
proof (cases s)
  case (Pair b r)
  show ?thesis
  proof (cases "position (\<lambda>e. pe_id e = pi_id info) b")
    case None
    with Pair assms show ?thesis
      by (auto simp: find_append split: option.splits)
  next
    case (Some pos)
    then have "pos < length b" "pe_id (b ! pos) \<noteq> j"
      using assms by (auto simp: position_Some_iff)
    with Some Pair assms show ?thesis
      by (auto simp: find_append find_remove_at_other split: option.splits)
  qed
qed

lemma slot_insert_find:
  assumes "distinct (map pe_id (fst s))" and "pi_id info \<in> pe_id ` set (fst s) \<or> length (fst s) < min k K_MAX"
  shows "fst (slot_insert now info k s) = None
    \<and> (\<exists>e. find (\<lambda>e. pe_id e = pi_id info) (fst (snd (slot_insert now info k s))) = Some e
         \<and> pe_info e = info \<and> last_seen e = now \<and> fail_count e = 0)"
proof (cases s)
  case (Pair b r)
  show ?thesis
  proof (cases "position (\<lambda>e. pe_id e = pi_id info) b")
    case None
    then have fresh: "pi_id info \<notin> pe_id ` set b"
      by (auto simp: position_None_iff)
    then have "find (\<lambda>e. pe_id e = pi_id info) b = None"
      by (simp add: find_None_id)
    with None Pair assms(2) fresh show ?thesis
      by (auto simp: find_append new_entry_def pe_id_def)
  next
    case (Some pos)
    then have pos: "pos < length b" "pe_id (b ! pos) = pi_id info"
      by (auto simp: position_Some_iff)
    have "distinct (map pe_id b)"
      using assms(1) Pair by simp
    from distinct_remove_at(2) [OF this pos(1)]
    have "find (\<lambda>e. pe_id e = pi_id info) (remove_at pos b) = None"
      using pos(2) by (auto simp: find_None_id)
    with Some Pair show ?thesis
      by (simp add: find_append)
  qed
qed

lemma slot_insert_full:
  assumes "pi_id info \<notin> pe_id ` set (fst s)" and "\<not> length (fst s) < min k K_MAX"
  shows "fst (slot_insert now info k s) = Some (fst s ! 0)
    \<and> fst (snd (slot_insert now info k s)) = fst s"
proof (cases s)
  case (Pair b r)
  have "position (\<lambda>e. pe_id e = pi_id info) b = None"
    using assms(1) Pair by (force simp: position_None_iff)
  with assms(2) Pair show ?thesis by auto
qed

lemma slot_fail_find:
  assumes "find (\<lambda>e. pe_id e = i) (fst s) = Some e" and "unat (fail_count e) < 2"
  shows "\<exists>e'. find (\<lambda>e. pe_id e = i) (fst (slot_fail i s)) = Some e'
    \<and> fail_count e' = fail_count e + 1 \<and> snd (slot_fail i s) = snd s"
proof (cases s)
  case (Pair b r)
  have *: "find (\<lambda>e. pe_id e = i) (update_first (\<lambda>e. pe_id e = i) bump_fail b) = Some (bump_fail e)"
    if "find (\<lambda>e. pe_id e = i) b = Some e" for b
    using that by (induction b) (auto split: if_splits)
  have c: "fail_count (bump_fail e) = fail_count e + 1"
    using assms(2) by (simp add: bump_fail_def sat_add_def)
  moreover have "unat (fail_count e + 1) < 3"
    using assms(2) by (simp add: unat_word_ariths)
  then have "\<not> 3 \<le> fail_count e + 1"
    by (simp add: word_le_nat_alt)
  ultimately show ?thesis
    using assms(1) * [of b] by (simp add: Pair Let_def)
qed

lemma slot_fail_evicts:
  assumes "find (\<lambda>e. pe_id e = i) (fst s) = Some e" and "fail_count e = 2"
    and "i \<notin> pe_id ` set (snd s)"
  shows "find (\<lambda>e. pe_id e = i) (fst (slot_fail i s)) = None"
proof (cases s)
  case (Pair b r)
  have "last r \<in> set r" if "r \<noteq> []"
    using that by simp
  with assms(3) Pair have "pe_id (last r) \<noteq> i" if "r \<noteq> []"
    using that by force
  moreover have "3 \<le> fail_count (bump_fail e)"
    using assms(2) by (simp add: bump_fail_def sat_add_def)
  ultimately show ?thesis
    using assms(1) by (auto simp: Pair Let_def try_push_def find_None_iff)
qed

lemma rt_get_mark_fail:
  assumes "length (buckets rt) = 256"
  shows "rt_get (mark_fail i rt) i
    = find (\<lambda>e. pe_id e = i) (fst (slot_fail i (slot_at rt (bucket_index (rt_self rt) i))))"
  using assms by (simp add: mark_fail_def Let_def rt_get_put_slot)

lemma slot_at_put_slot:
  assumes "length (buckets rt) = 256" and "length (replacement rt) = 256" and "i < 256"
  shows "slot_at (put_slot rt i s) i = s"
  using assms by (simp add: slot_at_def put_slot_def)

lemma mark_fail_lengths [simp]:
  "length (buckets (mark_fail i rt)) = length (buckets rt)"
  "length (replacement (mark_fail i rt)) = length (replacement rt)"
  "rt_self (mark_fail i rt) = rt_self rt"
  by (simp_all add: mark_fail_def Let_def put_slot_def)

section \<open>The closest contacts\<close>

lemma foldl_try_push:
  "length acc + length xs \<le> cap \<Longrightarrow>
     foldl (\<lambda>out e. try_push cap out (f e)) acc xs = acc @ map f xs"
  by (induction xs arbitrary: acc) (auto simp: try_push_def)

lemma closest_eq:
  "closest rt target n = map pe_info
     (take (min n K_MAX) (sort_key (\<lambda>e. contact_rank target (pe_info e)) (all_peers rt)))"
  by (simp add: closest_def foldl_try_push)

lemma length_all_peers: "length (all_peers rt) = rt_len rt"
  by (simp add: all_peers_def rt_len_def length_concat)

text \<open>The first contact of an empty table.\<close>

lemma rt_insert_first:
  assumes "pi_id p \<noteq> s"
  shows "rt_insert now p (rt_new s)
    = (None, put_slot (rt_new s) (bucket_index s (pi_id p)) ([new_entry now p], []))"
  using assms by (simp add: rt_insert_def rt_new_def prefix_ok_def same_prefix_def slot_at_def
      bucket_index_less rt_consts split: option.splits)

lemma rt_get_first:
  assumes "pi_id p \<noteq> s"
  shows "rt_get (snd (rt_insert now p (rt_new s))) (pi_id p) = Some (new_entry now p)"
    and "rt_wf (snd (rt_insert now p (rt_new s)))"
proof -
  show "rt_get (snd (rt_insert now p (rt_new s))) (pi_id p) = Some (new_entry now p)"
    using rt_insert_first [OF assms]
    by (simp add: rt_get_slot slot_at_put_slot rt_new_def bucket_index_less)
  show "rt_wf (snd (rt_insert now p (rt_new s)))"
    using wf.run_all [of "[RtInsert now p]" s] by (simp add: rt_wf_def rt_run_def)
qed

section \<open>Properties\<close>

text \<open>
  C28. Whatever sequence of insertions, touches, failures and evictions a table goes through,
  it keeps its 256 buckets and caches, no \<^verbatim>\<open>ArrayVec\<close> overflows its capacity, and every
  contact is stored in the bucket of its own distance and is never the node itself.
\<close>

theorem routing_table_wf: "rt_wf (rt_run s ops)"
  unfolding rt_wf_def by (rule wf.run_all) (simp add: list_all_iff)

text \<open>
  As long as nothing calls \<^verbatim>\<open>evict_and_replace\<close> directly (the shard only reaches it through
  \<^verbatim>\<open>mark_fail\<close>), no bucket ever holds more than \<open>k = 20\<close> contacts.
\<close>

theorem routing_bucket_bound:
  assumes "list_all not_evict ops" and "i < 256"
  shows "length (buckets (rt_run s ops) ! i) \<le> K_DEFAULT"
  using tight.run_all [OF assms(1), of s] assms(2) by (simp add: rt_all_def slot_tight_def slot_at_def)

theorem routing_bucket_bound_witness:
  "length (buckets (rt_run (NodeId (replicate 32 0))
     [RtInsert 5 (peer_info_new (NodeId (replicate 32 1)) (AddrV4 10 0 0 1 4000)),
      RtFail (NodeId (replicate 32 1))]) ! 248) \<le> K_DEFAULT"
  by (rule routing_bucket_bound) simp_all

text \<open>
  While no contact is evicted, the identifiers in a bucket are pairwise different and at
  most eight contacts of a bucket share an IPv4 /24 prefix.
\<close>

theorem routing_bucket_diversity:
  assumes "list_all no_eviction ops" and "i < 256"
  shows "distinct (map pe_id (buckets (rt_run s ops) ! i))
    \<and> (\<forall>p. same_prefix p (buckets (rt_run s ops) ! i) \<le> 8)"
  using diverse.run_all [OF assms(1), of s] assms(2)
  by (simp add: rt_all_def slot_diverse_def slot_at_def)

theorem routing_bucket_diversity_witness:
  "distinct (map pe_id (buckets (rt_run (NodeId (replicate 32 0))
     [RtInsert 5 (peer_info_new (NodeId (replicate 32 1)) (AddrV4 10 0 0 1 4000)),
      RtInsert 6 (peer_info_new (NodeId (replicate 32 1)) (AddrV4 10 0 0 2 4000))]) ! 248))"
  using routing_bucket_diversity [of "[RtInsert 5 (peer_info_new (NodeId (replicate 32 1)) (AddrV4 10 0 0 1 4000)),
      RtInsert 6 (peer_info_new (NodeId (replicate 32 1)) (AddrV4 10 0 0 2 4000))]" 248]
  by simp

text \<open>
  C29. \<^verbatim>\<open>closest\<close> returns the nearest contacts: as many as asked for (at most 32, at most all),
  ordered by distance and then round-trip time, all taken from the table, and none of the
  contacts left out ranks before one that is returned.
\<close>

theorem closest_nearest:
  "length (closest rt target n) = min (min n K_MAX) (rt_len rt)
   \<and> (\<exists>rest. mset (closest rt target n @ rest) = mset (map pe_info (all_peers rt))
        \<and> sorted (map (contact_rank target) (closest rt target n @ rest)))"
proof -
  let ?s = "sort_key (\<lambda>e. contact_rank target (pe_info e)) (all_peers rt)"
  have split: "closest rt target n @ map pe_info (drop (min n K_MAX) ?s) = map pe_info ?s"
    by (simp add: closest_eq flip: map_append)
  have "mset (map pe_info ?s) = mset (map pe_info (all_peers rt))"
    by simp
  moreover have "sorted (map (contact_rank target) (map pe_info ?s))"
    using sorted_sort_key [of "\<lambda>e. contact_rank target (pe_info e)"] by (simp add: o_def)
  moreover have "length (closest rt target n) = min (min n K_MAX) (rt_len rt)"
    by (simp add: closest_eq length_all_peers)
  ultimately show ?thesis
    unfolding split [symmetric] by blast
qed

text \<open>
  Inserting a contact (not the node itself, and within the /24 limit) into a bucket whose
  identifiers are distinct: if the contact is known or the bucket has room, nothing is returned
  and the table then holds exactly this description, seen now and without failures; if the
  bucket is full, the least recently seen contact is returned and the buckets are unchanged. In
  both cases every other contact reads back as before.
\<close>

theorem rt_insert_spec:
  assumes "rt_wf rt" and "pi_id info \<noteq> rt_self rt" and "prefix_ok rt info"
    and "b = buckets rt ! bucket_index (rt_self rt) (pi_id info)" and "distinct (map pe_id b)"
    and "rt_insert now info rt = (res, rt')"
  shows "(if pi_id info \<in> pe_id ` set b \<or> length b < K_DEFAULT
          then res = None \<and> (\<exists>e. rt_get rt' (pi_id info) = Some e \<and> pe_info e = info
                 \<and> last_seen e = now \<and> fail_count e = 0)
          else res = Some (b ! 0) \<and> buckets rt' = buckets rt)
    \<and> (\<forall>j. j \<noteq> pi_id info \<longrightarrow> rt_get rt' j = rt_get rt j)"
proof -
  let ?i = "bucket_index (rt_self rt) (pi_id info)"
  let ?s = "slot_insert now info K_DEFAULT (slot_at rt ?i)"
  have k: "rt_k rt = K_DEFAULT" and len: "length (buckets rt) = 256"
    using assms(1) by (simp_all add: rt_wf_def rt_all_def)
  have b: "b = fst (slot_at rt ?i)"
    by (simp add: assms(4) slot_at_def)
  have r: "res = fst ?s" "rt' = put_slot rt ?i (snd ?s)"
    using assms(2,3,6) k by (auto simp: rt_insert_def Let_def split_beta)
  have get: "rt_get rt' j = (if bucket_index (rt_self rt) j = ?i
      then find (\<lambda>e. pe_id e = j) (fst (snd ?s)) else rt_get rt j)" for j
    unfolding r(2) by (rule rt_get_put_slot [OF len])
  have other: "rt_get rt' j = rt_get rt j" if "j \<noteq> pi_id info" for j
    unfolding get rt_get_slot [of rt] using that by (simp add: slot_insert_find_other)
  show ?thesis
  proof (cases "pi_id info \<in> pe_id ` set b \<or> length b < K_DEFAULT")
    case True
    then have "pi_id info \<in> pe_id ` set (fst (slot_at rt ?i)) \<or> length (fst (slot_at rt ?i)) < min K_DEFAULT K_MAX"
      by (simp add: b rt_consts)
    from slot_insert_find [OF _ this] assms(5) True other r(1) show ?thesis
      by (auto simp: b get)
  next
    case False
    then have f: "pi_id info \<notin> pe_id ` set (fst (slot_at rt ?i))"
        "\<not> length (fst (slot_at rt ?i)) < min K_DEFAULT K_MAX"
      by (simp_all add: b)
    have "fst (snd ?s) = buckets rt ! ?i"
      using slot_insert_full [OF f, of now] by (simp add: slot_at_def)
    then have "buckets rt' = buckets rt"
      by (simp add: r(2) put_slot_def)
    with slot_insert_full [OF f, of now] False other r(1) show ?thesis
      by (simp add: b)
  qed
qed

theorem rt_insert_spec_witness:
  "\<exists>e. rt_get (snd (rt_insert 7 (peer_info_new (NodeId (replicate 32 1)) (AddrV4 10 0 0 1 4000))
       (rt_new (NodeId (replicate 32 0))))) (NodeId (replicate 32 1)) = Some e \<and> last_seen e = 7"
proof -
  let ?rt = "rt_new (NodeId (replicate 32 0))"
  let ?p = "peer_info_new (NodeId (replicate 32 1)) (AddrV4 10 0 0 1 4000)"
  have wf: "rt_wf ?rt"
    using wf.new_all by (simp add: rt_wf_def)
  have b: "buckets ?rt ! bucket_index (rt_self ?rt) (pi_id ?p) = []"
    by (simp add: rt_new_def bucket_index_less)
  have ok: "prefix_ok ?rt ?p"
    by (simp add: prefix_ok_def b same_prefix_def split: option.splits)
  have ne: "pi_id ?p \<noteq> rt_self ?rt" "pi_id ?p = NodeId (replicate 32 1)"
    by (simp_all add: peer_info_new_def rt_new_def)
  from rt_insert_spec [OF wf ne(1) ok b [symmetric], of 7 "fst (rt_insert 7 ?p ?rt)" "snd (rt_insert 7 ?p ?rt)"]
  show ?thesis
    by (auto simp: ne(2) rt_consts)
qed

text \<open>
  A contact without failures that is marked as failed three times in a row, with no answer in
  between and no second copy waiting in the replacement cache, is no longer in the table.
\<close>

theorem mark_fail_three_times:
  assumes "rt_wf rt" and "rt_get rt i = Some e" and "fail_count e = 0"
    and "i \<notin> pe_id ` set (replacement rt ! bucket_index (rt_self rt) i)"
  shows "rt_get (mark_fail i (mark_fail i (mark_fail i rt))) i = None"
proof -
  let ?n = "bucket_index (rt_self rt) i"
  have len: "length (buckets rt) = 256" "length (replacement rt) = 256"
    using assms(1) by (simp_all add: rt_wf_def rt_all_def)
  have slot: "slot_at (mark_fail i r) ?n = slot_fail i (slot_at r ?n)"
    if "length (buckets r) = 256" "length (replacement r) = 256" "rt_self r = rt_self rt" for r
    using that by (simp add: mark_fail_def Let_def slot_at_put_slot bucket_index_less)
  define s where "s = slot_at rt ?n"
  have "find (\<lambda>e. pe_id e = i) (fst s) = Some e"
    using assms(2) by (simp add: s_def rt_get_def slot_at_def)
  then obtain e1 where e1: "find (\<lambda>e. pe_id e = i) (fst (slot_fail i s)) = Some e1"
      "fail_count e1 = 1" "snd (slot_fail i s) = snd s"
    using slot_fail_find [of i s e] assms(3) by auto
  then obtain e2 where e2: "find (\<lambda>e. pe_id e = i) (fst (slot_fail i (slot_fail i s))) = Some e2"
      "fail_count e2 = 2" "snd (slot_fail i (slot_fail i s)) = snd s"
    using slot_fail_find [of i "slot_fail i s" e1] by auto
  have "i \<notin> pe_id ` set (snd (slot_fail i (slot_fail i s)))"
    unfolding e2(3) using assms(4) by (simp add: s_def slot_at_def)
  from slot_fail_evicts [OF e2(1,2) this] show ?thesis
    by (simp add: rt_get_mark_fail len slot s_def)
qed

theorem mark_fail_three_times_witness:
  "let rt = snd (rt_insert 7 (peer_info_new (NodeId (replicate 32 1)) (AddrV4 10 0 0 1 4000))
              (rt_new (NodeId (replicate 32 0))));
       f = mark_fail (NodeId (replicate 32 1))
   in rt_get rt (NodeId (replicate 32 1)) \<noteq> None \<and> rt_get (f (f (f rt))) (NodeId (replicate 32 1)) = None"
proof -
  let ?s = "NodeId (replicate 32 0)" and ?p = "peer_info_new (NodeId (replicate 32 1)) (AddrV4 10 0 0 1 4000)"
  have p: "pi_id ?p = NodeId (replicate 32 1)" "pi_id ?p \<noteq> ?s"
    by (simp_all add: peer_info_new_def)
  have "replacement (snd (rt_insert 7 ?p (rt_new ?s))) ! bucket_index ?s (pi_id ?p) = []"
    "rt_self (snd (rt_insert 7 ?p (rt_new ?s))) = ?s"
    unfolding rt_insert_first [OF p(2)] by (simp_all add: put_slot_def rt_new_def bucket_index_less)
  then show ?thesis
    using mark_fail_three_times [OF rt_get_first(2) rt_get_first(1), OF p(2) p(2), of 7]
      rt_get_first(1) [OF p(2), of 7]
    by (simp add: new_entry_def p(1))
qed

text \<open>
  With samples below \<open>2 ^ 29\<close> microseconds (the shard passes 80000) the smoothing never wraps
  around: \<^verbatim>\<open>ewma\<close> computes the exact weighted mean of the stored value and the sample.
\<close>

theorem srtt_no_overflow:
  assumes "list_all small_sample ops" and "i < 256"
    and "e \<in> set (buckets (rt_run s ops) ! i)" and "unat sample < RTT_BOUND"
  shows "unat (ewma (srtt_us e) sample) = (unat (srtt_us e) * 7 + unat sample) div 8"
  using srtt.run_all [OF assms(1), of s] assms(2-4)
  by (intro unat_ewma) (auto simp: rt_all_def slot_srtt_def slot_at_def)

theorem srtt_no_overflow_witness:
  "let e = new_entry 7 (peer_info_new (NodeId (replicate 32 1)) (AddrV4 10 0 0 1 4000))
   in unat (ewma (srtt_us e) 80000) = 185000"
proof -
  let ?s = "NodeId (replicate 32 0)" and ?p = "peer_info_new (NodeId (replicate 32 1)) (AddrV4 10 0 0 1 4000)"
  have p: "pi_id ?p \<noteq> ?s"
    by (simp add: peer_info_new_def)
  have "new_entry 7 ?p \<in> set (buckets (rt_run ?s [RtInsert 7 ?p]) ! bucket_index ?s (pi_id ?p))"
    using rt_insert_first [OF p, of 7] by (simp add: rt_run_def put_slot_def rt_new_def bucket_index_less)
  from srtt_no_overflow [OF _ bucket_index_less this, of 80000] show ?thesis
    by (simp add: RTT_BOUND_def new_entry_def)
qed

text \<open>The timeout of a request is always between 50 and 600 milliseconds.\<close>

theorem timeout_us_bounds: "50000 \<le> timeout_us rt i \<and> timeout_us rt i \<le> 600000"
  by (simp add: timeout_us_def Let_def min_le_iff_disj le_max_iff_disj)

end
