(* ===== verification/Proto.thy ===== *)
theory Proto
  imports Types
begin

text \<open>
  \<^verbatim>\<open>proto/molia.proto\<close>: the messages of the protocol, field by field, and the interface to the
  generated Protobuf code. The generated encoder and decoder of a message are a value of type
  \<open>'m prost\<close>, a parameter of every definition that uses them; \<open>prost_ok\<close> is the documented
  round trip of \<^verbatim>\<open>prost::Message\<close>. An absent sub-message is \<open>None\<close>, as in the generated code.
\<close>

section \<open>The generated codec of a message\<close>

record 'm prost =
  pb_encode :: "'m \<Rightarrow> bytes"
  pb_decode :: "bytes \<Rightarrow> 'm option"

definition prost_ok :: "'m prost \<Rightarrow> bool" where
  "prost_ok c = (\<forall>m. pb_decode c (pb_encode c m) = Some m)"

lemma prost_okD [simp]: "prost_ok c \<Longrightarrow> pb_decode c (pb_encode c m) = Some m"
  by (simp add: prost_ok_def)

section \<open>Messages\<close>

record proto_capabilities =
  cap_version :: u32
  cap_bitmap :: u64
  cap_max_msg_bytes :: u32

datatype proto_addr = Addr (multiaddr: bytes)

record proto_ping =
  ping_now_unix_ms :: u64
  ping_x25519 :: bytes
  ping_ed25519 :: bytes
  ping_binding_sig :: bytes

record proto_pong =
  pong_now_unix_ms :: u64
  pong_x25519 :: bytes
  pong_ed25519 :: bytes
  pong_binding_sig :: bytes
  pong_observed :: "proto_addr option"

record proto_find_node_req =
  fnq_target_id :: bytes
  fnq_limit :: u32

record proto_peer =
  pp_peer_id :: bytes
  pp_addrs :: "proto_addr list"
  pp_rtt_ms :: u32
  pp_x25519 :: bytes

record proto_find_node_resp =
  fnr_peers :: "proto_peer list"

record proto_find_value_req =
  fvq_key :: bytes
  fvq_provider_limit :: u32

record proto_provider =
  prov_peer_id :: bytes
  prov_meta :: bytes

datatype find_value_result = FvRecord bytes | FvProviders "proto_provider list"

record proto_find_value_resp =
  fvr_result :: "find_value_result option"
  fvr_closer_peers :: "proto_peer list"

record proto_store_req =
  sq_record :: bytes
  sq_admission_token :: bytes
  sq_cost_stamp :: bytes

text \<open>The generated enumerations are stored as \<^verbatim>\<open>i32\<close>.\<close>

definition STORE_CODE_OK :: u32 where "STORE_CODE_OK = 0"
definition STORE_CODE_INVALID :: u32 where "STORE_CODE_INVALID = 3"

record proto_store_resp =
  sp_code :: u32
  sp_reason :: string

record proto_negotiate_resp =
  ng_agreed :: "proto_capabilities option"

record proto_announce_req =
  aq_key :: bytes
  aq_self_descriptor :: "proto_provider option"
  aq_record :: bytes
  aq_admission_token :: bytes
  aq_cost_stamp :: bytes

definition ANNOUNCE_CODE_OK :: u32 where "ANNOUNCE_CODE_OK = 0"

record proto_announce_resp =
  ap_code :: u32
  ap_reason :: string

record proto_record =
  pr_key :: bytes
  pr_value :: bytes
  pr_sequence :: u64
  pr_ttl_secs :: u64
  pr_not_before_unix :: u64
  pr_owner_pubkey :: bytes
  pr_signature :: bytes
  pr_validators :: bytes
  pr_kind :: u32
  pr_namespace :: bytes
  pr_salt :: bytes

definition ERROR_RATE_LIMITED :: u32 where "ERROR_RATE_LIMITED = 3"
definition ERROR_UNSUPPORTED :: u32 where "ERROR_UNSUPPORTED = 6"

record proto_error =
  er_code :: u32
  er_reason :: string
  er_retry_after_ms :: u32

record proto_punch =
  pu_target_id :: bytes
  pu_from_id :: bytes
  pu_candidates :: "proto_addr list"

record proto_relay =
  rl_dest_id :: bytes
  rl_from_id :: bytes
  rl_payload :: bytes

section \<open>A concrete codec\<close>

text \<open>
  A self-delimiting encoding of byte strings gives codecs that satisfy \<open>prost_ok\<close> for messages
  given by their fields; it shows that the assumption on the generated code can hold.
\<close>

fun pack :: "bytes \<Rightarrow> bytes" where
  "pack [] = [0]"
| "pack (b # bs) = 1 # b # pack bs"

fun unpack :: "bytes \<Rightarrow> (bytes \<times> bytes) option" where
  "unpack (m # b # r) =
     (if m = 0 then Some ([], b # r) else map_option (\<lambda>(bs, r'). (b # bs, r')) (unpack r))"
| "unpack [m] = (if m = 0 then Some ([], []) else None)"
| "unpack [] = None"

fun unpack_all :: "nat \<Rightarrow> bytes \<Rightarrow> bytes list" where
  "unpack_all 0 r = []"
| "unpack_all (Suc n) r = (case unpack r of None \<Rightarrow> [] | Some (bs, r') \<Rightarrow> bs # unpack_all n r')"

definition pack_list :: "bytes list \<Rightarrow> bytes" where
  "pack_list fs = concat (map pack fs)"

definition unpack_list :: "bytes \<Rightarrow> bytes list" where
  "unpack_list bs = unpack_all (length bs) bs"

lemma unpack_pack [simp]: "unpack (pack bs @ r) = Some (bs, r)"
proof (induction bs arbitrary: r)
  case Nil
  then show ?case by (cases r) auto
next
  case (Cons b bs)
  then show ?case by simp
qed

lemma unpack_all_pack: "length fs \<le> n \<Longrightarrow> unpack_all n (pack_list fs) = fs"
proof (induction n arbitrary: fs)
  case (Suc n)
  then show ?case
    by (cases fs) (simp_all add: pack_list_def)
qed (simp add: pack_list_def)

lemma pack_length: "Suc 0 \<le> length (pack bs)"
  by (cases bs) simp_all

lemma unpack_list_pack [simp]: "unpack_list (pack_list fs) = fs"
proof -
  have "length fs \<le> length (pack_list fs)"
  proof (induction fs)
    case (Cons f fs)
    then show ?case
      using pack_length [of f] by (simp add: pack_list_def)
  qed simp
  then show ?thesis
    by (simp add: unpack_list_def unpack_all_pack)
qed

definition field_codec :: "('m \<Rightarrow> bytes list) \<Rightarrow> (bytes list \<Rightarrow> 'm) \<Rightarrow> 'm prost" where
  "field_codec flds build =
     \<lparr>pb_encode = (\<lambda>m. pack_list (flds m)),
      pb_decode = (\<lambda>bs. let m = build (unpack_list bs) in if pack_list (flds m) = bs then Some m else None)\<rparr>"

lemma field_codec_ok: "(\<And>m. build (flds m) = m) \<Longrightarrow> prost_ok (field_codec flds build)"
  by (simp add: prost_ok_def field_codec_def Let_def)

definition demo_record_codec :: "proto_record prost" where
  "demo_record_codec = field_codec
     (\<lambda>r. [pr_key r, pr_value r, to_be_bytes (pr_sequence r), to_be_bytes (pr_ttl_secs r),
        to_be_bytes (pr_not_before_unix r), pr_owner_pubkey r, pr_signature r, pr_validators r,
        to_be_bytes (pr_kind r), pr_namespace r, pr_salt r])
     (\<lambda>f. \<lparr>pr_key = f ! 0, pr_value = f ! 1, pr_sequence = from_be_bytes (f ! 2),
           pr_ttl_secs = from_be_bytes (f ! 3), pr_not_before_unix = from_be_bytes (f ! 4),
           pr_owner_pubkey = f ! 5, pr_signature = f ! 6, pr_validators = f ! 7,
           pr_kind = from_be_bytes (f ! 8), pr_namespace = f ! 9, pr_salt = f ! 10\<rparr>)"

lemma demo_record_codec_ok: "prost_ok demo_record_codec"
  unfolding demo_record_codec_def by (rule field_codec_ok) simp

end
