(* ===== verification/Codec.thy ===== *)
theory Codec
  imports Proto
begin

text \<open>
  \<^verbatim>\<open>src/codec.rs\<close>: the fixed 12-byte header in front of every Protobuf body. A function that
  writes into \<^verbatim>\<open>out: &mut [u8]\<close> returns its result and the buffer after the call.
\<close>

section \<open>Message types and classes of service\<close>

definition FLAG_RESPONSE :: u8 where "FLAG_RESPONSE = push_bit 0 1"
definition FLAG_MORE_CHUNKS :: u8 where "FLAG_MORE_CHUNKS = push_bit 1 1"
definition FLAG_PROBE :: u8 where "FLAG_PROBE = push_bit 2 1"

datatype message_type =
    Ping | Pong | NegotiateReq | NegotiateResp | FindNodeReq | FindNodeResp
  | FindValueReq | FindValueResp | StoreReq | StoreResp
  | AnnounceProviderReq | AnnounceProviderResp | Punch | Relay
  | TraceHint | CacheHint | ErrorMsg

fun message_type_as_u8 :: "message_type \<Rightarrow> u8" where
  "message_type_as_u8 Ping = 1"
| "message_type_as_u8 Pong = 2"
| "message_type_as_u8 NegotiateReq = 3"
| "message_type_as_u8 NegotiateResp = 4"
| "message_type_as_u8 FindNodeReq = 5"
| "message_type_as_u8 FindNodeResp = 6"
| "message_type_as_u8 FindValueReq = 7"
| "message_type_as_u8 FindValueResp = 8"
| "message_type_as_u8 StoreReq = 9"
| "message_type_as_u8 StoreResp = 10"
| "message_type_as_u8 AnnounceProviderReq = 11"
| "message_type_as_u8 AnnounceProviderResp = 12"
| "message_type_as_u8 Punch = 13"
| "message_type_as_u8 Relay = 14"
| "message_type_as_u8 TraceHint = 250"
| "message_type_as_u8 CacheHint = 251"
| "message_type_as_u8 ErrorMsg = 255"

definition message_type_from_u8 :: "u8 \<Rightarrow> message_type option" where
  "message_type_from_u8 v =
     (if v = 1 then Some Ping
      else if v = 2 then Some Pong
      else if v = 3 then Some NegotiateReq
      else if v = 4 then Some NegotiateResp
      else if v = 5 then Some FindNodeReq
      else if v = 6 then Some FindNodeResp
      else if v = 7 then Some FindValueReq
      else if v = 8 then Some FindValueResp
      else if v = 9 then Some StoreReq
      else if v = 10 then Some StoreResp
      else if v = 11 then Some AnnounceProviderReq
      else if v = 12 then Some AnnounceProviderResp
      else if v = 13 then Some Punch
      else if v = 14 then Some Relay
      else if v = 250 then Some TraceHint
      else if v = 251 then Some CacheHint
      else if v = 255 then Some ErrorMsg
      else None)"

definition is_request :: "message_type \<Rightarrow> bool" where
  "is_request ty = (ty \<in> {Ping, NegotiateReq, FindNodeReq, FindValueReq, StoreReq,
     AnnounceProviderReq, Punch, Relay})"

datatype qos = Control | Coordination | Hints

fun qos_as_u8 :: "qos \<Rightarrow> u8" where
  "qos_as_u8 Control = 0"
| "qos_as_u8 Coordination = 1"
| "qos_as_u8 Hints = 2"

definition qos_from_u8 :: "u8 \<Rightarrow> qos" where
  "qos_from_u8 v = (if v = 0 then Control else if v = 1 then Coordination else Hints)"

section \<open>The header\<close>

record header =
  h_version :: u8
  h_ty :: message_type
  h_flags :: u8
  h_qos :: qos
  h_correlation :: u32
  h_stream_id :: u32

definition header_request :: "message_type \<Rightarrow> qos \<Rightarrow> u32 \<Rightarrow> header" where
  "header_request ty q corr = \<lparr>h_version = PROTOCOL_VERSION, h_ty = ty, h_flags = 0, h_qos = q,
     h_correlation = corr, h_stream_id = 0\<rparr>"

definition header_response :: "message_type \<Rightarrow> qos \<Rightarrow> u32 \<Rightarrow> header" where
  "header_response ty q corr = \<lparr>h_version = PROTOCOL_VERSION, h_ty = ty, h_flags = FLAG_RESPONSE,
     h_qos = q, h_correlation = corr, h_stream_id = 0\<rparr>"

definition is_response :: "header \<Rightarrow> bool" where
  "is_response h = (h_flags h AND FLAG_RESPONSE \<noteq> 0)"

definition is_probe :: "header \<Rightarrow> bool" where
  "is_probe h = (h_flags h AND FLAG_PROBE \<noteq> 0)"

definition header_encode :: "header \<Rightarrow> bytes \<Rightarrow> nat option \<times> bytes" where
  "header_encode h out =
     (if length out < HEADER_LEN then (None, out)
      else (Some HEADER_LEN,
            [h_version h, message_type_as_u8 (h_ty h), h_flags h, qos_as_u8 (h_qos h)]
              @ to_be_bytes (h_correlation h) @ to_be_bytes (h_stream_id h) @ drop 12 out))"

definition header_decode :: "bytes \<Rightarrow> header option" where
  "header_decode buf =
     (if length buf < HEADER_LEN then None
      else if buf ! 0 \<noteq> PROTOCOL_VERSION then None
      else case message_type_from_u8 (buf ! 1) of
          None \<Rightarrow> None
        | Some ty \<Rightarrow> Some \<lparr>h_version = buf ! 0, h_ty = ty, h_flags = buf ! 2,
             h_qos = qos_from_u8 (buf ! 3),
             h_correlation = from_be_bytes (take 4 (drop 4 buf)),
             h_stream_id = from_be_bytes (take 4 (drop 8 buf))\<rparr>)"

section \<open>Messages\<close>

definition encode_message :: "'m prost \<Rightarrow> header \<Rightarrow> 'm \<Rightarrow> bytes \<Rightarrow> nat option \<times> bytes" where
  "encode_message c h body out =
     (case header_encode h out of
        (None, out') \<Rightarrow> (None, out')
      | (Some n, out') \<Rightarrow>
          let enc = pb_encode c body; body_len = length enc
          in if n + body_len > length out' \<or> n + body_len > PMTU_FLOOR then (None, out')
             else (Some (n + body_len), take n out' @ enc @ drop (n + body_len) out'))"

definition decode_body :: "'m prost \<Rightarrow> bytes \<Rightarrow> 'm option" where
  "decode_body c buf =
     (if length buf < HEADER_LEN then None else pb_decode c (drop HEADER_LEN buf))"

definition encode_ping :: "proto_ping prost \<Rightarrow> u32 \<Rightarrow> u64 \<Rightarrow> bytes \<Rightarrow> nat option \<times> bytes" where
  "encode_ping c corr now_unix_ms out =
     encode_message c (header_request Ping Control corr)
       \<lparr>ping_now_unix_ms = now_unix_ms, ping_x25519 = [], ping_ed25519 = [], ping_binding_sig = []\<rparr> out"

definition encode_pong :: "proto_pong prost \<Rightarrow> u32 \<Rightarrow> u64 \<Rightarrow> bytes \<Rightarrow> nat option \<times> bytes" where
  "encode_pong c corr now_unix_ms out =
     encode_message c (header_response Pong Control corr)
       \<lparr>pong_now_unix_ms = now_unix_ms, pong_x25519 = [], pong_ed25519 = [], pong_binding_sig = [],
        pong_observed = None\<rparr> out"

definition FEATURE_DEFAULT :: u64 where
  "FEATURE_DEFAULT = FEATURE_PRIVACY_BLINDING OR FEATURE_ERASURE_HINTS"

definition default_capabilities :: proto_capabilities where
  "default_capabilities = \<lparr>cap_version = 1, cap_bitmap = FEATURE_DEFAULT,
     cap_max_msg_bytes = of_nat PMTU_FLOOR\<rparr>"

section \<open>Lemmas\<close>

lemma message_type_roundtrip [simp]:
  "message_type_from_u8 (message_type_as_u8 ty) = Some ty"
  by (cases ty) (simp_all add: message_type_from_u8_def)

lemma message_type_from_u8_SomeD:
  "message_type_from_u8 v = Some ty \<Longrightarrow> message_type_as_u8 ty = v"
  by (auto simp: message_type_from_u8_def split: if_splits)

lemma qos_roundtrip [simp]: "qos_from_u8 (qos_as_u8 q) = q"
  by (cases q) (simp_all add: qos_from_u8_def)

lemma qos_as_u8_from: "qos_as_u8 (qos_from_u8 v) = min v 2"
proof -
  have "2 \<le> v" if "v \<noteq> 0" "v \<noteq> 1"
    using that by unat_arith
  then show ?thesis
    by (auto simp: qos_from_u8_def min_def)
qed

lemma length_header_encode [simp]: "length (snd (header_encode h out)) = length out"
  by (auto simp: header_encode_def HEADER_LEN_def)

lemma take4_drop: "i + 4 \<le> length xs
  \<Longrightarrow> take 4 (drop i xs) = [xs ! i, xs ! (i + 1), xs ! (i + 2), xs ! (i + 3)]"
  by (simp add: numeral_eq_Suc take_Suc_conv_app_nth nth_Cons')

lemma header_decode_encode:
  assumes "h_version h = PROTOCOL_VERSION"
  shows "header_decode ([h_version h, message_type_as_u8 (h_ty h), h_flags h, qos_as_u8 (h_qos h)]
    @ to_be_bytes (h_correlation h) @ to_be_bytes (h_stream_id h) @ rest) = Some h"
  using assms by (simp add: header_decode_def HEADER_LEN_def)

lemma encode_message_cases:
  "encode_message c h body out =
     (if length out < HEADER_LEN then (None, out)
      else if HEADER_LEN + length (pb_encode c body) > min (length out) PMTU_FLOOR
      then (None, snd (header_encode h out))
      else (Some (HEADER_LEN + length (pb_encode c body)),
            take HEADER_LEN (snd (header_encode h out)) @ pb_encode c body
              @ drop (HEADER_LEN + length (pb_encode c body)) (snd (header_encode h out))))"
  by (auto simp: encode_message_def header_encode_def Let_def HEADER_LEN_def)

section \<open>Properties\<close>

text \<open>
  A header of the current version that is encoded into a buffer of at least 12 bytes is
  decoded to the same header, whatever follows it, and the rest of the buffer is untouched.
\<close>

theorem header_roundtrip:
  assumes "h_version h = PROTOCOL_VERSION" and "HEADER_LEN \<le> length out"
  shows "fst (header_encode h out) = Some HEADER_LEN
    \<and> header_decode (take HEADER_LEN (snd (header_encode h out)) @ rest) = Some h
    \<and> drop HEADER_LEN (snd (header_encode h out)) = drop HEADER_LEN out"
  using assms header_decode_encode [OF assms(1), of rest]
  by (simp add: header_encode_def HEADER_LEN_def)

theorem header_roundtrip_witness:
  "header_decode (take 12 (snd (header_encode (header_request FindNodeReq Coordination 2864434397)
     (replicate 12 0)))) = Some (header_request FindNodeReq Coordination 2864434397)"
  using header_roundtrip [of "header_request FindNodeReq Coordination 2864434397" "replicate 12 0" "[]"]
  by (simp add: header_request_def HEADER_LEN_def)

text \<open>
  Decoding accepts exactly the buffers of at least 12 bytes with the protocol version and a
  known message type; encoding what was decoded gives the 12 bytes back, except that a class of
  service above 2 is written back as 2.
\<close>

theorem header_decode_canonical:
  "(header_decode buf \<noteq> None \<longleftrightarrow> HEADER_LEN \<le> length buf \<and> buf ! 0 = PROTOCOL_VERSION
      \<and> buf ! 1 \<in> range message_type_as_u8)
   \<and> (\<forall>h. header_decode buf = Some h \<longrightarrow>
        take HEADER_LEN (snd (header_encode h buf)) = (take HEADER_LEN buf)[3 := min (buf ! 3) 2])"
proof -
  have ty: "message_type_from_u8 v \<noteq> None \<longleftrightarrow> v \<in> range message_type_as_u8" for v
    by (metis message_type_from_u8_SomeD message_type_roundtrip not_None_eq rangeE rangeI)
  have acc: "header_decode buf \<noteq> None \<longleftrightarrow> HEADER_LEN \<le> length buf \<and> buf ! 0 = PROTOCOL_VERSION
      \<and> buf ! 1 \<in> range message_type_as_u8"
    unfolding ty [symmetric] by (auto simp: header_decode_def split: option.splits)
  have "take HEADER_LEN (snd (header_encode h buf)) = (take HEADER_LEN buf)[3 := min (buf ! 3) 2]"
    if dec: "header_decode buf = Some h" for h
  proof -
    have len: "12 \<le> length buf"
      using dec by (auto simp: header_decode_def HEADER_LEN_def split: if_splits)
    have enc: "take HEADER_LEN (snd (header_encode h buf))
        = [h_version h, message_type_as_u8 (h_ty h), h_flags h, qos_as_u8 (h_qos h)]
          @ to_be_bytes (h_correlation h) @ to_be_bytes (h_stream_id h)"
      using len by (simp add: header_encode_def HEADER_LEN_def)
    have h: "h_version h = buf ! 0" "message_type_as_u8 (h_ty h) = buf ! 1" "h_flags h = buf ! 2"
        "qos_as_u8 (h_qos h) = min (buf ! 3) 2"
        "to_be_bytes (h_correlation h) = take 4 (drop 4 buf)"
        "to_be_bytes (h_stream_id h) = take 4 (drop 8 buf)"
      using dec len
      by (auto simp: header_decode_def qos_as_u8_from to_from_be_bytes
          split: if_splits option.splits dest: message_type_from_u8_SomeD)
    have "take 12 buf = take 4 (drop 0 buf) @ take 4 (drop 4 buf) @ take 4 (drop 8 buf)"
      using take_add [of 4 8 buf] take_add [of 4 4 "drop 4 buf"] by simp
    then show ?thesis
      unfolding enc h using len take4_drop [of 0 buf]
      by (simp add: HEADER_LEN_def take4_drop numeral_2_eq_2)
  qed
  with acc show ?thesis by blast
qed

theorem header_decode_canonical_witness:
  "header_decode ([1, 5, 0, 9] @ replicate 8 0) \<noteq> None"
  using header_decode_canonical [of "[1, 5, 0, 9] @ replicate 8 0"]
    rangeI [of message_type_as_u8 FindNodeReq]
  by (simp add: HEADER_LEN_def PROTOCOL_VERSION_def)

lemma encode_message_decodes:
  assumes "prost_ok c" and "h_version h = PROTOCOL_VERSION"
    and "encode_message c h body out = (r, out')"
  shows "length out' = length out
    \<and> (if HEADER_LEN + length (pb_encode c body) \<le> min (length out) PMTU_FLOOR
       then \<exists>n. r = Some n \<and> n = HEADER_LEN + length (pb_encode c body) \<and> n \<le> PMTU_FLOOR
          \<and> header_decode (take n out') = Some h \<and> decode_body c (take n out') = Some body
       else r = None)"
proof (cases "HEADER_LEN + length (pb_encode c body) \<le> min (length out) PMTU_FLOOR")
  case True
  then have len: "HEADER_LEN \<le> length out"
    by simp
  let ?o = "snd (header_encode h out)" and ?n = "HEADER_LEN + length (pb_encode c body)"
  have r: "r = Some ?n" "out' = take HEADER_LEN ?o @ pb_encode c body @ drop ?n ?o"
    using assms(3) True len by (auto simp: encode_message_cases)
  have "take ?n out' = take HEADER_LEN ?o @ pb_encode c body"
    using len by (simp add: r(2))
  moreover have "header_decode (take HEADER_LEN ?o @ pb_encode c body) = Some h"
    using header_decode_encode [OF assms(2), of "pb_encode c body"] len
    by (simp add: header_encode_def HEADER_LEN_def)
  moreover have "decode_body c (take HEADER_LEN ?o @ pb_encode c body) = Some body"
    using assms(1) len by (simp add: decode_body_def)
  ultimately show ?thesis
    using True by (simp add: r)
next
  case False
  then show ?thesis
    using assms(3) by (auto simp: encode_message_cases HEADER_LEN_def split: if_splits)
qed

text \<open>
  C32. \<^verbatim>\<open>encode_message\<close> succeeds exactly when the header and the body fit into the buffer and into
  1200 bytes; the datagram it has then written decodes to the same header and the same body.
\<close>

theorem encode_message_roundtrip:
  assumes "prost_ok c" and "h_version h = PROTOCOL_VERSION"
    and "encode_message c h body out = (r, out')"
  shows "length out' = length out
    \<and> (if HEADER_LEN + length (pb_encode c body) \<le> min (length out) PMTU_FLOOR
       then \<exists>n. r = Some n \<and> n = HEADER_LEN + length (pb_encode c body) \<and> n \<le> PMTU_FLOOR
          \<and> header_decode (take n out') = Some h \<and> decode_body c (take n out') = Some body
       else r = None)"
  using assms by (rule encode_message_decodes)

theorem encode_message_roundtrip_witness:
  "let c = \<lparr>pb_encode = (\<lambda>x :: u8. [x]), pb_decode = (\<lambda>bs. if bs = [] then None else Some (hd bs))\<rparr>;
       h = header_request Punch Control 7
   in prost_ok c \<and> fst (encode_message c h 9 (replicate 64 0)) = Some 13
      \<and> decode_body c (take 13 (snd (encode_message c h 9 (replicate 64 0)))) = Some 9"
proof -
  let ?c = "\<lparr>pb_encode = (\<lambda>x :: u8. [x]), pb_decode = (\<lambda>bs. if bs = [] then None else Some (hd bs))\<rparr>"
  have "prost_ok ?c"
    by (simp add: prost_ok_def)
  moreover have "h_version (header_request Punch Control 7) = PROTOCOL_VERSION"
    by (simp add: header_request_def)
  ultimately show ?thesis
    using encode_message_roundtrip [of ?c "header_request Punch Control 7" 9 "replicate 64 0"]
    by (cases "encode_message ?c (header_request Punch Control 7) 9 (replicate 64 0)")
      (auto simp: HEADER_LEN_def PMTU_FLOOR_def)
qed

end
