(* ===== verification/Wal.thy ===== *)
theory Wal
  imports Types
begin

text \<open>
  The write-ahead log format shared by \<^verbatim>\<open>src/peerstore.rs\<close> and \<^verbatim>\<open>src/store.rs\<close>: a frame is the
  length of its payload, a type byte, the payload and the CRC-32 of the payload. Both files
  read the log with the same loop, which stops at the end of the file, at a torn frame and at
  a checksum mismatch; \<open>wal_replay\<close> is that loop over what a frame does to the state. The CRC
  is computed by a library and is a parameter.

  The interface \<open>log_state\<close> states what a component promises that logs its operations: replaying
  the frames of an operation has the effect of the operation. Recovery after a crash follows
  once for all such components.
\<close>

section \<open>Frames\<close>

definition write_frame :: "(bytes \<Rightarrow> u32) \<Rightarrow> u8 \<Rightarrow> bytes \<Rightarrow> bytes" where
  "write_frame crc ty payload =
     to_le_bytes (of_nat (length payload) :: u32) @ [ty] @ payload @ to_le_bytes (crc payload)"

text \<open>\<^verbatim>\<open>Read::read_exact\<close> on the remaining bytes of a file.\<close>

definition read_exact :: "nat \<Rightarrow> bytes \<Rightarrow> (bytes \<times> bytes) option" where
  "read_exact n bs = (if length bs < n then None else Some (take n bs, drop n bs))"

definition next_frame :: "(bytes \<Rightarrow> u32) \<Rightarrow> bytes \<Rightarrow> (u8 \<times> bytes \<times> bytes) option" where
  "next_frame crc bs =
     (case read_exact 5 bs of
        None \<Rightarrow> None
      | Some (hdr, r1) \<Rightarrow>
          (case read_exact (unat (from_le_bytes (take 4 hdr) :: u32)) r1 of
             None \<Rightarrow> None
           | Some (payload, r2) \<Rightarrow>
               (case read_exact 4 r2 of
                  None \<Rightarrow> None
                | Some (crc_buf, r3) \<Rightarrow>
                    if crc payload \<noteq> from_le_bytes crc_buf then None
                    else Some (hdr ! 4, payload, r3))))"

lemma next_frame_shorter:
  "next_frame crc bs = Some (ty, payload, rest) \<Longrightarrow> length rest < length bs"
  by (auto simp: next_frame_def read_exact_def split: if_splits)

function wal_replay :: "(bytes \<Rightarrow> u32) \<Rightarrow> ('s \<Rightarrow> u8 \<Rightarrow> bytes \<Rightarrow> 's) \<Rightarrow> 's \<Rightarrow> bytes \<Rightarrow> 's" where
  "wal_replay crc apply s bs =
     (case next_frame crc bs of
        None \<Rightarrow> s
      | Some (ty, payload, rest) \<Rightarrow> wal_replay crc apply (apply s ty payload) rest)"
  by pat_completeness auto

termination
  by (relation "measure (\<lambda>(crc, apply, s, bs). length bs)") (auto dest: next_frame_shorter)

declare wal_replay.simps [simp del]

text \<open>The bytes of a log that holds the given frames.\<close>

type_synonym frame = "u8 \<times> bytes"

definition wal_bytes :: "(bytes \<Rightarrow> u32) \<Rightarrow> frame list \<Rightarrow> bytes" where
  "wal_bytes crc fs = concat (map (\<lambda>(ty, payload). write_frame crc ty payload) fs)"

definition frame_ok :: "frame \<Rightarrow> bool" where
  "frame_ok f = (length (snd f) < 2 ^ 32)"

section \<open>Lemmas\<close>

lemma wal_bytes_simps [simp]:
  "wal_bytes crc [] = []"
  "wal_bytes crc (f # fs) = write_frame crc (fst f) (snd f) @ wal_bytes crc fs"
  "wal_bytes crc (fs @ gs) = wal_bytes crc fs @ wal_bytes crc gs"
  by (simp_all add: wal_bytes_def case_prod_beta)

lemma length_write_frame [simp]: "length (write_frame crc ty p) = length p + 9"
  by (simp add: write_frame_def)

lemma next_frame_write:
  assumes "length p < 2 ^ 32"
  shows "next_frame crc (write_frame crc ty p @ rest) = Some (ty, p, rest)"
proof -
  let ?len = "of_nat (length p) :: u32"
  have n: "unat ?len = length p"
    using assms by (simp add: unat_of_nat)
  have hdr: "take 5 (write_frame crc ty p @ rest) = to_le_bytes ?len @ [ty]"
    "drop 5 (write_frame crc ty p @ rest) = p @ to_le_bytes (crc p) @ rest"
    by (simp_all add: write_frame_def)
  have "read_exact 5 (write_frame crc ty p @ rest)
      = Some (to_le_bytes ?len @ [ty], p @ to_le_bytes (crc p) @ rest)"
    unfolding read_exact_def hdr by simp
  then show ?thesis
    by (simp add: next_frame_def read_exact_def n nth_append)
qed

text \<open>A frame that was only partly written is not a frame.\<close>

lemma next_frame_torn:
  assumes "length p < 2 ^ 32" and "k < length (write_frame crc ty p)"
  shows "next_frame crc (take k (write_frame crc ty p)) = None"
proof (cases "k < 5")
  case True
  then show ?thesis by (simp add: next_frame_def read_exact_def)
next
  case False
  let ?len = "of_nat (length p) :: u32"
  have n: "unat ?len = length p"
    using assms by (simp add: unat_of_nat)
  have t: "take k (write_frame crc ty p) = to_le_bytes ?len @ [ty] @ take (k - 5) (p @ to_le_bytes (crc p))"
    using False by (simp add: write_frame_def take_Cons')
  have "read_exact 5 (take k (write_frame crc ty p))
      = Some (to_le_bytes ?len @ [ty], take (k - 5) (p @ to_le_bytes (crc p)))"
    by (simp add: t read_exact_def)
  moreover have "k - 5 < length p + 4"
    using assms(2) False by simp
  ultimately show ?thesis
    by (auto simp: next_frame_def read_exact_def n)
qed

lemma wal_replay_None: "next_frame crc bs = None \<Longrightarrow> wal_replay crc f s bs = s"
  by (subst wal_replay.simps) simp

lemma wal_replay_frames:
  "list_all frame_ok fs \<Longrightarrow> wal_replay crc f s (wal_bytes crc fs @ rest)
     = wal_replay crc f (foldl (\<lambda>s (ty, p). f s ty p) s fs) rest"
proof (induction fs arbitrary: s)
  case Nil
  then show ?case by simp
next
  case (Cons x fs)
  obtain ty p where x: "x = (ty, p)" by (cases x)
  have "next_frame crc (wal_bytes crc (x # fs) @ rest) = Some (ty, p, wal_bytes crc fs @ rest)"
    using Cons.prems next_frame_write [of p crc ty "wal_bytes crc fs @ rest"] by (simp add: x frame_ok_def)
  then have "wal_replay crc f s (wal_bytes crc (x # fs) @ rest)
      = wal_replay crc f (f s ty p) (wal_bytes crc fs @ rest)"
    by (subst wal_replay.simps) simp
  with Cons show ?case by (simp add: x)
qed

lemma wal_replay_inv:
  assumes step: "\<And>s ty p. P s \<Longrightarrow> P (f s ty p)" and "P s"
  shows "P (wal_replay crc f s bs)"
  using assms(2)
proof (induction bs arbitrary: s rule: length_induct)
  case (1 bs)
  show ?case
  proof (cases "next_frame crc bs")
    case None
    with 1 show ?thesis by (simp add: wal_replay_None)
  next
    case (Some x)
    obtain ty p rest where x: "x = (ty, p, rest)" by (cases x)
    with Some have "wal_replay crc f s bs = wal_replay crc f (f s ty p) rest"
      by (subst wal_replay.simps) simp
    moreover have "length rest < length bs"
      using Some next_frame_shorter x by blast
    ultimately show ?thesis
      using 1 step by simp
  qed
qed

text \<open>What a process that dies while it writes a frame leaves behind.\<close>

definition torn_tail :: "(bytes \<Rightarrow> u32) \<Rightarrow> bytes \<Rightarrow> bool" where
  "torn_tail crc t = (\<exists>ty p k. length p < 2 ^ 32 \<and> k < length (write_frame crc ty p)
     \<and> t = take k (write_frame crc ty p))"

lemma torn_tail_Nil [simp]: "torn_tail crc []"
  unfolding torn_tail_def by (rule exI [of _ 0], rule exI [of _ "[]"], rule exI [of _ 0]) simp

lemma wal_replay_torn:
  assumes "list_all frame_ok fs" and "torn_tail crc t"
  shows "wal_replay crc f s (wal_bytes crc fs @ t) = foldl (\<lambda>s (ty, p). f s ty p) s fs"
proof -
  have "next_frame crc t = None"
    using assms(2) next_frame_torn by (auto simp: torn_tail_def)
  then show ?thesis
    by (simp add: wal_replay_frames [OF assms(1)] wal_replay_None)
qed

section \<open>Components that log their operations\<close>

text \<open>
  \<open>run\<close> is the operation on the state in memory, \<open>logged\<close> the frames it appends, \<open>applyf\<close> what the
  replay does with a frame, and \<open>view\<close> relates a state to what a restart brings back of it.
\<close>

fun run_log :: "('s \<Rightarrow> 'op \<Rightarrow> 's) \<Rightarrow> ('s \<Rightarrow> 'op \<Rightarrow> frame list) \<Rightarrow> 's \<Rightarrow> 'op list \<Rightarrow> frame list" where
  "run_log run logged s [] = []"
| "run_log run logged s (op # ops) = logged s op @ run_log run logged (run s op) ops"

fun run_ok :: "('s \<Rightarrow> 'op \<Rightarrow> 's) \<Rightarrow> ('s \<Rightarrow> 'op \<Rightarrow> bool) \<Rightarrow> 's \<Rightarrow> 'op list \<Rightarrow> bool" where
  "run_ok run ok s [] = True"
| "run_ok run ok s (op # ops) = (ok s op \<and> run_ok run ok (run s op) ops)"

locale log_state =
  fixes run :: "'s \<Rightarrow> 'op \<Rightarrow> 's"
    and logged :: "'s \<Rightarrow> 'op \<Rightarrow> frame list"
    and applyf :: "'r \<Rightarrow> u8 \<Rightarrow> bytes \<Rightarrow> 'r"
    and view :: "'s \<Rightarrow> 'r \<Rightarrow> bool"
    and ok :: "'s \<Rightarrow> 'op \<Rightarrow> bool"
  assumes apply_logged: "ok s op \<Longrightarrow> view s r \<Longrightarrow>
      view (run s op) (foldl (\<lambda>r (ty, p). applyf r ty p) r (logged s op))"
    and logged_ok: "ok s op \<Longrightarrow> list_all frame_ok (logged s op)"
begin

lemma run_log_ok: "run_ok run ok s ops \<Longrightarrow> list_all frame_ok (run_log run logged s ops)"
  by (induction ops arbitrary: s) (auto simp: logged_ok)

lemma apply_run_log:
  "run_ok run ok s ops \<Longrightarrow> view s r \<Longrightarrow>
     view (foldl run s ops) (foldl (\<lambda>r (ty, p). applyf r ty p) r (run_log run logged s ops))"
  by (induction ops arbitrary: s r) (auto simp: apply_logged)

lemma recover_run:
  assumes "run_ok run ok s ops" and "torn_tail crc t" and "list_all frame_ok fs"
    and "view s (foldl (\<lambda>r (ty, p). applyf r ty p) r fs)"
  shows "view (foldl run s ops) (wal_replay crc applyf r (wal_bytes crc (fs @ run_log run logged s ops) @ t))"
  using wal_replay_torn [of "fs @ run_log run logged s ops" crc t applyf r] run_log_ok [OF assms(1)]
    apply_run_log [OF assms(1,4)] assms(2,3)
  by simp

end

section \<open>Properties\<close>

text \<open>
  C33. Replaying a log applies exactly the frames that were completely written, in their order:
  a frame torn off anywhere by a crash is ignored.
\<close>

theorem wal_crash_safe:
  assumes "list_all frame_ok fs" and "length p < 2 ^ 32" and "k < length (write_frame crc ty p)"
  shows "wal_replay crc f s (wal_bytes crc fs @ take k (write_frame crc ty p))
    = foldl (\<lambda>s (ty, p). f s ty p) s fs"
  by (rule wal_replay_torn [OF assms(1)]) (use assms(2,3) in \<open>auto simp: torn_tail_def\<close>)

theorem wal_crash_safe_witness:
  "wal_replay (\<lambda>_. 7) (\<lambda>s ty p. s @ [(ty, p)]) []
     (wal_bytes (\<lambda>_. 7) [(1, [5, 6]), (2, [])] @ take 8 (write_frame (\<lambda>_. 7) 3 [1, 2]))
   = [(1, [5, 6]), (2, [])]"
  using wal_crash_safe [of "[(1, [5, 6]), (2, [])]" "[1, 2]" 8 "\<lambda>_. 7" 3 "\<lambda>s ty p. s @ [(ty, p)]" "[]"]
  by (simp add: frame_ok_def)

end
