(* ===== verification/Peerstore.thy ===== *)
theory Peerstore
  imports Wal
begin

text \<open>
  \<^verbatim>\<open>src/peerstore.rs\<close>: the index of known peers of a shard and its write-ahead log. The directory of
  the shard is the record \<open>disk\<close> with the two files the code uses; an operation that touches files
  takes and returns it. I/O errors other than the end of a file are not modelled. The textual
  form of a socket address (\<^verbatim>\<open>Display\<close>, \<^verbatim>\<open>FromStr\<close>) is the parameter \<open>addr_text\<close>; \<open>addr_text_ok\<close> says
  that parsing inverts printing. A hash map iterates in an order of its own, given as an argument.
\<close>

section \<open>State\<close>

definition TYPE_UPSERT :: u8 where "TYPE_UPSERT = 1"
definition TYPE_TOMBSTONE :: u8 where "TYPE_TOMBSTONE = 2"
definition TYPE_RECORD :: u8 where "TYPE_RECORD = 3"

record addr_text =
  at_print :: "socket_addr \<Rightarrow> bytes"
  at_parse :: "bytes \<Rightarrow> socket_addr option"

text \<open>Addresses that the textual form determines: it leaves out the IPv6 flow information.\<close>

fun sa_plain :: "socket_addr \<Rightarrow> bool" where
  "sa_plain (AddrV4 a b c d p) = True"
| "sa_plain (AddrV6 o6 p f s) = (length o6 = 16 \<and> f = 0)"

definition addr_text_ok :: "addr_text \<Rightarrow> bool" where
  "addr_text_ok t = (\<forall>a. sa_plain a \<longrightarrow> at_parse t (at_print t a) = Some a \<and> length (at_print t a) < 100)"

record disk =
  snapshot_bin :: "bytes option"
  wal_log :: "bytes option"

type_synonym peer_index = "node_id \<rightharpoonup> peer_info"

record peerstore =
  ps_dir :: string \<comment> \<open>empty for a store in memory\<close>
  ps_peers :: peer_index
  ps_pending :: "frame list"
  ps_wal :: bool \<comment> \<open>the log is open for appending\<close>

section \<open>Replay and recovery\<close>

definition peer_apply :: "addr_text \<Rightarrow> peer_index \<Rightarrow> u8 \<Rightarrow> bytes \<Rightarrow> peer_index" where
  "peer_apply t peers ty payload =
     (if ty = TYPE_UPSERT \<and> length payload \<ge> 32
      then let i = NodeId (take 32 payload)
           in case at_parse t (drop 32 payload) of
                Some addr \<Rightarrow> peers(i \<mapsto> peer_info_new i addr)
              | None \<Rightarrow> peers
      else if ty = TYPE_TOMBSTONE \<and> length payload = 32
      then peers(NodeId payload := None)
      else peers)"

definition ps_replay :: "(bytes \<Rightarrow> u32) \<Rightarrow> addr_text \<Rightarrow> peer_index \<Rightarrow> bytes \<Rightarrow> peer_index" where
  "ps_replay crc t peers file = wal_replay crc (peer_apply t) peers file"

definition ps_recover :: "(bytes \<Rightarrow> u32) \<Rightarrow> addr_text \<Rightarrow> disk \<Rightarrow> peerstore \<Rightarrow> peerstore" where
  "ps_recover crc t d ps =
     (let p1 = (case snapshot_bin d of Some f \<Rightarrow> ps_replay crc t (ps_peers ps) f | None \<Rightarrow> ps_peers ps);
          p2 = (case wal_log d of Some f \<Rightarrow> ps_replay crc t p1 f | None \<Rightarrow> p1)
      in ps\<lparr>ps_peers := p2\<rparr>)"

definition ps_open :: "(bytes \<Rightarrow> u32) \<Rightarrow> addr_text \<Rightarrow> string \<Rightarrow> disk \<Rightarrow> peerstore \<times> disk" where
  "ps_open crc t dir d =
     (let store = ps_recover crc t d \<lparr>ps_dir = dir, ps_peers = Map.empty, ps_pending = [], ps_wal = False\<rparr>;
          wal = (case wal_log d of None \<Rightarrow> [] | Some f \<Rightarrow> f)
      in (store\<lparr>ps_wal := True\<rparr>, d\<lparr>wal_log := Some wal\<rparr>))"

definition ps_memory :: peerstore where
  "ps_memory = \<lparr>ps_dir = [], ps_peers = Map.empty, ps_pending = [], ps_wal = False\<rparr>"

section \<open>Operations\<close>

definition peer_payload :: "addr_text \<Rightarrow> peer_info \<Rightarrow> bytes" where
  "peer_payload t info =
     nid (pi_id info) @ (case primary_addr info of Some addr \<Rightarrow> at_print t addr | None \<Rightarrow> [])"

definition ps_append :: "u8 \<Rightarrow> bytes \<Rightarrow> peerstore \<Rightarrow> peerstore" where
  "ps_append ty payload ps = ps\<lparr>ps_pending := ps_pending ps @ [(ty, payload)]\<rparr>"

definition ps_upsert :: "addr_text \<Rightarrow> peer_info \<Rightarrow> peerstore \<Rightarrow> peerstore" where
  "ps_upsert t info ps =
     ps\<lparr>ps_peers := (ps_peers ps)(pi_id info \<mapsto> info),
        ps_pending := ps_pending ps @ [(TYPE_UPSERT, peer_payload t info)]\<rparr>"

definition ps_remove :: "node_id \<Rightarrow> peerstore \<Rightarrow> peerstore" where
  "ps_remove i ps =
     ps\<lparr>ps_peers := (ps_peers ps)(i := None),
        ps_pending := ps_pending ps @ [(TYPE_TOMBSTONE, nid i)]\<rparr>"

definition ps_get :: "peerstore \<Rightarrow> node_id \<Rightarrow> peer_info option" where
  "ps_get ps i = ps_peers ps i"

definition ps_flush :: "(bytes \<Rightarrow> u32) \<Rightarrow> peerstore \<Rightarrow> disk \<Rightarrow> peerstore \<times> disk" where
  "ps_flush crc ps d =
     (if \<not> ps_wal ps then (ps\<lparr>ps_pending := []\<rparr>, d)
      else (ps\<lparr>ps_pending := []\<rparr>,
            d\<lparr>wal_log := Some ((case wal_log d of None \<Rightarrow> [] | Some f \<Rightarrow> f) @ wal_bytes crc (ps_pending ps))\<rparr>))"

text \<open>\<open>order\<close> is the order in which \<^verbatim>\<open>self.peers.values()\<close> visits the peers.\<close>

definition compact_with_records ::
    "(bytes \<Rightarrow> u32) \<Rightarrow> addr_text \<Rightarrow> node_id list \<Rightarrow> bytes list \<Rightarrow> peerstore \<Rightarrow> disk \<Rightarrow> peerstore \<times> disk" where
  "compact_with_records crc t order records ps d =
     (if ps_dir ps = [] then (ps, d)
      else let f = wal_bytes crc (map (\<lambda>p. (TYPE_UPSERT, peer_payload t p)) (List.map_filter (ps_peers ps) order))
                 @ wal_bytes crc (map (\<lambda>payload. (TYPE_RECORD, payload)) records)
           in (ps\<lparr>ps_wal := True\<rparr>, d\<lparr>snapshot_bin := Some f, wal_log := Some []\<rparr>))"

definition ps_compact :: "(bytes \<Rightarrow> u32) \<Rightarrow> addr_text \<Rightarrow> node_id list \<Rightarrow> peerstore \<Rightarrow> disk \<Rightarrow> peerstore \<times> disk" where
  "ps_compact crc t order ps d = compact_with_records crc t order [] ps d"

section \<open>Runs\<close>

datatype ps_op =
    PsUpsert peer_info
  | PsRemove node_id
  | PsAppend u8 bytes
  | PsFlush
  | PsCompact "peer_index \<Rightarrow> node_id list" "bytes list" \<comment> \<open>the iteration order of the hash map\<close>

fun ps_step :: "(bytes \<Rightarrow> u32) \<Rightarrow> addr_text \<Rightarrow> peerstore \<times> disk \<Rightarrow> ps_op \<Rightarrow> peerstore \<times> disk" where
  "ps_step crc t (ps, d) (PsUpsert info) = (ps_upsert t info ps, d)"
| "ps_step crc t (ps, d) (PsRemove i) = (ps_remove i ps, d)"
| "ps_step crc t (ps, d) (PsAppend ty payload) = (ps_append ty payload ps, d)"
| "ps_step crc t (ps, d) PsFlush = ps_flush crc ps d"
| "ps_step crc t (ps, d) (PsCompact iter records) =
     compact_with_records crc t (iter (ps_peers ps)) records ps d"

text \<open>Every peer is filed under its identifier.\<close>

definition index_keyed :: "peer_index \<Rightarrow> bool" where
  "index_keyed m = (\<forall>i p. m i = Some p \<longrightarrow> pi_id p = i)"

lemma index_keyed_upsert: "index_keyed (ps_peers ps) \<Longrightarrow> index_keyed (ps_peers (ps_upsert t info ps))"
  by (simp add: index_keyed_def ps_upsert_def)

lemma index_keyed_memory: "index_keyed (ps_peers ps_memory)"
  by (simp add: index_keyed_def ps_memory_def)

lemma index_keyed_apply: "index_keyed m \<Longrightarrow> index_keyed (peer_apply t m ty p)"
  by (simp add: index_keyed_def peer_apply_def peer_info_new_def Let_def split: option.split)

lemma index_keyed_replay: "index_keyed m \<Longrightarrow> index_keyed (ps_replay crc t m f)"
  unfolding ps_replay_def by (rule wal_replay_inv [where P = index_keyed]) (rule index_keyed_apply)

lemma index_keyed_open: "index_keyed (ps_peers (fst (ps_open crc t dir d)))"
proof -
  have "index_keyed Map.empty"
    by (simp add: index_keyed_def)
  then show ?thesis
    by (simp add: ps_open_def ps_recover_def Let_def index_keyed_replay split: option.split)
qed

section \<open>What a restart brings back\<close>

text \<open>
  The log keeps the identifier and the primary address of a peer: \<open>persist\<close> is what a recovered
  index can contain at best.
\<close>

definition persist :: "peer_index \<Rightarrow> peer_index" where
  "persist peers = (\<lambda>i. case peers i of None \<Rightarrow> None
     | Some p \<Rightarrow> map_option (peer_info_new i) (primary_addr p))"

definition apply_frames :: "addr_text \<Rightarrow> frame list \<Rightarrow> peer_index \<Rightarrow> peer_index" where
  "apply_frames t fs r = foldl (\<lambda>r (ty, p). peer_apply t r ty p) r fs"

definition has_addr :: "peer_info \<Rightarrow> bool" where
  "has_addr info = (id_ok (nid (pi_id info)) \<and> (\<exists>a. primary_addr info = Some a \<and> sa_plain a))"

text \<open>
  Operations within the contract of the log: a peer has an address, an identifier has 32 bytes, a
  record has a payload that fits the length field, and a hash map visits each of its keys.
\<close>

definition iter_ok :: "(peer_index \<Rightarrow> node_id list) \<Rightarrow> bool" where
  "iter_ok iter = (\<forall>m. finite (dom m) \<longrightarrow> set (iter m) = dom m)"

fun ps_op_ok :: "ps_op \<Rightarrow> bool" where
  "ps_op_ok (PsUpsert info) = has_addr info"
| "ps_op_ok (PsRemove i) = id_ok (nid i)"
| "ps_op_ok (PsAppend ty payload) = (ty = TYPE_RECORD \<and> length payload < 2 ^ 32)"
| "ps_op_ok PsFlush = True"
| "ps_op_ok (PsCompact iter records) = (iter_ok iter \<and> list_all (\<lambda>p. length p < 2 ^ 32) records)"

fun ps_logged :: "addr_text \<Rightarrow> ps_op \<Rightarrow> frame list" where
  "ps_logged t (PsUpsert info) = [(TYPE_UPSERT, peer_payload t info)]"
| "ps_logged t (PsRemove i) = [(TYPE_TOMBSTONE, nid i)]"
| "ps_logged t (PsAppend ty payload) = [(ty, payload)]"
| "ps_logged t PsFlush = []"
| "ps_logged t (PsCompact order records) = []"

lemmas ps_types = TYPE_UPSERT_def TYPE_TOMBSTONE_def TYPE_RECORD_def

lemma apply_frames_simps [simp]:
  "apply_frames t [] r = r"
  "apply_frames t ((ty, p) # fs) r = apply_frames t fs (peer_apply t r ty p)"
  "apply_frames t (fs @ gs) r = apply_frames t gs (apply_frames t fs r)"
  by (simp_all add: apply_frames_def)

lemma has_addrE:
  assumes "has_addr info" and "addr_text_ok t"
  obtains a where "primary_addr info = Some a" and "id_ok (nid (pi_id info))"
    and "at_parse t (at_print t a) = Some a" and "length (at_print t a) < 100"
  using assms by (auto simp: has_addr_def addr_text_ok_def)

lemma peer_apply_upsert:
  assumes "has_addr info" and "addr_text_ok t"
  shows "peer_apply t r TYPE_UPSERT (peer_payload t info)
    = r(pi_id info := map_option (peer_info_new (pi_id info)) (primary_addr info))"
proof -
  obtain a where "primary_addr info = Some a" "id_ok (nid (pi_id info))"
      "at_parse t (at_print t a) = Some a"
    using assms by (rule has_addrE)
  then show ?thesis
    by (simp add: peer_apply_def peer_payload_def id_ok_def ID_LEN_def Let_def)
qed

lemma peer_apply_remove:
  "id_ok (nid i) \<Longrightarrow> peer_apply t r TYPE_TOMBSTONE (nid i) = r(i := None)"
  by (simp add: peer_apply_def id_ok_def ID_LEN_def ps_types)

lemma peer_apply_record [simp]: "peer_apply t r TYPE_RECORD p = r"
  by (simp add: peer_apply_def ps_types)

lemma persist_upd: "persist (m(i \<mapsto> p)) = (persist m)(i := map_option (peer_info_new i) (primary_addr p))"
  "persist (m(i := None)) = (persist m)(i := None)"
  by (auto simp: persist_def)

lemma peer_frame_ok:
  assumes "has_addr info" and "addr_text_ok t"
  shows "frame_ok (ty, peer_payload t info)"
proof -
  obtain a where "primary_addr info = Some a" "id_ok (nid (pi_id info))"
      "length (at_print t a) < 100"
    using assms by (rule has_addrE)
  then show ?thesis
    by (simp add: frame_ok_def peer_payload_def id_ok_def ID_LEN_def)
qed

text \<open>Every operation within the contract logs frames that replay to its effect.\<close>

interpretation peer_log: log_state "\<lambda>ps op. fst (ps_step crc t (ps, d) op)" "\<lambda>ps. ps_logged t"
    "peer_apply t" "\<lambda>ps r. r = persist (ps_peers ps)" "\<lambda>ps op. addr_text_ok t \<and> ps_op_ok op"
  for crc t d
proof
  show "foldl (\<lambda>r (ty, p). peer_apply t r ty p) r (ps_logged t op)
      = persist (ps_peers (fst (ps_step crc t (ps, d) op)))"
    if "addr_text_ok t \<and> ps_op_ok op" "r = persist (ps_peers ps)" for ps op r
    using that by (cases op) (simp_all add: ps_upsert_def ps_remove_def ps_append_def ps_flush_def
        compact_with_records_def Let_def peer_apply_upsert peer_apply_remove persist_upd)
  show "list_all frame_ok (ps_logged t op)" if "addr_text_ok t \<and> ps_op_ok op" for ps :: peerstore and op
    using that by (cases op) (simp_all add: peer_frame_ok, simp_all add: frame_ok_def id_ok_def ID_LEN_def)
qed

text \<open>A frame sets one entry to a fixed value, or does nothing; so the rest of the index is kept.\<close>

lemma peer_apply_point: "\<exists>w. peer_apply t (r(k := v)) ty p = (peer_apply t r ty p)(k := w)"
proof -
  have "\<exists>w. (r(k := v))(j := x) = (r(j := x))(k := w)" for j x
    by (cases "j = k") (auto simp: fun_upd_twist)
  moreover have "\<exists>w. r(k := v) = r(k := w)" by blast
  ultimately show ?thesis
    unfolding peer_apply_def Let_def by (cases "at_parse t (drop 32 p)") simp_all
qed

lemma apply_frames_point: "\<exists>w. apply_frames t fs (r(k := v)) = (apply_frames t fs r)(k := w)"
proof (induction fs arbitrary: r v)
  case Nil
  then show ?case by auto
next
  case (Cons f fs)
  obtain ty p where f: "f = (ty, p)" by (cases f)
  obtain w where "peer_apply t (r(k := v)) ty p = (peer_apply t r ty p)(k := w)"
    using peer_apply_point by blast
  then have "apply_frames t (f # fs) (r(k := v)) = apply_frames t fs ((peer_apply t r ty p)(k := w))"
    by (simp only: f apply_frames_simps)
  with Cons.IH [of "peer_apply t r ty p" w] show ?case
    by (simp only: f apply_frames_simps)
qed

section \<open>The invariant of the store and its files\<close>

text \<open>
  The files hold complete frames; replaying them and then the pending frames gives the index in
  memory, and the pending frames do not change an index that already contains their effect.
\<close>

definition on_disk :: "(bytes \<Rightarrow> u32) \<Rightarrow> addr_text \<Rightarrow> disk \<Rightarrow> peer_index \<Rightarrow> bool" where
  "on_disk crc t d r = (\<exists>ss ws. list_all frame_ok ss \<and> list_all frame_ok ws
     \<and> (case snapshot_bin d of None \<Rightarrow> ss = [] | Some f \<Rightarrow> f = wal_bytes crc ss)
     \<and> wal_log d = Some (wal_bytes crc ws)
     \<and> r = apply_frames t ws (apply_frames t ss Map.empty))"

definition ps_inv :: "(bytes \<Rightarrow> u32) \<Rightarrow> addr_text \<Rightarrow> peerstore \<times> disk \<Rightarrow> bool" where
  "ps_inv crc t s = (case s of (ps, d) \<Rightarrow>
     addr_text_ok t \<and> ps_dir ps \<noteq> [] \<and> ps_wal ps \<and> finite (dom (ps_peers ps))
     \<and> (\<forall>i p. ps_peers ps i = Some p \<longrightarrow> pi_id p = i \<and> has_addr p)
     \<and> list_all frame_ok (ps_pending ps)
     \<and> apply_frames t (ps_pending ps) (persist (ps_peers ps)) = persist (ps_peers ps)
     \<and> (\<exists>r. on_disk crc t d r \<and> apply_frames t (ps_pending ps) r = persist (ps_peers ps)))"

lemma ps_replay_torn:
  "list_all frame_ok fs \<Longrightarrow> torn_tail crc tail \<Longrightarrow>
     ps_replay crc t r (wal_bytes crc fs @ tail) = apply_frames t fs r"
  by (simp add: ps_replay_def wal_replay_torn apply_frames_def)

lemma ps_replay_frames:
  "list_all frame_ok fs \<Longrightarrow> ps_replay crc t r (wal_bytes crc fs) = apply_frames t fs r"
  using ps_replay_torn [of fs crc "[]"] by simp

text \<open>The frames of a snapshot rebuild the index, in whatever order the peers are visited.\<close>

lemma snapshot_frames:
  assumes "addr_text_ok t" and "\<And>i p. m i = Some p \<Longrightarrow> pi_id p = i \<and> has_addr p"
  shows "apply_frames t (map (\<lambda>p. (TYPE_UPSERT, peer_payload t p)) (List.map_filter m order)) r
    = (\<lambda>i. if i \<in> set order \<and> m i \<noteq> None then persist m i else r i)"
proof (induction order arbitrary: r)
  case Nil
  then show ?case by (simp add: map_filter_simps)
next
  case (Cons i order)
  show ?case
  proof (cases "m i")
    case None
    with Cons show ?thesis by (auto simp: map_filter_simps fun_eq_iff)
  next
    case (Some p)
    then have "pi_id p = i" "has_addr p"
      using assms(2) by auto
    with Some Cons.IH peer_apply_upsert [OF _ assms(1), of p] show ?thesis
      by (auto simp: map_filter_simps fun_eq_iff persist_def)
  qed
qed

lemma snapshot_frames_all:
  assumes "addr_text_ok t" and "\<And>i p. m i = Some p \<Longrightarrow> pi_id p = i \<and> has_addr p"
    and "set order = dom m"
  shows "apply_frames t (map (\<lambda>p. (TYPE_UPSERT, peer_payload t p)) (List.map_filter m order)) Map.empty
    = persist m"
  using snapshot_frames [OF assms(1,2), of m order Map.empty] assms(3)
  by (auto simp: fun_eq_iff persist_def dom_def)

lemma record_frames [simp]: "apply_frames t (map (\<lambda>p. (TYPE_RECORD, p)) records) r = r"
  by (induction records arbitrary: r) simp_all

lemma ps_inv_logged:
  assumes inv: "ps_inv crc t (ps, d)" and ok: "ps_op_ok op"
    and frame: "ps_logged t op = [f]" and pend: "ps_pending ps' = ps_pending ps @ [f]"
    and peers: "persist (ps_peers ps') = apply_frames t [f] (persist (ps_peers ps))"
    and same: "ps_dir ps' = ps_dir ps" "ps_wal ps' = ps_wal ps" "finite (dom (ps_peers ps'))"
    and wf: "\<forall>i p. ps_peers ps' i = Some p \<longrightarrow> pi_id p = i \<and> has_addr p"
    and fixed: "\<And>r. apply_frames t [f] (apply_frames t (ps_pending ps) (apply_frames t [f] r))
      = apply_frames t [f] (apply_frames t (ps_pending ps) r)"
  shows "ps_inv crc t (ps', d)"
proof -
  have t: "addr_text_ok t" and i2: "apply_frames t (ps_pending ps) (persist (ps_peers ps)) = persist (ps_peers ps)"
    and fok: "list_all frame_ok (ps_pending ps)"
    using inv by (simp_all add: ps_inv_def)
  have f: "frame_ok f"
    using peer_log.logged_ok [of t op] t ok frame by simp
  have "apply_frames t (ps_pending ps') (persist (ps_peers ps')) = persist (ps_peers ps')"
    using fixed [of "persist (ps_peers ps)"] i2 unfolding pend peers apply_frames_simps(3) by simp
  moreover have "apply_frames t (ps_pending ps') x = persist (ps_peers ps')"
    if "apply_frames t (ps_pending ps) x = persist (ps_peers ps)" for x
    unfolding pend peers apply_frames_simps(3) that ..
  ultimately have "\<exists>r. on_disk crc t d r \<and> apply_frames t (ps_pending ps') r = persist (ps_peers ps')"
      "apply_frames t (ps_pending ps') (persist (ps_peers ps')) = persist (ps_peers ps')"
    using inv by (auto simp: ps_inv_def simp del: apply_frames_simps)
  then show ?thesis
    using inv f fok t same wf unfolding ps_inv_def by (simp add: pend)
qed

text \<open>A frame that sets an entry overrides whatever earlier frames did to that entry.\<close>

lemma set_frame_fixed:
  assumes "\<And>r. peer_apply t r ty p = r(k := v)"
  shows "apply_frames t [(ty, p)] (apply_frames t fs (apply_frames t [(ty, p)] r))
    = apply_frames t [(ty, p)] (apply_frames t fs r)"
proof -
  obtain w where "apply_frames t fs (r(k := v)) = (apply_frames t fs r)(k := w)"
    using apply_frames_point by blast
  then show ?thesis
    by (simp add: assms)
qed

lemma on_disk_flush:
  assumes "on_disk crc t d r" and "list_all frame_ok fs"
  shows "on_disk crc t (d\<lparr>wal_log := Some ((case wal_log d of None \<Rightarrow> [] | Some f \<Rightarrow> f) @ wal_bytes crc fs)\<rparr>)
    (apply_frames t fs r)"
proof -
  obtain ss ws where "list_all frame_ok ss" "list_all frame_ok ws"
      "case snapshot_bin d of None \<Rightarrow> ss = [] | Some f \<Rightarrow> f = wal_bytes crc ss"
      "wal_log d = Some (wal_bytes crc ws)" "r = apply_frames t ws (apply_frames t ss Map.empty)"
    using assms(1) by (auto simp: on_disk_def)
  with assms(2) show ?thesis
    unfolding on_disk_def by (intro exI [of _ ss] exI [of _ "ws @ fs"]) simp
qed

lemma ps_inv_flush: "ps_inv crc t (ps, d) \<Longrightarrow> ps_inv crc t (ps_flush crc ps d)"
  using on_disk_flush [of crc t d] by (fastforce simp: ps_inv_def ps_flush_def)

lemma ps_inv_compact:
  assumes inv: "ps_inv crc t (ps, d)" and ok: "ps_op_ok (PsCompact iter records)"
  shows "ps_inv crc t (compact_with_records crc t (iter (ps_peers ps)) records ps d)"
proof -
  let ?m = "ps_peers ps"
  let ?us = "map (\<lambda>p. (TYPE_UPSERT, peer_payload t p)) (List.map_filter ?m (iter ?m))"
  let ?rs = "map (\<lambda>p. (TYPE_RECORD, p)) records"
  have wf: "\<And>i p. ?m i = Some p \<Longrightarrow> pi_id p = i \<and> has_addr p" and t: "addr_text_ok t"
    and i2: "apply_frames t (ps_pending ps) (persist ?m) = persist ?m"
    and fin: "finite (dom ?m)"
    using inv by (auto simp: ps_inv_def)
  have "set (iter ?m) = dom ?m"
    using ok fin by (simp add: iter_ok_def)
  then have snap: "apply_frames t ?us Map.empty = persist ?m"
    using snapshot_frames_all [OF t wf] by blast
  have "has_addr p" if "p \<in> set (List.map_filter ?m xs)" for p xs
    using that wf by (induction xs) (auto simp: map_filter_simps split: option.splits)
  then have us: "list_all frame_ok ?us"
    using peer_frame_ok [OF _ t] by (auto simp: list_all_iff)
  have rs: "list_all frame_ok ?rs"
    using ok by (simp add: list_all_iff frame_ok_def)
  have "on_disk crc t (d\<lparr>snapshot_bin := Some (wal_bytes crc ?us @ wal_bytes crc ?rs), wal_log := Some []\<rparr>)
      (persist ?m)"
    unfolding on_disk_def using us rs snap by (intro exI [of _ "?us @ ?rs"] exI [of _ "[]"]) simp
  with inv i2 show ?thesis
    by (auto simp: ps_inv_def compact_with_records_def Let_def)
qed

interpretation ps_machine: inv_machine "ps_step crc t" "ps_inv crc t" ps_op_ok for crc t
proof
  fix s op assume inv: "ps_inv crc t s" and ok: "ps_op_ok op"
  obtain ps d where s: "s = (ps, d)" by (cases s)
  have t: "addr_text_ok t"
    and wf: "\<And>i p. ps_peers ps i = Some p \<Longrightarrow> pi_id p = i \<and> has_addr p" "finite (dom (ps_peers ps))"
    using inv by (auto simp: s ps_inv_def)
  show "ps_inv crc t (ps_step crc t s op)"
  proof (cases op)
    case (PsUpsert info)
    then have a: "peer_apply t r TYPE_UPSERT (peer_payload t info)
        = r(pi_id info := map_option (peer_info_new (pi_id info)) (primary_addr info))" for r
      using ok t by (simp add: peer_apply_upsert)
    show ?thesis
      using inv ok wf a set_frame_fixed [OF a] PsUpsert unfolding s
      by (auto intro!: ps_inv_logged [of crc t ps d op] simp: ps_upsert_def persist_upd split: if_splits)
  next
    case (PsRemove i)
    then have a: "peer_apply t r TYPE_TOMBSTONE (nid i) = r(i := None)" for r
      using ok by (simp add: peer_apply_remove)
    show ?thesis
      using inv ok wf a set_frame_fixed [OF a] PsRemove unfolding s
      by (auto intro!: ps_inv_logged [of crc t ps d op] simp: ps_remove_def persist_upd split: if_splits)
  next
    case (PsAppend ty payload)
    then show ?thesis
      using inv ok wf unfolding s
      by (auto intro!: ps_inv_logged [of crc t ps d op] simp: ps_append_def)
  next
    case PsFlush
    then show ?thesis
      using inv by (simp add: s ps_inv_flush)
  next
    case (PsCompact iter records)
    then show ?thesis
      using inv ok ps_inv_compact [of crc t ps d iter records] by (simp add: s)
  qed
qed

definition empty_disk :: disk where
  "empty_disk = \<lparr>snapshot_bin = None, wal_log = None\<rparr>"

lemma ps_inv_open:
  assumes "addr_text_ok t" and "dir \<noteq> []"
  shows "ps_inv crc t (ps_open crc t dir empty_disk)"
  using assms by (auto simp: ps_inv_def on_disk_def ps_open_def ps_recover_def empty_disk_def Let_def
      persist_def intro!: exI [of _ "[]"])

lemma ps_open_recovers:
  assumes inv: "ps_inv crc t (ps, d)" and "ps_pending ps = []" and torn: "torn_tail crc tail"
  shows "ps_peers (fst (ps_open crc t dir (d\<lparr>wal_log := map_option (\<lambda>w. w @ tail) (wal_log d)\<rparr>)))
    = persist (ps_peers ps)"
proof -
  obtain ss ws where f: "list_all frame_ok ss" "list_all frame_ok ws"
      "case snapshot_bin d of None \<Rightarrow> ss = [] | Some f \<Rightarrow> f = wal_bytes crc ss"
      "wal_log d = Some (wal_bytes crc ws)"
      "apply_frames t ws (apply_frames t ss Map.empty) = persist (ps_peers ps)"
    using inv assms(2) by (auto simp: ps_inv_def on_disk_def)
  have "(case snapshot_bin d of Some f \<Rightarrow> ps_replay crc t Map.empty f | None \<Rightarrow> Map.empty)
      = apply_frames t ss Map.empty"
    using f(1,3) by (cases "snapshot_bin d") (simp_all add: ps_replay_frames)
  with f show ?thesis
    by (simp add: ps_open_def ps_recover_def Let_def ps_replay_torn [OF f(2) torn] cong: option.case_cong)
qed

text \<open>A store that was closed in good order can be opened again.\<close>

lemma primary_new [simp]: "pi_id (peer_info_new i a) = i" "primary_addr (peer_info_new i a) = Some a"
  by (simp_all add: peer_info_new_def primary_addr_def try_push_def)

lemma persist_SomeE:
  assumes "persist m i = Some p"
  obtains q a where "m i = Some q" "primary_addr q = Some a" "p = peer_info_new i a"
  using assms by (auto simp: persist_def split: option.splits)

lemma persist_good:
  assumes "\<And>i p. m i = Some p \<Longrightarrow> pi_id p = i \<and> has_addr p" "persist m i = Some p"
  shows "pi_id p = i \<and> has_addr p"
proof -
  obtain q a where q: "m i = Some q" "primary_addr q = Some a" "p = peer_info_new i a"
    using assms(2) by (rule persist_SomeE)
  then show ?thesis
    using assms(1) [OF q(1)] by (auto simp: has_addr_def)
qed

lemma persist_persist: "persist (persist m) = persist m"
proof
  fix i
  show "persist (persist m) i = persist m i"
    by (cases "m i"; cases "Option.bind (m i) primary_addr") (auto simp: persist_def)
qed

lemma ps_inv_reopen:
  assumes inv: "ps_inv crc t (ps, d)" and "ps_pending ps = []" and "dir \<noteq> []"
  shows "ps_inv crc t (ps_open crc t dir d)"
proof -
  have good: "\<And>i p. ps_peers ps i = Some p \<Longrightarrow> pi_id p = i \<and> has_addr p" and t: "addr_text_ok t"
    and fin: "finite (dom (ps_peers ps))" and disk: "on_disk crc t d (persist (ps_peers ps))"
    using inv assms(2) by (auto simp: ps_inv_def)
  obtain w where w: "wal_log d = Some w"
    using disk by (auto simp: on_disk_def)
  from ps_open_recovers [OF inv assms(2) torn_tail_Nil, of dir] w
  have "ps_peers (fst (ps_open crc t dir d)) = persist (ps_peers ps)"
    by (simp add: ps_open_def ps_recover_def Let_def)
  then have o: "ps_open crc t dir d = (\<lparr>ps_dir = dir, ps_peers = persist (ps_peers ps), ps_pending = [], ps_wal = True\<rparr>, d)"
    using w by (simp add: ps_open_def ps_recover_def Let_def)
  have "dom (persist (ps_peers ps)) \<subseteq> dom (ps_peers ps)"
    by (auto simp: persist_def split: option.splits)
  then have "finite (dom (persist (ps_peers ps)))"
    using fin by (rule finite_subset)
  then show ?thesis
    using t assms(3) disk persist_good [OF good] persist_persist by (auto simp: ps_inv_def o)
qed

text \<open>The disk after a number of sessions, each of which ended with a flush.\<close>

fun ps_sessions :: "(bytes \<Rightarrow> u32) \<Rightarrow> addr_text \<Rightarrow> string \<Rightarrow> disk \<Rightarrow> ps_op list list \<Rightarrow> disk" where
  "ps_sessions crc t dir d [] = d"
| "ps_sessions crc t dir d (ops # later) =
     ps_sessions crc t dir (snd (foldl (ps_step crc t) (ps_open crc t dir d) (ops @ [PsFlush]))) later"

lemma ps_session_inv:
  assumes "ps_inv crc t (ps_open crc t dir d)" "list_all ps_op_ok ops"
    "foldl (ps_step crc t) (ps_open crc t dir d) (ops @ [PsFlush]) = (ps, d')"
  shows "ps_inv crc t (ps, d')" "ps_pending ps = []"
proof -
  show "ps_inv crc t (ps, d')"
    using ps_machine.run_inv [OF assms(1), of "ops @ [PsFlush]"] assms(2,3) by simp
  obtain ps0 d0 where "ps_flush crc ps0 d0 = (ps, d')"
    using assms(3) by (cases "foldl (ps_step crc t) (ps_open crc t dir d) ops") simp
  then show "ps_pending ps = []"
    by (auto simp: ps_flush_def split: if_splits)
qed

lemma ps_sessions_inv:
  assumes "ps_inv crc t (ps_open crc t dir d)" "dir \<noteq> []" "list_all (list_all ps_op_ok) before"
  shows "ps_inv crc t (ps_open crc t dir (ps_sessions crc t dir d before))"
  using assms(1,3)
proof (induction before arbitrary: d)
  case (Cons ops before)
  obtain ps d' where run: "foldl (ps_step crc t) (ps_open crc t dir d) (ops @ [PsFlush]) = (ps, d')"
    by (rule prod.exhaust)
  have ok: "list_all ps_op_ok ops" "list_all (list_all ps_op_ok) before"
    using Cons.prems(2) by simp_all
  have "ps_inv crc t (ps_open crc t dir d')"
    using ps_session_inv [OF Cons.prems(1) ok(1) run] assms(2) by (rule ps_inv_reopen)
  from Cons.IH [OF this ok(2)] run show ?case
    by simp
qed simp

section \<open>A concrete textual form\<close>

fun demo_addr_print :: "socket_addr \<Rightarrow> bytes" where
  "demo_addr_print (AddrV4 a b c d p) = [4, a, b, c, d] @ to_be_bytes p"
| "demo_addr_print (AddrV6 o6 p f s) = [6] @ take 16 o6 @ to_be_bytes p @ to_be_bytes s"

definition demo_addr_parse :: "bytes \<Rightarrow> socket_addr option" where
  "demo_addr_parse bs =
     (if length bs = 7 \<and> bs ! 0 = 4
      then Some (AddrV4 (bs ! 1) (bs ! 2) (bs ! 3) (bs ! 4) (from_be_bytes (drop 5 bs)))
      else if length bs = 23 \<and> bs ! 0 = 6
      then Some (AddrV6 (take 16 (drop 1 bs)) (from_be_bytes (take 2 (drop 17 bs))) 0 (from_be_bytes (drop 19 bs)))
      else None)"

definition demo_addr_text :: addr_text where
  "demo_addr_text = \<lparr>at_print = demo_addr_print, at_parse = demo_addr_parse\<rparr>"

lemma demo_addr_text_ok: "addr_text_ok demo_addr_text"
proof -
  have u16: "from_be_bytes (to_be_bytes w) = w" for w :: u16
    by (rule from_to_be_bytes) simp
  have "demo_addr_parse (demo_addr_print a) = Some a \<and> length (demo_addr_print a) < 100" if "sa_plain a" for a
    using that by (cases a) (auto simp: demo_addr_parse_def u16)
  then show ?thesis
    by (simp add: addr_text_ok_def demo_addr_text_def)
qed

section \<open>Properties\<close>

text \<open>
  C6. A directory that was new at first and has been used by any number of sessions since, each closed
  with a flush and without a crash, gives back after one more session and a flush every peer with its
  primary address and no other peer, even if a crash then left a torn frame at the end of the log.
  The sessions may be any sequences of updates, removals, logged records, flushes and compactions,
  as long as identifiers have 32 bytes and every peer that is put in has an address (an IPv6 address
  without a flow label, which its text would not keep).
\<close>

theorem peerstore_recovery:
  assumes "addr_text_ok t" and "dir \<noteq> []" and "list_all (list_all ps_op_ok) before" and "list_all ps_op_ok ops"
    and "torn_tail crc tail"
    and "foldl (ps_step crc t) (ps_open crc t dir (ps_sessions crc t dir empty_disk before)) (ops @ [PsFlush]) = (ps, d)"
  shows "ps_peers (fst (ps_open crc t dir (d\<lparr>wal_log := map_option (\<lambda>w. w @ tail) (wal_log d)\<rparr>)))
    = persist (ps_peers ps)"
  using ps_session_inv [OF ps_sessions_inv [OF ps_inv_open [OF assms(1,2)] assms(2,3)] assms(4,6)] assms(5)
  by (rule ps_open_recovers)

theorem peerstore_recovery_witness:
  "let p = (\<lambda>n. peer_info_new (NodeId (replicate 32 n)) (AddrV4 127 0 0 1 77));
       (ps, d) = foldl (ps_step (\<lambda>_. 7) demo_addr_text)
           (ps_open (\<lambda>_. 7) demo_addr_text ''shard-0'' (ps_sessions (\<lambda>_. 7) demo_addr_text ''shard-0'' empty_disk [[PsUpsert (p 8)]]))
           ([PsUpsert (p 9)] @ [PsFlush])
   in ps_peers (fst (ps_open (\<lambda>_. 7) demo_addr_text ''shard-0''
        (d\<lparr>wal_log := map_option (\<lambda>w. w @ [0, 0, 0]) (wal_log d)\<rparr>))) = persist (ps_peers ps)"
proof -
  let ?p = "\<lambda>n. peer_info_new (NodeId (replicate 32 n)) (AddrV4 127 0 0 1 77)"
  obtain ps d where run: "foldl (ps_step (\<lambda>_. 7) demo_addr_text)
      (ps_open (\<lambda>_. 7) demo_addr_text ''shard-0'' (ps_sessions (\<lambda>_. 7) demo_addr_text ''shard-0'' empty_disk [[PsUpsert (?p 8)]]))
      ([PsUpsert (?p 9)] @ [PsFlush]) = (ps, d)"
    by (rule prod.exhaust)
  have "[0, 0, 0] = take 3 (write_frame (\<lambda>_. 7) 0 [])"
    by code_simp
  then have "torn_tail (\<lambda>_. 7) [0, 0, 0]"
    unfolding torn_tail_def
    by (intro exI [of _ 0] exI [of _ "[]"] exI [of _ 3]) simp
  moreover have "ps_op_ok (PsUpsert (?p n))" for n
    by (simp add: has_addr_def peer_info_new_def primary_addr_def try_push_def id_ok_def ID_LEN_def)
  ultimately show ?thesis
    using peerstore_recovery [OF demo_addr_text_ok _ _ _ _ run, of "[0, 0, 0]"] run by (simp add: Let_def del: ps_sessions.simps)
qed

end
