(* ===== verification/Crypto.thy ===== *)
theory Crypto
  imports Types
begin

text \<open>
  \<^verbatim>\<open>src/crypto.rs\<close>: identities, the derivation of identifiers and keys, the signed forms of records
  and of the WireGuard binding, and the proofs of work. BLAKE3, Ed25519, X25519, the hex and the
  JSON codec are libraries: their functions are the fields of \<open>crypto\<close>, a parameter of every
  definition that uses them, and \<open>crypto_ok\<close> collects what their documentation promises (digest
  and key lengths, a signature verifies under the matching public key, decoding inverts
  encoding). No assumption on collisions or forgery is made.
\<close>

section \<open>The libraries\<close>

record identity_file =
  file_version :: u32
  file_ed25519_seed :: string
  file_x25519_secret :: string
  file_ed25519_pubkey :: string
  file_x25519_pubkey :: string
  file_node_id :: string

record crypto =
  blake3 :: "bytes \<Rightarrow> bytes" \<comment> \<open>the digest; \<^verbatim>\<open>Hasher::update\<close> appends to the input\<close>
  ed_public :: "bytes \<Rightarrow> bytes" \<comment> \<open>\<^verbatim>\<open>PublicKey::from(&SecretKey)\<close>\<close>
  ed_sign :: "bytes \<Rightarrow> bytes \<Rightarrow> bytes \<Rightarrow> bytes" \<comment> \<open>\<^verbatim>\<open>Keypair::sign\<close>: seed, public key, message\<close>
  ed_pk_ok :: "bytes \<Rightarrow> bool" \<comment> \<open>\<^verbatim>\<open>PublicKey::from_bytes\<close> succeeds\<close>
  ed_sig_ok :: "bytes \<Rightarrow> bool" \<comment> \<open>\<^verbatim>\<open>Signature::from_bytes\<close> succeeds\<close>
  ed_verify :: "bytes \<Rightarrow> bytes \<Rightarrow> bytes \<Rightarrow> bool"
  x_secret :: "bytes \<Rightarrow> bytes" \<comment> \<open>\<^verbatim>\<open>StaticSecret::from\<close>\<close>
  x_public :: "bytes \<Rightarrow> bytes"
  hex_encode :: "bytes \<Rightarrow> string"
  hex_decode :: "string \<Rightarrow> bytes option"
  json_print :: "identity_file \<Rightarrow> string"
  json_parse :: "string \<Rightarrow> identity_file option"

definition crypto_ok :: "crypto \<Rightarrow> bool" where
  "crypto_ok c =
     ((\<forall>m. length (blake3 c m) = 32)
      \<and> (\<forall>seed m. length seed = 32 \<longrightarrow> length (ed_public c seed) = 32 \<and> ed_pk_ok c (ed_public c seed)
            \<and> length (ed_sign c seed (ed_public c seed) m) = 64
            \<and> ed_sig_ok c (ed_sign c seed (ed_public c seed) m)
            \<and> ed_verify c (ed_public c seed) m (ed_sign c seed (ed_public c seed) m))
      \<and> (\<forall>s. length (x_secret c s) = length s \<and> x_secret c (x_secret c s) = x_secret c s)
      \<and> (\<forall>b. hex_decode c (hex_encode c b) = Some b)
      \<and> (\<forall>f. json_parse c (json_print c f) = Some f))"

section \<open>Identities\<close>

record keypair =
  kp_secret :: bytes
  kp_public :: bytes

record identity =
  signing :: keypair
  wg_secret :: bytes

text \<open>\<^verbatim>\<open>generate\<close>: the two arguments are the bytes drawn from the operating system.\<close>

definition identity_generate :: "crypto \<Rightarrow> bytes \<Rightarrow> bytes \<Rightarrow> identity" where
  "identity_generate c seed wg =
     \<lparr>signing = \<lparr>kp_secret = seed, kp_public = ed_public c seed\<rparr>, wg_secret = x_secret c wg\<rparr>"

definition verifying_key :: "identity \<Rightarrow> bytes" where
  "verifying_key i = kp_public (signing i)"

definition node_id_from_pubkey :: "crypto \<Rightarrow> bytes \<Rightarrow> node_id" where
  "node_id_from_pubkey c ed25519_pk = NodeId (blake3 c ed25519_pk)"

definition identity_node_id :: "crypto \<Rightarrow> identity \<Rightarrow> node_id" where
  "identity_node_id c i = node_id_from_pubkey c (verifying_key i)"

definition wg_public :: "crypto \<Rightarrow> identity \<Rightarrow> bytes" where
  "wg_public c i = x_public c (wg_secret i)"

text \<open>The ASCII bytes of \<^verbatim>\<open>molia-wg-bind-v1\<close>.\<close>

definition binding_prefix :: bytes where
  "binding_prefix = [109, 111, 108, 105, 97, 45, 119, 103, 45, 98, 105, 110, 100, 45, 118, 49]"

definition binding_message :: "bytes \<Rightarrow> bytes \<Rightarrow> bytes" where
  "binding_message ed25519_pk x25519_pk = binding_prefix @ ed25519_pk @ x25519_pk"

definition sign_with :: "crypto \<Rightarrow> keypair \<Rightarrow> bytes \<Rightarrow> bytes" where
  "sign_with c kp m = ed_sign c (kp_secret kp) (kp_public kp) m"

definition binding_signature :: "crypto \<Rightarrow> identity \<Rightarrow> bytes" where
  "binding_signature c i =
     sign_with c (signing i) (binding_message (verifying_key i) (wg_public c i))"

definition identity_to_bytes :: "identity \<Rightarrow> bytes" where
  "identity_to_bytes i = kp_secret (signing i) @ wg_secret i"

definition identity_from_bytes :: "crypto \<Rightarrow> bytes \<Rightarrow> identity option" where
  "identity_from_bytes c bs =
     (let secret = take 32 bs
      in Some \<lparr>signing = \<lparr>kp_secret = secret, kp_public = ed_public c secret\<rparr>,
               wg_secret = x_secret c (drop 32 bs)\<rparr>)"

definition identity_to_json :: "crypto \<Rightarrow> identity \<Rightarrow> string" where
  "identity_to_json c i =
     json_print c \<lparr>file_version = 1,
       file_ed25519_seed = hex_encode c (kp_secret (signing i)),
       file_x25519_secret = hex_encode c (wg_secret i),
       file_ed25519_pubkey = hex_encode c (verifying_key i),
       file_x25519_pubkey = hex_encode c (wg_public c i),
       file_node_id = hex_encode c (nid (identity_node_id c i))\<rparr>"

definition identity_from_json :: "crypto \<Rightarrow> string \<Rightarrow> identity option" where
  "identity_from_json c text =
     (case json_parse c text of None \<Rightarrow> None
      | Some file \<Rightarrow>
        (case hex_decode c (file_ed25519_seed file) of None \<Rightarrow> None
         | Some seed \<Rightarrow>
           (case hex_decode c (file_x25519_secret file) of None \<Rightarrow> None
            | Some wg \<Rightarrow>
                if length seed \<noteq> 32 \<or> length wg \<noteq> 32 then None
                else identity_from_bytes c (seed @ wg))))"

text \<open>
  \<^verbatim>\<open>load_or_generate\<close>: the contents of the file and of the legacy \<^verbatim>\<open>.bin\<close> file (\<open>None\<close> when it
  cannot be read), whether the legacy path is a different one, and the identity that a fresh
  generation would give. The result is the identity and the text it saves, if any.
\<close>

definition load_or_generate ::
    "crypto \<Rightarrow> string option \<Rightarrow> bool \<Rightarrow> bytes option \<Rightarrow> identity \<Rightarrow> identity \<times> string option" where
  "load_or_generate c text legacy_differs raw fresh =
     (case Option.bind text (identity_from_json c) of
        Some i \<Rightarrow> (i, None)
      | None \<Rightarrow>
          (case (if legacy_differs then Option.bind raw (\<lambda>r. if length r = 64
                    then identity_from_bytes c r else None) else None) of
             Some i \<Rightarrow> (i, Some (identity_to_json c i))
           | None \<Rightarrow> (fresh, Some (identity_to_json c fresh))))"

section \<open>Keys and records\<close>

definition hash_value :: "crypto \<Rightarrow> bytes \<Rightarrow> key" where
  "hash_value c value = Key (blake3 c value)"

definition mutable_key :: "crypto \<Rightarrow> bytes \<Rightarrow> bytes \<Rightarrow> bytes \<Rightarrow> key" where
  "mutable_key c owner_pubkey namespace salt = Key (blake3 c (owner_pubkey @ namespace @ salt))"

definition verify_binding :: "crypto \<Rightarrow> bytes \<Rightarrow> bytes \<Rightarrow> bytes \<Rightarrow> bool" where
  "verify_binding c ed25519_pk x25519_pk sig =
     (length ed25519_pk = 32 \<and> ed_pk_ok c ed25519_pk \<and> ed_sig_ok c sig
      \<and> ed_verify c ed25519_pk (binding_message ed25519_pk x25519_pk) sig)"

definition record_bytes :: "key \<Rightarrow> bytes \<Rightarrow> u64 \<Rightarrow> u64 \<Rightarrow> u64 \<Rightarrow> bytes" where
  "record_bytes k value sequence ttl nb =
     kbytes k @ value @ to_be_bytes sequence @ to_be_bytes ttl @ to_be_bytes nb"

definition sign_record :: "crypto \<Rightarrow> keypair \<Rightarrow> key \<Rightarrow> bytes \<Rightarrow> u64 \<Rightarrow> u64 \<Rightarrow> u64 \<Rightarrow> bytes" where
  "sign_record c kp k value sequence ttl nb = sign_with c kp (record_bytes k value sequence ttl nb)"

definition verify_record :: "crypto \<Rightarrow> bytes \<Rightarrow> key \<Rightarrow> bytes \<Rightarrow> u64 \<Rightarrow> u64 \<Rightarrow> u64 \<Rightarrow> bytes \<Rightarrow> bool" where
  "verify_record c owner_pk k value sequence ttl nb sig =
     (length owner_pk = 32 \<and> ed_pk_ok c owner_pk \<and> ed_sig_ok c sig
      \<and> ed_verify c owner_pk (record_bytes k value sequence ttl nb) sig)"

section \<open>Proofs of work\<close>

fun leading_zero_bits :: "bytes \<Rightarrow> nat" where
  "leading_zero_bits [] = 0"
| "leading_zero_bits (b # bs) = (if b = 0 then 8 + leading_zero_bits bs else leading_zeros b)"

definition verify_ephemeral_pow :: "crypto \<Rightarrow> bytes \<Rightarrow> bytes \<Rightarrow> u8 \<Rightarrow> bool" where
  "verify_ephemeral_pow c ephemeral_pub nonce difficulty_bits =
     (leading_zero_bits (blake3 c (ephemeral_pub @ nonce)) \<ge> unat difficulty_bits)"

text \<open>
  The search draws secrets from the operating system: \<open>rng i\<close> is the \<open>i\<close>-th draw. It may run
  forever, so its result is an option.
\<close>

partial_function (option) solve_ephemeral_pow ::
    "crypto \<Rightarrow> (nat \<Rightarrow> bytes) \<Rightarrow> nat \<Rightarrow> bytes \<Rightarrow> u8 \<Rightarrow> (bytes \<times> bytes) option" where
  "solve_ephemeral_pow c rng i nonce difficulty_bits =
     (let sk = x_secret c (rng i); pk = x_public c sk
      in if verify_ephemeral_pow c pk nonce difficulty_bits then Some (sk, pk)
         else if difficulty_bits = 0 then Some (sk, pk)
         else solve_ephemeral_pow c rng (Suc i) nonce difficulty_bits)"

definition cost_stamp :: "crypto \<Rightarrow> key \<Rightarrow> bytes \<Rightarrow> bytes \<Rightarrow> bytes" where
  "cost_stamp c k salt nonce = blake3 c (kbytes k @ salt @ nonce)"

definition verify_cost_stamp :: "crypto \<Rightarrow> key \<Rightarrow> bytes \<Rightarrow> bytes \<Rightarrow> u8 \<Rightarrow> bool" where
  "verify_cost_stamp c k salt nonce difficulty_bits =
     (leading_zero_bits (cost_stamp c k salt nonce) \<ge> unat difficulty_bits)"

section \<open>A concrete instance\<close>

text \<open>
  Functions that satisfy \<open>crypto_ok\<close>: a digest that pads to 32 bytes, signatures that carry a padded
  copy of the public key and the message, and self-delimiting text for the identity file. They
  show that the assumptions on the libraries can hold.
\<close>

definition pad :: "nat \<Rightarrow> bytes \<Rightarrow> bytes" where
  "pad n bs = take n (bs @ replicate n 0)"

definition chars_of :: "bytes \<Rightarrow> string" where
  "chars_of bs = map (\<lambda>b. char_of (unat b)) bs"

definition of_chars :: "string \<Rightarrow> bytes" where
  "of_chars s = map (\<lambda>x. of_nat (of_char x)) s"

fun quote :: "string \<Rightarrow> string" where
  "quote [] = ''b''"
| "quote (x # xs) = CHR ''a'' # x # quote xs"

fun unquote :: "string \<Rightarrow> (string \<times> string) option" where
  "unquote (m # x # r) =
     (if m = CHR ''b'' then Some ([], x # r)
      else map_option (\<lambda>(s, r'). (x # s, r')) (unquote r))"
| "unquote [m] = (if m = CHR ''b'' then Some ([], []) else None)"
| "unquote [] = None"

definition demo_print :: "identity_file \<Rightarrow> string" where
  "demo_print f = quote (chars_of (to_be_bytes (file_version f)))
     @ quote (file_ed25519_seed f) @ quote (file_x25519_secret f)
     @ quote (file_ed25519_pubkey f) @ quote (file_x25519_pubkey f) @ quote (file_node_id f)"

definition demo_parse :: "string \<Rightarrow> identity_file option" where
  "demo_parse t =
     (case unquote t of None \<Rightarrow> None | Some (v, t1) \<Rightarrow>
     (case unquote t1 of None \<Rightarrow> None | Some (a, t2) \<Rightarrow>
     (case unquote t2 of None \<Rightarrow> None | Some (b, t3) \<Rightarrow>
     (case unquote t3 of None \<Rightarrow> None | Some (d, t4) \<Rightarrow>
     (case unquote t4 of None \<Rightarrow> None | Some (e, t5) \<Rightarrow>
     (case unquote t5 of None \<Rightarrow> None | Some (g, t6) \<Rightarrow>
        Some \<lparr>file_version = from_be_bytes (of_chars v), file_ed25519_seed = a,
              file_x25519_secret = b, file_ed25519_pubkey = d, file_x25519_pubkey = e,
              file_node_id = g\<rparr>))))))"

definition demo_crypto :: crypto where
  "demo_crypto =
     \<lparr>blake3 = pad 32, ed_public = (\<lambda>seed. seed),
      ed_sign = (\<lambda>seed pk m. pad 64 (pk @ m)), ed_pk_ok = (\<lambda>pk. length pk = 32),
      ed_sig_ok = (\<lambda>s. length s = 64), ed_verify = (\<lambda>pk m s. s = pad 64 (pk @ m)),
      x_secret = (\<lambda>s. s), x_public = (\<lambda>s. s), hex_encode = chars_of,
      hex_decode = (\<lambda>s. Some (of_chars s)), json_print = demo_print, json_parse = demo_parse\<rparr>"

lemma chars_of_chars [simp]: "chars_of (of_chars s) = s"
proof -
  have "unat (of_nat (of_char x) :: u8) = (of_char x :: nat)" for x
    using nat_of_char_less_256 [of x] by (simp add: unat_of_nat)
  then show ?thesis
    by (simp add: chars_of_def of_chars_def comp_def)
qed

lemma of_chars_inj [simp]: "of_chars s = of_chars t \<longleftrightarrow> s = t"
  by (metis chars_of_chars)

lemma of_chars_of [simp]: "of_chars (chars_of bs) = bs"
proof -
  have "of_nat (of_char (char_of (unat b) :: char)) = b" for b :: u8
    by (simp add: take_bit_eq_mod)
  then show ?thesis
    by (simp add: of_chars_def chars_of_def map_idI)
qed

lemma unquote_quote [simp]: "unquote (quote s @ r) = Some (s, r)"
proof (induction s arbitrary: r)
  case Nil
  then show ?case by (cases r) auto
next
  case (Cons x s)
  then show ?case by simp
qed

lemma unquote_quote_last [simp]: "unquote (quote s) = Some (s, [])"
  using unquote_quote [of s "[]"] by simp

lemma length_pad [simp]: "length (pad n bs) = n"
  by (simp add: pad_def)

lemma demo_crypto_ok: "crypto_ok demo_crypto"
  by (simp add: crypto_ok_def demo_crypto_def demo_print_def demo_parse_def)

section \<open>Lemmas\<close>

lemma crypto_okD:
  assumes "crypto_ok c"
  shows "length (blake3 c m) = 32"
    and "length seed = 32 \<Longrightarrow> length (ed_public c seed) = 32 \<and> ed_pk_ok c (ed_public c seed)
          \<and> ed_sig_ok c (ed_sign c seed (ed_public c seed) m)
          \<and> ed_verify c (ed_public c seed) m (ed_sign c seed (ed_public c seed) m)"
    and "length (x_secret c s) = length s" and "x_secret c (x_secret c s) = x_secret c s"
    and "hex_decode c (hex_encode c b) = Some b" and "json_parse c (json_print c f) = Some f"
  using assms unfolding crypto_ok_def by blast+

lemma leading_zero_bits_eq: "leading_zero_bits bs = leading_zeros_loop bs"
  by (induction bs) auto

text \<open>A digest has \<open>d\<close> leading zero bits exactly when it is below the target \<open>2 ^ (256 - d)\<close>.\<close>

lemma leading_zero_bits_target:
  assumes "length h = 32" and "d \<le> 256"
  shows "d \<le> leading_zero_bits h \<longleftrightarrow> nat_of_be h < 2 ^ (256 - d)"
proof (cases "nat_of_be h = 0")
  case True
  then have "h = replicate 32 0"
    using nat_of_be_zero_iff [of h] assms(1) by simp
  moreover have "leading_zero_bits (replicate n 0) = 8 * n" for n
    by (induction n) auto
  ultimately show ?thesis
    using True assms(2) by simp
next
  case False
  from leading_zeros_loop_bounds [OF this]
  have z: "leading_zero_bits h < 256" and lo: "2 ^ (255 - leading_zero_bits h) \<le> nat_of_be h"
    and hi: "nat_of_be h < 2 ^ (256 - leading_zero_bits h)"
    by (simp_all add: assms(1) leading_zero_bits_eq)
  show ?thesis
  proof
    assume "d \<le> leading_zero_bits h"
    then have "(2::nat) ^ (256 - leading_zero_bits h) \<le> 2 ^ (256 - d)"
      by (intro power_increasing) simp_all
    with hi show "nat_of_be h < 2 ^ (256 - d)" by linarith
  next
    assume "nat_of_be h < 2 ^ (256 - d)"
    with lo have "(2::nat) ^ (255 - leading_zero_bits h) < 2 ^ (256 - d)" by linarith
    then have "255 - leading_zero_bits h < 256 - d" by simp
    with z show "d \<le> leading_zero_bits h" by linarith
  qed
qed

lemma identity_generate_json:
  assumes "crypto_ok c" and "length seed = 32" and "length wg = 32"
  shows "identity_from_json c (identity_to_json c (identity_generate c seed wg))
    = Some (identity_generate c seed wg)"
  using assms by (simp add: identity_from_json_def identity_to_json_def identity_generate_def
      identity_from_bytes_def crypto_okD)

text \<open>The search ends at the first draw that meets the difficulty.\<close>

lemma solve_ephemeral_pow_found:
  assumes "verify_ephemeral_pow c (x_public c (x_secret c (rng (i + n)))) nonce d"
  shows "\<exists>sk pk. solve_ephemeral_pow c rng i nonce d = Some (sk, pk) \<and> pk = x_public c sk
    \<and> verify_ephemeral_pow c pk nonce d"
  using assms
proof (induction n arbitrary: i)
  case 0
  then show ?case
    by (subst solve_ephemeral_pow.simps) (simp add: Let_def)
next
  case (Suc n)
  show ?case
  proof (cases "verify_ephemeral_pow c (x_public c (x_secret c (rng i))) nonce d")
    case True
    then show ?thesis
      by (subst solve_ephemeral_pow.simps) (simp add: Let_def)
  next
    case False
    then have "d \<noteq> 0"
      by (auto simp: verify_ephemeral_pow_def)
    with False have "solve_ephemeral_pow c rng i nonce d = solve_ephemeral_pow c rng (Suc i) nonce d"
      by (subst solve_ephemeral_pow.simps) (simp add: Let_def)
    with Suc.IH [of "Suc i"] Suc.prems show ?thesis by simp
  qed
qed

section \<open>Properties\<close>

text \<open>
  What is signed determines the record: two records with the same signed bytes have the
  same key, value, sequence number, lifetime and start time.
\<close>

theorem record_bytes_injective:
  assumes "id_ok (kbytes k)" and "id_ok (kbytes k')"
    and "record_bytes k v s t n = record_bytes k' v' s' t' n'"
  shows "k = k' \<and> v = v' \<and> s = s' \<and> t = t' \<and> n = n'"
proof -
  have "kbytes k = kbytes k'" and r: "v @ to_be_bytes s @ to_be_bytes t @ to_be_bytes n
      = v' @ to_be_bytes s' @ to_be_bytes t' @ to_be_bytes n'"
    using assms by (simp_all add: record_bytes_def id_ok_def append_eq_append_conv)
  moreover have "length (to_be_bytes s @ to_be_bytes t @ to_be_bytes n)
      = length (to_be_bytes s' @ to_be_bytes t' @ to_be_bytes n')"
    by simp
  with r have "v = v'" "to_be_bytes s = to_be_bytes s'" "to_be_bytes t = to_be_bytes t'"
      "to_be_bytes n = to_be_bytes n'"
    by (simp_all add: append_eq_append_conv)
  ultimately show ?thesis
    by (simp add: key.expand)
qed

theorem record_bytes_injective_witness:
  "record_bytes (Key (replicate 32 1)) [7, 8] 1 2 3 = record_bytes (Key (replicate 32 1)) [7, 8] 1 2 3
   \<and> record_bytes (Key (replicate 32 1)) [7, 8] 1 2 3 \<noteq> record_bytes (Key (replicate 32 1)) [7] 2 2 3"
proof -
  have "id_ok (kbytes (Key (replicate 32 1)))"
    by (simp add: id_ok_def ID_LEN_def)
  then show ?thesis
    using record_bytes_injective [of "Key (replicate 32 1)" "Key (replicate 32 1)" "[7, 8]" 1 2 3 "[7]" 2 2 3]
    by auto
qed

text \<open>
  A cost stamp of difficulty \<open>d\<close> is accepted exactly when the digest, read as a 256-bit
  big-endian integer, is below \<open>2 ^ (256 - d)\<close>, so every bit of difficulty halves the chance of
  a random nonce.
\<close>

theorem cost_stamp_target:
  assumes "crypto_ok c"
  shows "verify_cost_stamp c k salt nonce d \<longleftrightarrow>
    nat_of_be (cost_stamp c k salt nonce) < 2 ^ (256 - unat d)"
proof -
  have "unat d \<le> 256"
    using unat_u8_less [of d] by linarith
  then show ?thesis
    using leading_zero_bits_target [of "cost_stamp c k salt nonce" "unat d"] crypto_okD(1) [OF assms]
    by (simp add: verify_cost_stamp_def cost_stamp_def)
qed

theorem cost_stamp_target_witness:
  "verify_cost_stamp demo_crypto (Key (replicate 32 0)) [] [] 255 \<longleftrightarrow>
     nat_of_be (cost_stamp demo_crypto (Key (replicate 32 0)) [] []) < 2 ^ (256 - unat (255 :: u8))"
  by (rule cost_stamp_target) (rule demo_crypto_ok)

text \<open>
  A generated identity survives being saved and loaded, and its own signatures are accepted:
  the WireGuard binding it advertises and every record it signs.
\<close>

theorem identity_roundtrip:
  assumes "crypto_ok c" and "length seed = 32" and "length wg = 32"
    and "i = identity_generate c seed wg"
  shows "identity_from_json c (identity_to_json c i) = Some i
    \<and> identity_from_bytes c (identity_to_bytes i) = Some i
    \<and> load_or_generate c (Some (identity_to_json c i)) legacy raw other = (i, None)
    \<and> verify_binding c (verifying_key i) (wg_public c i) (binding_signature c i)
    \<and> verify_record c (verifying_key i) k v s t n (sign_record c (signing i) k v s t n)"
  using assms identity_generate_json [OF assms(1-3)] crypto_okD(2) [OF assms(1,2)] crypto_okD(4) [OF assms(1)]
  by (simp add: load_or_generate_def verify_binding_def verify_record_def binding_signature_def
      sign_record_def sign_with_def verifying_key_def identity_generate_def identity_from_bytes_def
      identity_to_bytes_def)

theorem identity_roundtrip_witness:
  "identity_from_json demo_crypto (identity_to_json demo_crypto
      (identity_generate demo_crypto (replicate 32 3) (replicate 32 4)))
    = Some (identity_generate demo_crypto (replicate 32 3) (replicate 32 4))"
  using identity_roundtrip [OF demo_crypto_ok, of "replicate 32 3" "replicate 32 4"] by simp

text \<open>
  The search for an ephemeral key returns as soon as some draw meets the difficulty, and the
  pair it returns is a key pair whose public half meets it.
\<close>

theorem solve_pow_terminates:
  assumes "verify_ephemeral_pow c (x_public c (x_secret c (rng n))) nonce d"
  shows "\<exists>sk pk. solve_ephemeral_pow c rng 0 nonce d = Some (sk, pk) \<and> pk = x_public c sk
    \<and> verify_ephemeral_pow c pk nonce d"
  using solve_ephemeral_pow_found [of c rng 0 n nonce d] assms by simp

theorem solve_pow_terminates_witness:
  "\<exists>sk pk. solve_ephemeral_pow demo_crypto (\<lambda>i. replicate 32 (of_nat (9 - i))) 0 (replicate 16 1) 8
     = Some (sk, pk) \<and> verify_ephemeral_pow demo_crypto pk (replicate 16 1) 8"
proof -
  have "verify_ephemeral_pow demo_crypto (x_public demo_crypto (x_secret demo_crypto
      ((\<lambda>i. replicate 32 (of_nat (9 - i))) (9 :: nat)))) (replicate 16 1) 8"
    by code_simp
  then show ?thesis
    using solve_pow_terminates [of demo_crypto "\<lambda>i. replicate 32 (of_nat (9 - i))" 9 "replicate 16 1" 8]
    by blast
qed

end
