(* ===== verification/Store.thy ===== *)
theory Store
  imports Peerstore Crypto Proto
begin

text \<open>
  \<^verbatim>\<open>src/store.rs\<close>: the records, providers and cached values of one shard. The wall clock
  (\<^verbatim>\<open>now_unix\<close>) is an argument of the operations that read it; the Protobuf codec of \<^verbatim>\<open>Record\<close> and
  the cryptographic functions are parameters.
\<close>

section \<open>State\<close>

definition KIND_IMMUTABLE :: u32 where "KIND_IMMUTABLE = 0"
definition KIND_MUTABLE :: u32 where "KIND_MUTABLE = 1"
definition KIND_PROVIDER :: u32 where "KIND_PROVIDER = 2"
definition KIND_TOMBSTONE :: u32 where "KIND_TOMBSTONE = 3"

definition CACHE_TTL_SECS :: u64 where "CACHE_TTL_SECS = 10 * 60"
definition MUTABLE_TTL_SECS :: u64 where "MUTABLE_TTL_SECS = 24 * 3600"

record stored_record =
  sr_key :: key
  sr_value :: bytes
  sr_sequence :: u64
  sr_ttl_secs :: u64
  sr_not_before_unix :: u64
  sr_owner_pubkey :: bytes
  sr_signature :: bytes
  sr_kind :: u32
  sr_namespace :: bytes
  sr_salt :: bytes
  sr_stored_unix :: u64
  sr_cache :: bool

record provider_entry =
  pv_peer_id :: node_id
  pv_meta :: bytes
  pv_stored_unix :: u64
  pv_ttl_secs :: u64

record store =
  st_records :: "key \<rightharpoonup> stored_record"
  st_providers :: "key \<rightharpoonup> provider_entry list"
  st_cache :: "key \<rightharpoonup> stored_record"
  st_dir :: "string option"
  st_pending_wal :: "bytes list"

datatype store_error =
  TooLarge | HashMismatch | BadSignature | StaleSequence | BadTombstone | UnknownKind

section \<open>Records\<close>

definition to_proto :: "stored_record \<Rightarrow> proto_record" where
  "to_proto r =
     \<lparr>pr_key = kbytes (sr_key r), pr_value = sr_value r, pr_sequence = sr_sequence r,
      pr_ttl_secs = sr_ttl_secs r, pr_not_before_unix = sr_not_before_unix r,
      pr_owner_pubkey = sr_owner_pubkey r, pr_signature = sr_signature r, pr_validators = [],
      pr_kind = sr_kind r, pr_namespace = sr_namespace r, pr_salt = sr_salt r\<rparr>"

definition record_encode :: "proto_record prost \<Rightarrow> stored_record \<Rightarrow> bytes" where
  "record_encode pc r = pb_encode pc (to_proto r)"

definition expired :: "stored_record \<Rightarrow> u64 \<Rightarrow> bool" where
  "expired r now = (sat_sub now (sr_stored_unix r) > sr_ttl_secs r)"

definition authentic :: "crypto \<Rightarrow> stored_record \<Rightarrow> bool" where
  "authentic c r =
     (if sr_kind r = KIND_IMMUTABLE then hash_value c (sr_value r) = sr_key r
      else if sr_kind r = KIND_MUTABLE \<or> sr_kind r = KIND_TOMBSTONE
      then sr_owner_pubkey r \<noteq> []
         \<and> mutable_key c (sr_owner_pubkey r) (sr_namespace r) (sr_salt r) = sr_key r
         \<and> verify_record c (sr_owner_pubkey r) (sr_key r) (sr_value r) (sr_sequence r)
             (sr_ttl_secs r) (sr_not_before_unix r) (sr_signature r)
      else sr_kind r = KIND_PROVIDER)"

definition signed_by :: "crypto \<Rightarrow> stored_record \<Rightarrow> bytes \<Rightarrow> bool" where
  "signed_by c r owner_pk = (sr_kind r = KIND_MUTABLE \<and> sr_owner_pubkey r = owner_pk \<and> authentic c r)"

definition record_from_proto :: "u64 \<Rightarrow> proto_record \<Rightarrow> stored_record option" where
  "record_from_proto now r =
     (case key_from_bytes (pr_key r) of
        None \<Rightarrow> None
      | Some k \<Rightarrow> Some
         \<lparr>sr_key = k, sr_value = pr_value r, sr_sequence = pr_sequence r,
          sr_ttl_secs = (if pr_ttl_secs r = 0 then MUTABLE_TTL_SECS else pr_ttl_secs r),
          sr_not_before_unix = pr_not_before_unix r, sr_owner_pubkey = pr_owner_pubkey r,
          sr_signature = pr_signature r, sr_kind = pr_kind r, sr_namespace = pr_namespace r,
          sr_salt = pr_salt r, sr_stored_unix = now, sr_cache = False\<rparr>)"

section \<open>Opening and logging\<close>

definition store_new :: store where
  "store_new = \<lparr>st_records = Map.empty, st_providers = Map.empty, st_cache = Map.empty,
     st_dir = None, st_pending_wal = []\<rparr>"

definition record_apply ::
    "crypto \<Rightarrow> proto_record prost \<Rightarrow> u64 \<Rightarrow> (key \<rightharpoonup> stored_record) \<Rightarrow> u8 \<Rightarrow> bytes \<Rightarrow> (key \<rightharpoonup> stored_record)" where
  "record_apply c pc now records ty payload =
     (if ty \<noteq> TYPE_RECORD then records
      else case pb_decode pc payload of
          None \<Rightarrow> records
        | Some pr \<Rightarrow>
            (case record_from_proto now pr of
               None \<Rightarrow> records
             | Some r \<Rightarrow> if authentic c r then records(sr_key r \<mapsto> r) else records))"

definition replay_wal ::
    "(bytes \<Rightarrow> u32) \<Rightarrow> crypto \<Rightarrow> proto_record prost \<Rightarrow> u64 \<Rightarrow> bytes \<Rightarrow> store \<Rightarrow> store" where
  "replay_wal crc c pc now file s =
     s\<lparr>st_records := wal_replay crc (record_apply c pc now) (st_records s) file\<rparr>"

definition store_open ::
    "(bytes \<Rightarrow> u32) \<Rightarrow> crypto \<Rightarrow> proto_record prost \<Rightarrow> u64 \<Rightarrow> string \<Rightarrow> disk \<Rightarrow> store" where
  "store_open crc c pc now dir d =
     (let s = store_new\<lparr>st_dir := Some dir\<rparr>
      in case wal_log d of Some file \<Rightarrow> replay_wal crc c pc now file s | None \<Rightarrow> s)"

definition queue_record :: "proto_record prost \<Rightarrow> stored_record \<Rightarrow> store \<Rightarrow> store" where
  "queue_record pc r s =
     (if st_dir s \<noteq> None then s\<lparr>st_pending_wal := st_pending_wal s @ [record_encode pc r]\<rparr> else s)"

definition flush_wal :: "store \<Rightarrow> peerstore \<Rightarrow> store \<times> peerstore" where
  "flush_wal s ps =
     (s\<lparr>st_pending_wal := []\<rparr>, foldl (\<lambda>ps payload. ps_append TYPE_RECORD payload ps) ps (st_pending_wal s))"

section \<open>Operations\<close>

definition put_immutable_ttl ::
    "crypto \<Rightarrow> proto_record prost \<Rightarrow> u64 \<Rightarrow> bytes \<Rightarrow> u64 \<Rightarrow> store \<Rightarrow> (store_error + key) \<times> store" where
  "put_immutable_ttl c pc now value ttl_secs s =
     (if length value > PMTU_FLOOR * 64 then (Inl TooLarge, s)
      else let k = hash_value c value;
               r = \<lparr>sr_key = k, sr_value = value, sr_sequence = 0, sr_ttl_secs = ttl_secs,
                    sr_not_before_unix = 0, sr_owner_pubkey = [], sr_signature = [],
                    sr_kind = KIND_IMMUTABLE, sr_namespace = [], sr_salt = [],
                    sr_stored_unix = now, sr_cache = False\<rparr>;
               s1 = queue_record pc r s
           in (Inr k, s1\<lparr>st_records := (st_records s1)(k \<mapsto> r)\<rparr>))"

definition put_immutable ::
    "crypto \<Rightarrow> proto_record prost \<Rightarrow> u64 \<Rightarrow> bytes \<Rightarrow> store \<Rightarrow> (store_error + key) \<times> store" where
  "put_immutable c pc now value s = put_immutable_ttl c pc now value MUTABLE_TTL_SECS s"

text \<open>The checks of \<^verbatim>\<open>put_record\<close>, in their order.\<close>

definition put_record_check :: "crypto \<Rightarrow> stored_record \<Rightarrow> store \<Rightarrow> store_error option" where
  "put_record_check c r s =
     (if length (sr_value r) + length (sr_signature r) > 64 * 1024 then Some TooLarge
      else if sr_kind r = KIND_IMMUTABLE
      then (if hash_value c (sr_value r) \<noteq> sr_key r then Some HashMismatch else None)
      else if sr_kind r = KIND_MUTABLE
      then (if \<not> authentic c r then Some BadSignature
            else case st_records s (sr_key r) of
                Some old \<Rightarrow> if sr_sequence r \<le> sr_sequence old \<and> sr_kind old \<noteq> KIND_TOMBSTONE
                           then Some StaleSequence else None
              | None \<Rightarrow> None)
      else if sr_kind r = KIND_TOMBSTONE
      then (if \<not> authentic c r then Some BadTombstone else None)
      else if sr_kind r = KIND_PROVIDER then None
      else Some UnknownKind)"

definition insert_record :: "proto_record prost \<Rightarrow> stored_record \<Rightarrow> store \<Rightarrow> store" where
  "insert_record pc r s =
     (let s1 = queue_record pc r s in s1\<lparr>st_records := (st_records s1)(sr_key r \<mapsto> r)\<rparr>)"

definition put_record ::
    "crypto \<Rightarrow> proto_record prost \<Rightarrow> stored_record \<Rightarrow> bool \<Rightarrow> store \<Rightarrow> (store_error + unit) \<times> store" where
  "put_record c pc r probe s =
     (case put_record_check c r s of
        Some e \<Rightarrow> (Inl e, s)
      | None \<Rightarrow>
          if sr_kind r = KIND_TOMBSTONE then (Inr (), insert_record pc r s)
          else if probe then (Inr (), s)
          else (Inr (), insert_record pc r s))"

definition cache_hit :: "u64 \<Rightarrow> stored_record \<Rightarrow> store \<Rightarrow> store" where
  "cache_hit now r s =
     (if sr_kind r \<noteq> KIND_IMMUTABLE then s
      else let r' = r\<lparr>sr_cache := True, sr_ttl_secs := max (min CACHE_TTL_SECS (30 * 60)) (5 * 60),
                     sr_stored_unix := now\<rparr>
           in s\<lparr>st_cache := (st_cache s)(sr_key r' \<mapsto> r')\<rparr>)"

definition store_get :: "u64 \<Rightarrow> store \<Rightarrow> key \<Rightarrow> stored_record option" where
  "store_get now s k =
     (let from_cache = (case st_cache s k of
            Some r \<Rightarrow> if \<not> expired r now then Some r else None | None \<Rightarrow> None)
      in case st_records s k of
           Some r \<Rightarrow> if \<not> expired r now \<and> sr_kind r \<noteq> KIND_TOMBSTONE then Some r else from_cache
         | None \<Rightarrow> from_cache)"

definition provider_live :: "u64 \<Rightarrow> provider_entry \<Rightarrow> bool" where
  "provider_live now e = (sat_sub now (pv_stored_unix e) \<le> pv_ttl_secs e)"

definition announce_provider :: "u64 \<Rightarrow> key \<Rightarrow> node_id \<Rightarrow> bytes \<Rightarrow> store \<Rightarrow> store" where
  "announce_provider now k peer meta s =
     (let l = (case st_providers s k of None \<Rightarrow> [] | Some l \<Rightarrow> l);
          l' = (if list_ex (\<lambda>e. pv_peer_id e = peer) l
                then update_first (\<lambda>e. pv_peer_id e = peer)
                       (\<lambda>e. e\<lparr>pv_meta := meta, pv_stored_unix := now\<rparr>) l
                else if length l < 64
                then l @ [\<lparr>pv_peer_id = peer, pv_meta = meta, pv_stored_unix = now,
                           pv_ttl_secs = MUTABLE_TTL_SECS\<rparr>]
                else l)
      in s\<lparr>st_providers := (st_providers s)(k \<mapsto> l')\<rparr>)"

definition store_providers :: "u64 \<Rightarrow> store \<Rightarrow> key \<Rightarrow> nat \<Rightarrow> provider_entry list" where
  "store_providers now s k limit =
     (case st_providers s k of None \<Rightarrow> [] | Some l \<Rightarrow> take limit (filter (provider_live now) l))"

definition retain_live :: "u64 \<Rightarrow> (key \<rightharpoonup> stored_record) \<Rightarrow> (key \<rightharpoonup> stored_record)" where
  "retain_live now m = (\<lambda>k. case m k of
      Some r \<Rightarrow> if \<not> expired r now then Some r else None | None \<Rightarrow> None)"

definition store_gc :: "u64 \<Rightarrow> store \<Rightarrow> store" where
  "store_gc now s =
     s\<lparr>st_records := retain_live now (st_records s), st_cache := retain_live now (st_cache s),
       st_providers := (\<lambda>k. map_option (filter (provider_live now)) (st_providers s k))\<rparr>"

section \<open>Runs\<close>

datatype store_op =
    StPutImmutable u64 bytes u64
  | StPutRecord stored_record bool
  | StCacheHit u64 stored_record
  | StAnnounce u64 key node_id bytes
  | StGc u64

fun store_step :: "crypto \<Rightarrow> proto_record prost \<Rightarrow> store \<Rightarrow> store_op \<Rightarrow> store" where
  "store_step c pc s (StPutImmutable now value ttl) = snd (put_immutable_ttl c pc now value ttl s)"
| "store_step c pc s (StPutRecord r probe) = snd (put_record c pc r probe s)"
| "store_step c pc s (StCacheHit now r) = cache_hit now r s"
| "store_step c pc s (StAnnounce now k peer meta) = announce_provider now k peer meta s"
| "store_step c pc s (StGc now) = store_gc now s"

section \<open>Lemmas\<close>

lemmas kinds = KIND_IMMUTABLE_def KIND_MUTABLE_def KIND_PROVIDER_def KIND_TOMBSTONE_def

lemma queue_record_simps [simp]:
  "st_records (queue_record pc r s) = st_records s"
  "st_providers (queue_record pc r s) = st_providers s"
  "st_cache (queue_record pc r s) = st_cache s"
  "st_dir (queue_record pc r s) = st_dir s"
  by (simp_all add: queue_record_def)

lemma insert_record_simps [simp]:
  "st_records (insert_record pc r s) = (st_records s)(sr_key r \<mapsto> r)"
  "st_providers (insert_record pc r s) = st_providers s"
  "st_cache (insert_record pc r s) = st_cache s"
  "st_dir (insert_record pc r s) = st_dir s"
  by (simp_all add: insert_record_def Let_def)

text \<open>The record that \<^verbatim>\<open>put_immutable_ttl\<close> builds.\<close>

definition immutable_record :: "crypto \<Rightarrow> u64 \<Rightarrow> bytes \<Rightarrow> u64 \<Rightarrow> stored_record" where
  "immutable_record c now value ttl =
     \<lparr>sr_key = hash_value c value, sr_value = value, sr_sequence = 0, sr_ttl_secs = ttl,
      sr_not_before_unix = 0, sr_owner_pubkey = [], sr_signature = [], sr_kind = KIND_IMMUTABLE,
      sr_namespace = [], sr_salt = [], sr_stored_unix = now, sr_cache = False\<rparr>"

lemma put_immutable_ttl_eq:
  "put_immutable_ttl c pc now value ttl s =
     (if length value > PMTU_FLOOR * 64 then (Inl TooLarge, s)
      else (Inr (hash_value c value), insert_record pc (immutable_record c now value ttl) s))"
  by (simp add: put_immutable_ttl_def insert_record_def immutable_record_def Let_def)

lemma authentic_immutable_record [simp]: "authentic c (immutable_record c now value ttl)"
  by (simp add: authentic_def immutable_record_def)

lemma put_record_cases:
  "put_record c pc r probe s = (res, s') \<Longrightarrow>
     (res = Inr () \<and> put_record_check c r s = None
        \<and> s' = (if sr_kind r = KIND_TOMBSTONE \<or> \<not> probe then insert_record pc r s else s))
     \<or> (\<exists>e. res = Inl e \<and> put_record_check c r s = Some e \<and> s' = s)"
  by (auto simp: put_record_def split: option.splits if_splits)

lemma put_record_check_authentic: "put_record_check c r s = None \<Longrightarrow> authentic c r"
  by (auto simp: put_record_check_def authentic_def kinds split: if_splits)

lemma authentic_stamp [simp]:
  "authentic c (r\<lparr>sr_stored_unix := now, sr_cache := b\<rparr>) = authentic c r"
  by (simp add: authentic_def)

section \<open>Invariant\<close>

text \<open>
  Every stored record is filed under its own key and is authentic; a key has at most 64 providers,
  each of them once.
\<close>

definition records_ok :: "crypto \<Rightarrow> (key \<rightharpoonup> stored_record) \<Rightarrow> bool" where
  "records_ok c m = (\<forall>k r. m k = Some r \<longrightarrow> sr_key r = k \<and> authentic c r)"

definition providers_ok :: "(key \<rightharpoonup> provider_entry list) \<Rightarrow> bool" where
  "providers_ok m = (\<forall>k l. m k = Some l \<longrightarrow> length l \<le> 64 \<and> distinct (map pv_peer_id l))"

definition cache_ok :: "(key \<rightharpoonup> stored_record) \<Rightarrow> bool" where
  "cache_ok m = (\<forall>k r. m k = Some r \<longrightarrow> sr_key r = k \<and> sr_kind r = KIND_IMMUTABLE \<and> sr_ttl_secs r = CACHE_TTL_SECS)"

definition store_ok :: "crypto \<Rightarrow> store \<Rightarrow> bool" where
  "store_ok c s = (records_ok c (st_records s) \<and> providers_ok (st_providers s) \<and> cache_ok (st_cache s))"

lemma records_ok_upd: "records_ok c m \<Longrightarrow> authentic c r \<Longrightarrow> records_ok c (m(sr_key r \<mapsto> r))"
  by (simp add: records_ok_def)

lemma records_ok_apply: "records_ok c m \<Longrightarrow> records_ok c (record_apply c pc now m ty payload)"
  by (auto simp: record_apply_def intro: records_ok_upd split: option.splits)

lemma announce_ok:
  assumes "providers_ok (st_providers s)"
  shows "providers_ok (st_providers (announce_provider now k peer meta s))"
proof -
  let ?l = "case st_providers s k of None \<Rightarrow> [] | Some l \<Rightarrow> l"
  have l: "length ?l \<le> 64" "distinct (map pv_peer_id ?l)"
    using assms by (auto simp: providers_ok_def split: option.splits)
  have "map pv_peer_id (update_first (\<lambda>e. pv_peer_id e = peer)
      (\<lambda>e. e\<lparr>pv_meta := meta, pv_stored_unix := now\<rparr>) ?l) = map pv_peer_id ?l"
    by (rule map_update_first) simp
  with l assms show ?thesis
    by (auto simp: providers_ok_def announce_provider_def Let_def list_ex_iff)
qed

lemma cache_hit_ok: "cache_ok (st_cache s) \<Longrightarrow> cache_ok (st_cache (cache_hit now r s))"
  by (auto simp: cache_ok_def cache_hit_def Let_def CACHE_TTL_SECS_def)

lemma retain_live_Some: "retain_live now m k = Some r \<longleftrightarrow> m k = Some r \<and> \<not> expired r now"
  by (auto simp: retain_live_def split: option.splits)

lemma gc_ok: "store_ok c s \<Longrightarrow> store_ok c (store_gc now s)"
  by (auto simp: store_ok_def store_gc_def records_ok_def providers_ok_def cache_ok_def retain_live_Some
      intro: le_trans [OF length_filter_le] distinct_map_filter)

interpretation store_machine: inv_machine "store_step c pc" "store_ok c" "\<lambda>_. True" for c pc
proof
  fix s op assume s: "store_ok c s"
  show "store_ok c (store_step c pc s op)"
  proof (cases op)
    case (StPutImmutable now v ttl)
    then show ?thesis
      using s records_ok_upd [of c "st_records s" "immutable_record c now v ttl"]
      by (auto simp: put_immutable_ttl_eq store_ok_def)
  next
    case (StPutRecord r probe)
    obtain res s' where p: "put_record c pc r probe s = (res, s')" by (rule prod.exhaust)
    from put_record_cases [OF p] show ?thesis
      using s p StPutRecord put_record_check_authentic [of c r s] records_ok_upd [of c "st_records s" r]
      by (auto simp: store_ok_def)
  next
    case (StAnnounce now k peer meta)
    then show ?thesis
      using s announce_ok [of s now k peer meta] by (simp add: store_ok_def announce_provider_def Let_def)
  qed (use s cache_hit_ok gc_ok in \<open>auto simp: store_ok_def cache_hit_def Let_def\<close>)
qed

section \<open>Recovery\<close>

text \<open>A recovered record is stored now and is not a cache entry.\<close>

definition restamp :: "u64 \<Rightarrow> stored_record \<Rightarrow> stored_record" where
  "restamp now r = r\<lparr>sr_stored_unix := now, sr_cache := False\<rparr>"

definition record_loggable :: "proto_record prost \<Rightarrow> stored_record \<Rightarrow> bool" where
  "record_loggable pc r =
     (id_ok (kbytes (sr_key r)) \<and> sr_ttl_secs r \<noteq> 0 \<and> length (record_encode pc r) < 2 ^ 32)"

fun store_op_ok :: "crypto \<Rightarrow> proto_record prost \<Rightarrow> store_op \<Rightarrow> bool" where
  "store_op_ok c pc (StPutImmutable now v ttl) = record_loggable pc (immutable_record c now v ttl)"
| "store_op_ok c pc (StPutRecord r probe) = record_loggable pc r"
| "store_op_ok c pc (StCacheHit now r) = True"
| "store_op_ok c pc (StAnnounce now k peer meta) = True"
| "store_op_ok c pc (StGc now) = True"

text \<open>The frames an operation adds to the log.\<close>

definition store_logged :: "crypto \<Rightarrow> proto_record prost \<Rightarrow> store \<Rightarrow> store_op \<Rightarrow> frame list" where
  "store_logged c pc s op = map (Pair TYPE_RECORD)
     (drop (length (st_pending_wal s)) (st_pending_wal (store_step c pc s op)))"

lemma record_from_proto_restamp:
  "id_ok (kbytes (sr_key r)) \<Longrightarrow> sr_ttl_secs r \<noteq> 0 \<Longrightarrow> record_from_proto now (to_proto r) = Some (restamp now r)"
  by (simp add: record_from_proto_def to_proto_def key_from_bytes_def id_ok_def restamp_def stored_record.equality)

lemma record_apply_encode:
  assumes "prost_ok pc" and "record_loggable pc r" and "authentic c r"
  shows "record_apply c pc now m TYPE_RECORD (record_encode pc r) = m(sr_key r \<mapsto> restamp now r)"
  using assms record_from_proto_restamp [of r now]
  by (simp add: record_apply_def record_encode_def record_loggable_def) (simp add: restamp_def)

lemma insert_record_pending:
  "st_dir s \<noteq> None \<Longrightarrow> st_pending_wal (insert_record pc r s) = st_pending_wal s @ [record_encode pc r]"
  by (simp add: insert_record_def queue_record_def Let_def)

text \<open>Within the contract an operation inserts one authentic record, changes none, or collects.\<close>

lemma store_step_cases:
  assumes "store_op_ok c pc op"
  obtains (ins) r where "store_step c pc s op = insert_record pc r s" "authentic c r" "record_loggable pc r"
    | (same) "st_records (store_step c pc s op) = st_records s"
        "st_pending_wal (store_step c pc s op) = st_pending_wal s"
        "st_dir (store_step c pc s op) = st_dir s"
    | (gc) t where "op = StGc t"
proof (cases op)
  case (StPutImmutable now v ttl)
  then show thesis
    using assms ins [of "immutable_record c now v ttl"] same
    by (cases "length v > PMTU_FLOOR * 64") (simp_all add: put_immutable_ttl_eq)
next
  case (StPutRecord r probe)
  obtain res s' where p: "put_record c pc r probe s = (res, s')" by (rule prod.exhaust)
  from put_record_cases [OF p] show thesis
    using p assms StPutRecord put_record_check_authentic [of c r s] ins [of r] same
    by (auto split: if_splits)
next
  case (StGc now)
  then show thesis by (rule gc)
qed (use assms same in \<open>auto simp: cache_hit_def announce_provider_def Let_def\<close>)

text \<open>
  What a restart brings back: every record in memory, and beyond them only records that were
  collected as expired at one of the times \<open>G\<close>.
\<close>

definition restored :: "u64 set \<Rightarrow> u64 \<Rightarrow> store \<Rightarrow> (key \<rightharpoonup> stored_record) \<Rightarrow> bool" where
  "restored G now s m =
     ((\<forall>k r. st_records s k = Some r \<longrightarrow> m k = Some (restamp now r))
      \<and> (\<forall>k r. st_records s k = None \<longrightarrow> m k = Some r \<longrightarrow> (\<exists>r0. \<exists>t \<in> G. expired r0 t \<and> r = restamp now r0)))"

lemma restored_insert:
  "restored G now s m \<Longrightarrow> restored G now (insert_record pc r s) (m(sr_key r \<mapsto> restamp now r))"
  by (simp add: restored_def)

lemma restored_same: "st_records s' = st_records s \<Longrightarrow> restored G now s' m = restored G now s m"
  by (simp add: restored_def)

lemma restored_gc:
  assumes "restored G now s m" "t \<in> G"
  shows "restored G now (store_gc t s) m"
proof -
  have "\<exists>r0. \<exists>t \<in> G. expired r0 t \<and> r = restamp now r0"
    if "st_records (store_gc t s) k = None" "m k = Some r" for k r
  proof (cases "st_records s k")
    case None
    then show ?thesis
      using assms(1) that(2) by (simp add: restored_def)
  next
    case (Some q)
    then have "expired q t" "r = restamp now q"
      using assms(1) that by (auto simp: store_gc_def retain_live_def restored_def split: if_splits)
    then show ?thesis
      using assms(2) by blast
  qed
  moreover have "m k = Some (restamp now r)" if "st_records (store_gc t s) k = Some r" for k r
    using assms(1) that by (auto simp: store_gc_def retain_live_def restored_def split: option.splits if_splits)
  ultimately show ?thesis
    unfolding restored_def by blast
qed

definition gc_in :: "u64 set \<Rightarrow> store_op \<Rightarrow> bool" where
  "gc_in G op = (case op of StGc t \<Rightarrow> t \<in> G | _ \<Rightarrow> True)"

lemma store_logged_gc: "store_logged c pc s (StGc t) = []"
  by (simp add: store_logged_def store_gc_def)

interpretation store_log: log_state "store_step c pc" "store_logged c pc" "record_apply c pc now"
    "restored G now" "\<lambda>s op. prost_ok pc \<and> st_dir s \<noteq> None \<and> store_op_ok c pc op \<and> gc_in G op"
  for c pc now G
proof
  fix s :: store and op and m
  assume ok: "prost_ok pc \<and> st_dir s \<noteq> None \<and> store_op_ok c pc op \<and> gc_in G op"
  then have sok: "store_op_ok c pc op" by simp
  show "restored G now (store_step c pc s op) (foldl (\<lambda>r (ty, p). record_apply c pc now r ty p) m (store_logged c pc s op))"
    if "restored G now s m"
    using sok
  proof (cases rule: store_step_cases [of c pc op s])
    case (ins r)
    then show ?thesis
      using ok that by (simp add: store_logged_def insert_record_pending record_apply_encode restored_insert)
  next
    case same
    then show ?thesis
      using that restored_same [OF same(1)] by (simp add: store_logged_def)
  next
    case (gc t)
    then show ?thesis
      using ok restored_gc [OF that, of t] by (simp add: store_logged_gc gc_in_def)
  qed
  show "list_all frame_ok (store_logged c pc s op)"
    using sok
  proof (cases rule: store_step_cases [of c pc op s])
    case (ins r)
    then show ?thesis
      using ok by (simp add: store_logged_def insert_record_pending frame_ok_def record_loggable_def)
  next
    case same
    then show ?thesis
      by (simp add: store_logged_def)
  next
    case (gc t)
    then show ?thesis
      by (simp add: store_logged_gc)
  qed
qed

lemma store_step_pending:
  assumes "store_op_ok c pc op" and "st_dir s \<noteq> None"
  shows "st_dir (store_step c pc s op) = st_dir s"
    and "map (Pair TYPE_RECORD) (st_pending_wal s) @ store_logged c pc s op
      = map (Pair TYPE_RECORD) (st_pending_wal (store_step c pc s op))"
  using assms(2) by (rule_tac [!] store_step_cases [OF assms(1), of s])
    (simp_all add: store_logged_def insert_record_pending store_gc_def)

lemma store_run_pending:
  assumes "list_all (store_op_ok c pc) ops" and "st_dir s \<noteq> None" and "prost_ok pc" and "list_all (gc_in G) ops"
  shows "map (Pair TYPE_RECORD) (st_pending_wal s) @ run_log (store_step c pc) (store_logged c pc) s ops
      = map (Pair TYPE_RECORD) (st_pending_wal (foldl (store_step c pc) s ops))"
    and "run_ok (store_step c pc) (\<lambda>s op. prost_ok pc \<and> st_dir s \<noteq> None \<and> store_op_ok c pc op \<and> gc_in G op) s ops"
  using assms
proof (induction ops arbitrary: s)
  case Nil
  {
    case 1
    show ?case by simp
  next
    case 2
    show ?case by simp
  }
next
  case (Cons op ops)
  {
    case 1
    then have "st_dir (store_step c pc s op) \<noteq> None" "store_op_ok c pc op"
      using store_step_pending(1) [of c pc op s] by auto
    then show ?case
      using Cons.IH(1) [of "store_step c pc s op"] store_step_pending(2) [of c pc op s] 1
      by (simp flip: append_assoc)
  next
    case 2
    then show ?case
      using Cons.IH(2) [of "store_step c pc s op"] store_step_pending(1) [of c pc op s] by auto
  }
qed

text \<open>Reading a log again at another time gives the same records with the other stamp.\<close>

lemma restamp_from_proto:
  "record_from_proto now pr = map_option (restamp now) (record_from_proto now0 pr)"
  by (simp add: record_from_proto_def restamp_def split: option.split)

lemma restamp_simps [simp]:
  "restamp now (restamp now0 r) = restamp now r" "sr_key (restamp now r) = sr_key r"
  "authentic c (restamp now r) = authentic c r"
  by (simp_all add: restamp_def authentic_def)

lemma record_apply_restamp:
  "record_apply c pc now (map_option (restamp now) \<circ> m) ty p = map_option (restamp now) \<circ> record_apply c pc now0 m ty p"
  by (auto simp: record_apply_def restamp_from_proto [of now _ now0] fun_eq_iff split: option.splits)

lemma records_restamp:
  "foldl (\<lambda>m (ty, p). record_apply c pc now m ty p) (map_option (restamp now) \<circ> m) fs
    = map_option (restamp now) \<circ> foldl (\<lambda>m (ty, p). record_apply c pc now0 m ty p) m fs"
  by (induction fs arbitrary: m) (simp_all add: split_beta record_apply_restamp [of c pc now _ _ _ now0])

lemma flush_wal_pending:
  "ps_pending (snd (flush_wal s ps)) = ps_pending ps @ map (Pair TYPE_RECORD) (st_pending_wal s)"
  "ps_wal (snd (flush_wal s ps)) = ps_wal ps" "ps_peers (snd (flush_wal s ps)) = ps_peers ps"
proof -
  have "ps_pending (foldl (\<lambda>ps payload. ps_append TYPE_RECORD payload ps) ps ws)
      = ps_pending ps @ map (Pair TYPE_RECORD) ws
    \<and> ps_wal (foldl (\<lambda>ps payload. ps_append TYPE_RECORD payload ps) ps ws) = ps_wal ps
    \<and> ps_peers (foldl (\<lambda>ps payload. ps_append TYPE_RECORD payload ps) ps ws) = ps_peers ps" for ws
    by (induction ws arbitrary: ps) (simp_all add: ps_append_def)
  then show "ps_pending (snd (flush_wal s ps)) = ps_pending ps @ map (Pair TYPE_RECORD) (st_pending_wal s)"
    "ps_wal (snd (flush_wal s ps)) = ps_wal ps" "ps_peers (snd (flush_wal s ps)) = ps_peers ps"
    by (simp_all add: flush_wal_def)
qed

lemma store_open_ok: "store_ok c (store_open crc c pc now dir d)"
proof -
  have "records_ok c (wal_replay crc (record_apply c pc now) Map.empty f)" for f
    by (rule wal_replay_inv [where P = "records_ok c"]) (erule records_ok_apply, simp add: records_ok_def)
  then show ?thesis
    by (auto simp: store_ok_def store_open_def replay_wal_def store_new_def records_ok_def providers_ok_def
        cache_ok_def Let_def split: option.splits)
qed

lemma store_run_ok: "store_ok c (foldl (store_step c pc) (store_open crc c pc now dir d) ops)"
  by (rule store_machine.run_inv [OF store_open_ok]) (simp add: list_all_iff)

lemma store_get_insert_other:
  "k \<noteq> sr_key r \<Longrightarrow> store_get now (insert_record pc r s) k = store_get now s k"
  unfolding store_get_def insert_record_simps by simp

text \<open>An insertion of a mutable record never lowers the sequence number of the key.\<close>

definition put_mutable :: "store_op \<Rightarrow> bool" where
  "put_mutable op = (case op of StPutRecord r probe \<Rightarrow> sr_kind r = KIND_MUTABLE
     | StCacheHit now r \<Rightarrow> True | StAnnounce now k peer meta \<Rightarrow> True | _ \<Rightarrow> False)"

lemma put_mutable_step:
  assumes "put_mutable op" and "st_records s k = Some r" and "sr_kind r = KIND_MUTABLE"
  shows "\<exists>r'. st_records (store_step c pc s op) k = Some r' \<and> sr_kind r' = KIND_MUTABLE
    \<and> sr_sequence r \<le> sr_sequence r'"
proof (cases op)
  case (StPutRecord q probe)
  obtain res s' where p: "put_record c pc q probe s = (res, s')" by (rule prod.exhaust)
  have q: "sr_kind q = KIND_MUTABLE"
    using assms(1) StPutRecord by (simp add: put_mutable_def)
  have "sr_sequence r \<le> sr_sequence q" if "put_record_check c q s = None" "sr_key q = k"
    using that q assms(2,3) by (auto simp: put_record_check_def kinds split: if_splits)
  then show ?thesis
    using put_record_cases [OF p] p StPutRecord q assms(2,3) by auto
qed (use assms in \<open>auto simp: put_mutable_def cache_hit_def announce_provider_def Let_def\<close>)

text \<open>A concrete signed record, for the instances below.\<close>

definition demo_key :: key where
  "demo_key = mutable_key demo_crypto (replicate 32 3) [110] [115]"

definition demo_record :: "u64 \<Rightarrow> stored_record" where
  "demo_record n =
     \<lparr>sr_key = demo_key, sr_value = [7], sr_sequence = n, sr_ttl_secs = 60, sr_not_before_unix = 0,
      sr_owner_pubkey = replicate 32 3,
      sr_signature = sign_record demo_crypto \<lparr>kp_secret = replicate 32 3, kp_public = replicate 32 3\<rparr>
        demo_key [7] n 60 0,
      sr_kind = KIND_MUTABLE, sr_namespace = [110], sr_salt = [115], sr_stored_unix = 5, sr_cache = False\<rparr>"

lemma demo_record_simps [simp]:
  "sr_key (demo_record n) = demo_key" "sr_kind (demo_record n) = KIND_MUTABLE"
  "sr_sequence (demo_record n) = n" "length (sr_value (demo_record n)) = 1"
  "length (sr_signature (demo_record n)) = 64" "authentic demo_crypto (demo_record n)"
  "\<not> expired (demo_record n) 6" "id_ok (kbytes demo_key)" "sr_ttl_secs (demo_record n) = 60"
  by (simp_all add: demo_record_def demo_key_def authentic_def verify_record_def sign_record_def
      sign_with_def demo_crypto_def kinds mutable_key_def expired_def sat_sub_def id_ok_def ID_LEN_def)

lemma demo_record_loggable: "record_loggable demo_record_codec (demo_record n)"
proof -
  have "length (pack bs) = 2 * length bs + 1" for bs
    by (induction bs) simp_all
  moreover have "length (kbytes demo_key) = 32" "length (sr_signature (demo_record n)) = 64"
    by (simp_all add: demo_key_def mutable_key_def demo_crypto_def)
  ultimately show ?thesis
    by (simp add: record_loggable_def record_encode_def demo_record_codec_def field_codec_def pack_list_def to_proto_def)
      (simp add: demo_record_def)
qed

lemma demo_record_put:
  assumes "st_records s demo_key = None"
  shows "put_record demo_crypto pc (demo_record n) False s = (Inr (), insert_record pc (demo_record n) s)"
  using assms by (simp add: put_record_def put_record_check_def kinds)

section \<open>Properties\<close>

text \<open>
  C1. Only authentic records are ever held: from whatever log a store is opened, valid or not, and
  through every sequence of operations, each stored record is filed under its own key and passes
  \<^verbatim>\<open>authentic\<close> (the hash for immutable values, the owner's signature for mutable values and
  tombstones); a key has at most 64 providers, each of them once.
\<close>

theorem store_authentic:
  "store_ok c (foldl (store_step c pc) (store_open crc c pc now dir d) ops)"
  by (rule store_run_ok)

text \<open>
  \<^verbatim>\<open>get\<close> returns a record under the requested key that has neither expired nor been deleted; if
  it does not come from the cache of immutable values, it is authentic.
\<close>

theorem store_get_sound:
  assumes "s = foldl (store_step c pc) (store_open crc c pc now0 dir d) ops"
    and "store_get now s k = Some r"
  shows "sr_key r = k \<and> \<not> expired r now \<and> sr_kind r \<noteq> KIND_TOMBSTONE
    \<and> (authentic c r \<or> st_cache s k = Some r \<and> sr_kind r = KIND_IMMUTABLE)"
  using store_run_ok [of c pc crc now0 dir d ops] assms(2) unfolding assms(1) [symmetric]
  by (auto simp: store_get_def store_ok_def records_ok_def cache_ok_def Let_def kinds
      split: option.splits if_splits)

theorem store_get_sound_witness:
  "let s = foldl (store_step demo_crypto demo_record_codec)
             (store_open (\<lambda>_. 7) demo_crypto demo_record_codec 0 ''d'' empty_disk) [StPutImmutable 5 [1, 2] 60];
       k = hash_value demo_crypto [1, 2]
   in \<exists>r. store_get 6 s k = Some r \<and> sr_key r = k \<and> \<not> expired r 6"
proof -
  let ?s = "foldl (store_step demo_crypto demo_record_codec)
      (store_open (\<lambda>_. 7) demo_crypto demo_record_codec 0 ''d'' empty_disk) [StPutImmutable 5 [1, 2] 60]"
  let ?k = "hash_value demo_crypto [1, 2]"
  have "store_get 6 ?s ?k = Some (immutable_record demo_crypto 5 [1, 2] 60)"
    by (simp add: put_immutable_ttl_eq PMTU_FLOOR_def store_get_def immutable_record_def expired_def
        sat_sub_def kinds Let_def)
  with store_get_sound [OF refl this] show ?thesis
    by (simp add: Let_def)
qed

text \<open>
  \<^verbatim>\<open>put_record\<close> is all or nothing: with an error the store is unchanged; when it succeeds the record
  passed the checks, and (unless it was only a probe) a live record is what \<^verbatim>\<open>get\<close> then returns,
  while every other key is unaffected.
\<close>

theorem put_record_spec:
  assumes "put_record c pc r probe s = (res, s')"
  shows "(case res of
      Inl e \<Rightarrow> s' = s
    | Inr _ \<Rightarrow> authentic c r \<and> length (sr_value r) + length (sr_signature r) \<le> 65536
        \<and> (\<not> probe \<longrightarrow> \<not> expired r now \<longrightarrow> sr_kind r \<noteq> KIND_TOMBSTONE \<longrightarrow> store_get now s' (sr_key r) = Some r)
        \<and> (\<forall>k. k \<noteq> sr_key r \<longrightarrow> store_get now s' k = store_get now s k))"
  using put_record_cases [OF assms]
proof (elim disjE conjE exE)
  assume ok: "put_record_check c r s = None" and res: "res = Inr ()"
    and s': "s' = (if sr_kind r = KIND_TOMBSTONE \<or> \<not> probe then insert_record pc r s else s)"
  have "length (sr_value r) + length (sr_signature r) \<le> 65536"
    using ok by (auto simp: put_record_check_def split: if_splits)
  with put_record_check_authentic [OF ok] show ?thesis
    by (auto simp: res s' store_get_insert_other) (simp_all add: store_get_def)
qed simp

theorem put_record_spec_witness:
  "store_get 6 (snd (put_record demo_crypto demo_record_codec (demo_record 1) False store_new)) demo_key
     = Some (demo_record 1)"
  using put_record_spec [OF demo_record_put [of store_new demo_record_codec 1], of 6]
  by (simp add: demo_record_put store_new_def kinds)

text \<open>
  C34. Through any sequence of insertions of mutable records (with cached values and provider
  announcements in between) the sequence number stored under a key never decreases.
\<close>

theorem mutable_sequence_monotone:
  assumes "list_all put_mutable ops" and "st_records s k = Some r" and "sr_kind r = KIND_MUTABLE"
  shows "\<exists>r'. st_records (foldl (store_step c pc) s ops) k = Some r' \<and> sr_sequence r \<le> sr_sequence r'"
proof -
  have "\<exists>r'. st_records (foldl (store_step c pc) s ops) k = Some r' \<and> sr_kind r' = KIND_MUTABLE
      \<and> sr_sequence r \<le> sr_sequence r'"
    using assms
  proof (induction ops arbitrary: s r)
    case Nil
    then show ?case by simp
  next
    case (Cons op ops)
    then obtain r1 where "st_records (store_step c pc s op) k = Some r1" "sr_kind r1 = KIND_MUTABLE"
        "sr_sequence r \<le> sr_sequence r1"
      using put_mutable_step [of op s k r c pc] by auto
    with Cons.IH [of "store_step c pc s op" r1] Cons.prems show ?case
      by (auto intro: order_trans)
  qed
  then show ?thesis by blast
qed

theorem mutable_sequence_monotone_witness:
  "\<exists>r'. st_records (foldl (store_step demo_crypto demo_record_codec)
      (insert_record demo_record_codec (demo_record 3) store_new)
      [StPutRecord (demo_record 2) False, StPutRecord (demo_record 9) False]) demo_key = Some r'
     \<and> 3 \<le> sr_sequence r'"
  using mutable_sequence_monotone [of "[StPutRecord (demo_record 2) False, StPutRecord (demo_record 9) False]"
      "insert_record demo_record_codec (demo_record 3) store_new" demo_key "demo_record 3"
      demo_crypto demo_record_codec]
  by (simp add: put_mutable_def)

text \<open>
  Garbage collection is invisible to readers: at the same time, every lookup of a record and of
  providers gives the same answer before and after.
\<close>

theorem gc_transparent:
  "store_get now (store_gc now s) k = store_get now s k
   \<and> store_providers now (store_gc now s) k n = store_providers now s k n"
  by (auto simp: store_get_def store_gc_def retain_live_def store_providers_def Let_def split: option.splits)



text \<open>
  C38. The signature of a record does not cover its kind: whoever has seen a signed mutable record
  can resubmit it as a tombstone, which is accepted whatever is stored, even for an older record
  and even as a probe, and deletes the value.
\<close>

theorem mutable_replayed_as_tombstone:
  assumes "authentic c r" and "sr_kind r = KIND_MUTABLE"
    and "length (sr_value r) + length (sr_signature r) \<le> 65536"
    and "st_cache s (sr_key r) = None"
  shows "\<exists>s'. put_record c pc (r\<lparr>sr_kind := KIND_TOMBSTONE\<rparr>) probe s = (Inr (), s')
    \<and> store_get now s' (sr_key r) = None"
proof -
  let ?t = "r\<lparr>sr_kind := KIND_TOMBSTONE\<rparr>"
  have "authentic c ?t"
    using assms(1,2) by (simp add: authentic_def kinds)
  then have "put_record_check c ?t s = None"
    using assms(3) by (simp add: put_record_check_def kinds)
  then show ?thesis
    using assms(4) by (simp add: put_record_def store_get_def Let_def)
qed

theorem mutable_replayed_as_tombstone_witness:
  "\<exists>s'. put_record demo_crypto demo_record_codec ((demo_record 1)\<lparr>sr_kind := KIND_TOMBSTONE\<rparr>) True
      (insert_record demo_record_codec (demo_record 2) store_new) = (Inr (), s')
     \<and> store_get 6 s' demo_key = None"
  using mutable_replayed_as_tombstone [of demo_crypto "demo_record 1"
      "insert_record demo_record_codec (demo_record 2) store_new"]
  by (simp add: store_new_def)

text \<open>
  C39. Compaction writes the records to the snapshot and empties the log, but a store reads only the
  log: a store that is opened after a compaction has no records.
\<close>

theorem compaction_loses_records:
  assumes "ps_dir ps \<noteq> []"
  shows "st_records (store_open crc c pc now dir (snd (compact_with_records crc t order records ps d))) = Map.empty"
proof -
  have "next_frame crc [] = None"
    by (simp add: next_frame_def read_exact_def)
  with assms show ?thesis
    by (simp add: store_open_def replay_wal_def compact_with_records_def store_new_def wal_replay_None Let_def)
qed

theorem compaction_loses_records_witness:
  "st_records (store_open (\<lambda>_. 7) demo_crypto demo_record_codec 9 ''d''
     (snd (compact_with_records (\<lambda>_. 7) demo_addr_text [] [record_encode demo_record_codec (demo_record 1)]
        (fst (ps_open (\<lambda>_. 7) demo_addr_text ''d'' empty_disk)) empty_disk))) = Map.empty"
  by (rule compaction_loses_records) (simp add: ps_open_def ps_recover_def Let_def)

end
