(* ===== verification/Pool.thy ===== *)
theory Pool
  imports Types
begin

text \<open>
  \<^verbatim>\<open>src/pool.rs\<close>: the pool of datagram buffers of a shard and the bump arena of a lookup. A
  \<^verbatim>\<open>Vec<u8>\<close> is its contents and its capacity, since \<^verbatim>\<open>recycle\<close> decides on the capacity.
\<close>

section \<open>Buffers\<close>

definition BUFFER_SIZE :: nat where "BUFFER_SIZE = 2048"
definition POOL_CAP :: nat where "POOL_CAP = 256"

record vec_u8 =
  vec_data :: bytes
  vec_cap :: nat

definition vec_zeroed :: "nat \<Rightarrow> vec_u8" where
  "vec_zeroed n = \<lparr>vec_data = replicate n 0, vec_cap = n\<rparr>"

definition vec_clear :: "vec_u8 \<Rightarrow> vec_u8" where
  "vec_clear v = v\<lparr>vec_data := []\<rparr>"

text \<open>\<^verbatim>\<open>Vec::resize(n, 0)\<close>: growing beyond the capacity at least doubles it.\<close>

definition vec_resize :: "nat \<Rightarrow> vec_u8 \<Rightarrow> vec_u8" where
  "vec_resize n v =
     \<lparr>vec_data = take n (vec_data v) @ replicate (n - length (vec_data v)) 0,
      vec_cap = (if n \<le> vec_cap v then vec_cap v else max (2 * vec_cap v) n)\<rparr>"

section \<open>The pool\<close>

record buffer_pool =
  pool_free :: "vec_u8 list"
  pool_hits :: u64
  pool_misses :: u64

definition pool_new :: buffer_pool where
  "pool_new = \<lparr>pool_free = replicate 64 (vec_zeroed BUFFER_SIZE), pool_hits = 0, pool_misses = 0\<rparr>"

definition pool_take :: "buffer_pool \<Rightarrow> vec_u8 \<times> buffer_pool" where
  "pool_take p =
     (if pool_free p \<noteq> []
      then (vec_resize BUFFER_SIZE (vec_clear (last (pool_free p))),
            p\<lparr>pool_free := butlast (pool_free p), pool_hits := pool_hits p + 1\<rparr>)
      else (vec_zeroed BUFFER_SIZE, p\<lparr>pool_misses := pool_misses p + 1\<rparr>))"

definition pool_recycle :: "vec_u8 \<Rightarrow> buffer_pool \<Rightarrow> buffer_pool" where
  "pool_recycle buf p =
     (if vec_cap buf \<ge> PMTU_FLOOR \<and> length (pool_free p) < POOL_CAP
      then p\<lparr>pool_free := pool_free p @ [vec_clear buf]\<rparr> else p)"

definition pool_stats :: "buffer_pool \<Rightarrow> u64 \<times> u64" where
  "pool_stats p = (pool_hits p, pool_misses p)"

datatype pool_op = PoolTake | PoolRecycle vec_u8

fun pool_step :: "buffer_pool \<Rightarrow> pool_op \<Rightarrow> buffer_pool" where
  "pool_step p PoolTake = snd (pool_take p)"
| "pool_step p (PoolRecycle b) = pool_recycle b p"

section \<open>The arena\<close>

record lookup_arena =
  arena_buf :: bytes
  arena_cursor :: nat

definition arena_with_capacity :: "nat \<Rightarrow> lookup_arena" where
  "arena_with_capacity n = \<lparr>arena_buf = replicate n 0, arena_cursor = 0\<rparr>"

text \<open>The slice handed out is given by its first index and the index after its last.\<close>

definition arena_alloc :: "nat \<Rightarrow> lookup_arena \<Rightarrow> (nat \<times> nat) option \<times> lookup_arena" where
  "arena_alloc n a =
     (if arena_cursor a + n > length (arena_buf a) then (None, a)
      else (Some (arena_cursor a, arena_cursor a + n), a\<lparr>arena_cursor := arena_cursor a + n\<rparr>))"

definition arena_reset :: "lookup_arena \<Rightarrow> lookup_arena" where
  "arena_reset a = a\<lparr>arena_cursor := 0\<rparr>"

text \<open>The slices that a sequence of allocations hands out between two resets.\<close>

fun arena_allocs :: "lookup_arena \<Rightarrow> nat list \<Rightarrow> (nat \<times> nat) list" where
  "arena_allocs a [] = []"
| "arena_allocs a (n # ns) =
     (case arena_alloc n a of
        (None, a') \<Rightarrow> arena_allocs a' ns
      | (Some s, a') \<Rightarrow> s # arena_allocs a' ns)"

section \<open>Lemmas\<close>

definition pool_wf :: "buffer_pool \<Rightarrow> bool" where
  "pool_wf p = (length (pool_free p) \<le> POOL_CAP \<and> (\<forall>b \<in> set (pool_free p). PMTU_FLOOR \<le> vec_cap b))"

lemma pool_new_wf: "pool_wf pool_new"
  by (simp add: pool_wf_def pool_new_def vec_zeroed_def PMTU_FLOOR_def POOL_CAP_def BUFFER_SIZE_def)

interpretation pool: inv_machine pool_step pool_wf "\<lambda>_. True"
proof
  show "pool_wf (pool_step p op)" if "pool_wf p" for p op
    using that by (cases op)
      (auto simp: pool_wf_def pool_take_def pool_recycle_def vec_clear_def dest: in_set_butlastD)
qed

lemma arena_allocs_bounds:
  "s \<in> set (arena_allocs a ns) \<Longrightarrow> arena_cursor a \<le> fst s \<and> fst s \<le> snd s \<and> snd s \<le> length (arena_buf a)"
proof (induction ns arbitrary: a)
  case Nil
  then show ?case by simp
next
  case (Cons n ns)
  show ?case
  proof (cases "arena_cursor a + n > length (arena_buf a)")
    case True
    with Cons show ?thesis by (simp add: arena_alloc_def)
  next
    case False
    let ?a = "a\<lparr>arena_cursor := arena_cursor a + n\<rparr>"
    from False Cons.prems have "s = (arena_cursor a, arena_cursor a + n) \<or> s \<in> set (arena_allocs ?a ns)"
      by (simp add: arena_alloc_def)
    with Cons.IH [of ?a] False show ?thesis by auto
  qed
qed

section \<open>Properties\<close>

text \<open>
  In every run of takes and recycles the pool keeps at most 256 buffers, each with room for
  a datagram of 1200 bytes, and a buffer that is taken has 2048 bytes, all zero: nothing of an
  earlier datagram is left in it.
\<close>

theorem pool_take_zeroed:
  "pool_wf (foldl pool_step pool_new ops)
   \<and> vec_data (fst (pool_take (foldl pool_step pool_new ops))) = replicate BUFFER_SIZE 0"
proof -
  have "vec_data (fst (pool_take p)) = replicate BUFFER_SIZE 0" for p
    by (simp add: pool_take_def vec_resize_def vec_clear_def vec_zeroed_def)
  then show ?thesis
    using pool.run_inv [OF pool_new_wf, of ops] by (simp add: list_all_iff)
qed

text \<open>
  The slices that an arena hands out between two resets lie inside its buffer and do not
  overlap.
\<close>

theorem arena_slices_disjoint:
  "sorted_wrt (\<lambda>s t. snd s \<le> fst t) (arena_allocs a ns)
   \<and> list_all (\<lambda>s. fst s \<le> snd s \<and> snd s \<le> length (arena_buf a)) (arena_allocs a ns)"
proof -
  have "sorted_wrt (\<lambda>s t. snd s \<le> fst t) (arena_allocs a ns)"
  proof (induction ns arbitrary: a)
    case Nil
    then show ?case by simp
  next
    case (Cons n ns)
    show ?case
      using Cons arena_allocs_bounds [of _ "a\<lparr>arena_cursor := arena_cursor a + n\<rparr>" ns]
      by (auto simp: arena_alloc_def)
  qed
  then show ?thesis
    using arena_allocs_bounds by (auto simp: list_all_iff)
qed

end
