(* ===== verification/Lookup.thy ===== *)
theory Lookup
  imports Store Pool
begin

text \<open>
  \<^verbatim>\<open>src/lookup.rs\<close>: one iterative lookup. It keeps a shortlist of known peers ordered by their
  distance to the target, asks up to \<open>\<alpha>\<close> of the closest ones at a time, and adapts \<open>\<alpha>\<close>
  to the answers it gets. The network is not part of the state machine: sending a batch, an answer,
  a timeout tick are the events of \<open>lookup_step\<close>, as the shard drives it.
\<close>

section \<open>State\<close>

datatype lookup_kind = FindNode | FindValue
datatype privacy_mode = PrivNone | Blind | PrivRelay

type_synonym in_flight = "node_id \<times> u32 \<times> instant"

record lookup =
  lk_kind :: lookup_kind
  lk_target :: key
  lk_privacy :: privacy_mode
  lk_k :: nat
  lk_alpha :: nat
  lk_started :: instant
  lk_budget :: nat
  lk_queried :: "node_id set"
  lk_in_flight :: "in_flight list"
  lk_shortlist :: "peer_info list"
  lk_best :: "node_id list"
  lk_found_record :: "stored_record option"
  lk_providers :: "(node_id \<times> bytes) list"
  lk_retries :: "node_id set"
  lk_done :: bool
  lk_probe_targets :: "key list"

section \<open>Operations\<close>

definition peer_rank :: "key \<Rightarrow> peer_info \<Rightarrow> bytes \<times> u32" where
  "peer_rank target p = (xor_distance (nid (pi_id p)) (kbytes target), rtt_ms p)"

definition sort_shortlist :: "key \<Rightarrow> peer_info list \<Rightarrow> peer_info list" where
  "sort_shortlist target l = sort_key (peer_rank target) l"

definition flip_bit0 :: "nat \<Rightarrow> bytes \<Rightarrow> bytes" where
  "flip_bit0 i bs = bs[i := (bs ! i) XOR 1]"

definition neighbor_probes :: "key \<Rightarrow> key list" where
  "neighbor_probes target =
     try_push 4 (try_push 4 [] (Key (flip_bit0 31 (kbytes target)))) (Key (flip_bit0 30 (kbytes target)))"

definition lookup_new :: "instant \<Rightarrow> lookup_kind \<Rightarrow> key \<Rightarrow> peer_info list \<Rightarrow> privacy_mode \<Rightarrow> lookup" where
  "lookup_new now kind target seeds privacy =
     \<lparr>lk_kind = kind, lk_target = target, lk_privacy = privacy, lk_k = K_DEFAULT,
      lk_alpha = ALPHA_DEFAULT, lk_started = now, lk_budget = millis 1500, lk_queried = {},
      lk_in_flight = [], lk_shortlist = sort_shortlist target seeds, lk_best = [],
      lk_found_record = None, lk_providers = [], lk_retries = {}, lk_done = False,
      lk_probe_targets = (if privacy = Blind then neighbor_probes target else [])\<rparr>"

text \<open>The loop of \<^verbatim>\<open>next_batch\<close> over the shortlist.\<close>

fun pick_batch :: "lookup \<Rightarrow> peer_info list \<Rightarrow> peer_info list \<Rightarrow> peer_info list" where
  "pick_batch l batch [] = batch"
| "pick_batch l batch (p # ps) =
     (if pi_id p \<in> lk_queried l then pick_batch l batch ps
      else if list_ex (\<lambda>(i, _, _). i = pi_id p) (lk_in_flight l) then pick_batch l batch ps
      else if length batch + length (lk_in_flight l) \<ge> lk_alpha l then batch
      else pick_batch l (try_push 8 batch p) ps)"

definition next_batch :: "instant \<Rightarrow> lookup \<Rightarrow> peer_info list \<times> lookup" where
  "next_batch now l =
     (if lk_done l \<or> now - lk_started l \<ge> lk_budget l then ([], l\<lparr>lk_done := True\<rparr>)
      else let batch = pick_batch l [] (lk_shortlist l)
           in (batch, if batch = [] \<and> lk_in_flight l = [] then l\<lparr>lk_done := True\<rparr> else l))"

definition note_sent :: "instant \<Rightarrow> node_id \<Rightarrow> u32 \<Rightarrow> lookup \<Rightarrow> lookup" where
  "note_sent now i corr l =
     l\<lparr>lk_queried := insert i (lk_queried l),
       lk_in_flight := try_push 8 (lk_in_flight l) (i, corr, now)\<rparr>"

definition timed_out :: "instant \<Rightarrow> in_flight \<Rightarrow> bool" where
  "timed_out now f = (case f of (_, _, t) \<Rightarrow> now - t > millis 400)"

text \<open>The second loop of \<^verbatim>\<open>on_timeouts\<close>: a peer that timed out once may be asked once more.\<close>

fun retry_once :: "node_id list \<Rightarrow> lookup \<Rightarrow> lookup" where
  "retry_once [] l = l"
| "retry_once (i # dead) l =
     retry_once dead (if i \<notin> lk_retries l
       then l\<lparr>lk_retries := insert i (lk_retries l), lk_queried := lk_queried l - {i}\<rparr> else l)"

definition on_timeouts :: "instant \<Rightarrow> lookup \<Rightarrow> node_id list \<times> lookup" where
  "on_timeouts now l =
     (let dead = map fst (filter (timed_out now) (lk_in_flight l));
          l1 = l\<lparr>lk_in_flight := filter (\<lambda>f. \<not> timed_out now f) (lk_in_flight l)\<rparr>;
          l2 = retry_once dead l1;
          l3 = (if dead \<noteq> [] then l2\<lparr>lk_alpha := min (lk_alpha l2 + 1) ALPHA_MAX\<rparr> else l2)
      in (dead, l3))"

definition drop_in_flight :: "node_id \<Rightarrow> lookup \<Rightarrow> lookup" where
  "drop_in_flight from l = l\<lparr>lk_in_flight := filter (\<lambda>(i, _, _). i \<noteq> from) (lk_in_flight l)\<rparr>"

fun add_peers :: "peer_info list \<Rightarrow> peer_info list \<Rightarrow> peer_info list" where
  "add_peers short [] = short"
| "add_peers short (p # ps) =
     (if list_ex (\<lambda>s. pi_id s = pi_id p) short then add_peers short ps else add_peers (short @ [p]) ps)"

definition on_closer :: "node_id \<Rightarrow> peer_info list \<Rightarrow> u32 \<Rightarrow> lookup \<Rightarrow> lookup" where
  "on_closer from peers rtt_us l =
     (let l1 = drop_in_flight from l;
          l2 = (if rtt_us < 80000 then l1\<lparr>lk_alpha := max (lk_alpha l1 - 1) ALPHA_MIN\<rparr> else l1);
          short = sort_shortlist (lk_target l2) (add_peers (lk_shortlist l2) peers);
          now_best = map pi_id (take (lk_k l2) short);
          fin = (now_best = lk_best l2 \<and> lk_in_flight l2 = []
                 \<and> list_all (\<lambda>i. i \<in> lk_queried l2) now_best)
      in l2\<lparr>lk_shortlist := short, lk_done := lk_done l2 \<or> fin, lk_best := now_best\<rparr>)"

definition on_record :: "node_id \<Rightarrow> stored_record \<Rightarrow> lookup \<Rightarrow> lookup" where
  "on_record from r l = (drop_in_flight from l)\<lparr>lk_found_record := Some r, lk_done := True\<rparr>"

fun add_providers :: "(node_id \<times> bytes) list \<Rightarrow> (node_id \<times> bytes) list \<Rightarrow> (node_id \<times> bytes) list" where
  "add_providers known [] = known"
| "add_providers known (p # ps) =
     (if list_ex (\<lambda>(i, _). i = fst p) known then add_providers known ps
      else add_providers (known @ [p]) ps)"

definition on_providers ::
    "node_id \<Rightarrow> (node_id \<times> bytes) list \<Rightarrow> peer_info list \<Rightarrow> lookup \<Rightarrow> lookup" where
  "on_providers from providers closer l =
     (let l1 = drop_in_flight from l;
          l2 = l1\<lparr>lk_providers := add_providers (lk_providers l1) providers\<rparr>
      in on_closer from closer 0 l2)"

definition finish_peers :: "lookup \<Rightarrow> peer_info list" where
  "finish_peers l = take (lk_k l) (lk_shortlist l)"

definition merge_step :: "lookup_arena \<Rightarrow> peer_info list \<Rightarrow> key \<Rightarrow> nat \<times> lookup_arena" where
  "merge_step arena incoming target =
     (let a1 = arena_reset arena;
          a2 = snd (arena_alloc (min (length incoming * 32) 1024) a1);
          tmp = foldl (try_push 64) [] (take 64 incoming)
      in (length (sort_shortlist target tmp), a2))"

section \<open>Runs\<close>

text \<open>
  The shard sends a batch by asking for it and noting every peer it could encode a request for:
  \<open>reach\<close> says which peers have an address, \<open>corr\<close> gives the correlation numbers.
\<close>

definition dispatch :: "instant \<Rightarrow> (node_id \<Rightarrow> bool) \<Rightarrow> (node_id \<Rightarrow> u32) \<Rightarrow> lookup \<Rightarrow> node_id list \<times> lookup" where
  "dispatch now reach corr l =
     (let (batch, l1) = next_batch now l;
          sent = filter reach (map pi_id batch)
      in (sent, foldl (\<lambda>l i. note_sent now i (corr i) l) l1 sent))"

datatype lookup_event =
    LkDispatch instant "node_id \<Rightarrow> bool" "node_id \<Rightarrow> u32"
  | LkTimeouts instant
  | LkCloser node_id "peer_info list" u32
  | LkRecord node_id stored_record
  | LkProviders node_id "(node_id \<times> bytes) list" "peer_info list"

text \<open>The state together with every request sent so far.\<close>

fun lookup_step :: "lookup \<times> node_id list \<Rightarrow> lookup_event \<Rightarrow> lookup \<times> node_id list" where
  "lookup_step (l, sent) (LkDispatch now reach corr) =
     (let (new, l') = dispatch now reach corr l in (l', sent @ new))"
| "lookup_step (l, sent) (LkTimeouts now) = (snd (on_timeouts now l), sent)"
| "lookup_step (l, sent) (LkCloser from peers rtt) = (on_closer from peers rtt l, sent)"
| "lookup_step (l, sent) (LkRecord from r) = (on_record from r l, sent)"
| "lookup_step (l, sent) (LkProviders from ps closer) = (on_providers from ps closer l, sent)"

definition lookup_run ::
    "instant \<Rightarrow> lookup_kind \<Rightarrow> key \<Rightarrow> peer_info list \<Rightarrow> privacy_mode \<Rightarrow> lookup_event list \<Rightarrow> lookup \<times> node_id list" where
  "lookup_run now kind target seeds privacy es =
     foldl lookup_step (lookup_new now kind target seeds privacy, []) es"

section \<open>Lemmas on the operations\<close>

lemmas alpha_consts = ALPHA_MIN_def ALPHA_MAX_def ALPHA_DEFAULT_def

definition fresh_peer :: "lookup \<Rightarrow> peer_info \<Rightarrow> bool" where
  "fresh_peer l p = (pi_id p \<notin> lk_queried l \<and> pi_id p \<notin> fst ` set (lk_in_flight l))"

lemma in_flight_ex: "list_ex (\<lambda>(i, _, _). i = x) fs \<longleftrightarrow> x \<in> fst ` set fs"
  by (force simp: list_ex_iff)

text \<open>The loop picks the closest fresh peers, as many as \<open>\<alpha>\<close> still allows.\<close>

lemma pick_batch_eq:
  assumes "lk_alpha l \<le> ALPHA_MAX"
  shows "pick_batch l batch ps
    = batch @ take (lk_alpha l - length (lk_in_flight l) - length batch) (filter (fresh_peer l) ps)"
proof (induction ps arbitrary: batch)
  case Nil
  then show ?case by simp
next
  case (Cons p ps)
  show ?case
  proof (cases "fresh_peer l p")
    case False
    with Cons show ?thesis by (auto simp: fresh_peer_def in_flight_ex)
  next
    case True
    then have p: "pi_id p \<notin> lk_queried l" "\<not> list_ex (\<lambda>(i, _, _). i = pi_id p) (lk_in_flight l)"
      by (simp_all add: fresh_peer_def in_flight_ex)
    show ?thesis
    proof (cases "length batch + length (lk_in_flight l) \<ge> lk_alpha l")
      case True
      with p show ?thesis by simp
    next
      case False
      then have n: "lk_alpha l - length (lk_in_flight l) - length batch
          = Suc (lk_alpha l - length (lk_in_flight l) - Suc (length batch))"
        by simp
      have "try_push 8 batch p = batch @ [p]"
        using False assms by (simp add: try_push_def alpha_consts)
      with p False Cons \<open>fresh_peer l p\<close> show ?thesis
        unfolding n by simp
    qed
  qed
qed

lemma add_peers_ids: "pi_id ` set (add_peers short ps) = pi_id ` set short \<union> pi_id ` set ps"
proof (induction ps arbitrary: short)
  case Nil
  then show ?case by simp
next
  case (Cons p ps)
  then show ?case by (auto simp: list_ex_iff intro: rev_image_eqI)
qed

lemma add_peers_count:
  assumes "\<And>i. count_list (map pi_id short) i \<le> m i" "\<And>i. 1 \<le> m i"
  shows "count_list (map pi_id (add_peers short ps)) i \<le> m i"
  using assms(1)
proof (induction ps arbitrary: short)
  case (Cons p ps)
  have "count_list (map pi_id (short @ [p])) j \<le> m j" if "\<not> list_ex (\<lambda>s. pi_id s = pi_id p) short" for j
  proof (cases "j = pi_id p")
    case True
    then have "j \<notin> set (map pi_id short)"
      using that by (force simp: list_ex_iff)
    then show ?thesis
      using assms(2) [of j] by (simp add: count_notin del: set_map)
  next
    case False
    then show ?thesis
      using Cons.prems [of j] by simp
  qed
  with Cons show ?case by simp
qed simp

lemma add_providers_distinct: "distinct (map fst known) \<Longrightarrow> distinct (map fst (add_providers known ps))"
proof (induction ps arbitrary: known)
  case Nil
  then show ?case by simp
next
  case (Cons p ps)
  have "distinct (map fst (known @ [p]))" if "\<not> list_ex (\<lambda>(i, _). i = fst p) known"
    using that Cons.prems by (force simp: list_ex_iff)
  with Cons show ?case by simp
qed

lemma count_sort_ids: "count_list (map pi_id (sort_key f xs)) i = count_list (map pi_id xs) i"
proof -
  have "mset (map pi_id (sort_key f xs)) = mset (map pi_id xs)"
    by simp
  then show ?thesis
    by (metis count_mset)
qed

lemma sort_shortlist_simps [simp]:
  "set (sort_shortlist t xs) = set xs"
  "count_list (map pi_id (sort_shortlist t xs)) i = count_list (map pi_id xs) i"
  "sorted (map (peer_rank t) (sort_shortlist t xs))"
  by (simp_all add: sort_shortlist_def count_sort_ids)

lemma note_sent_simps:
  "foldl (\<lambda>l i. note_sent now i (corr i) l) l sent
     = l\<lparr>lk_queried := lk_queried l \<union> set sent,
         lk_in_flight := foldl (try_push 8) (lk_in_flight l) (map (\<lambda>i. (i, corr i, now)) sent)\<rparr>"
  by (induction sent arbitrary: l) (simp_all add: note_sent_def Un_commute)

lemma foldl_try_push8:
  "length xs \<le> 8 \<Longrightarrow> length (foldl (try_push 8) xs ys) = min 8 (length xs + length ys)"
proof (induction ys arbitrary: xs)
  case Nil
  then show ?case by simp
next
  case (Cons y ys)
  then show ?case by (cases "length xs < 8") (simp_all add: try_push_def)
qed

lemma retry_once_simps:
  "lk_k (retry_once dead l) = lk_k l" "lk_alpha (retry_once dead l) = lk_alpha l"
  "lk_in_flight (retry_once dead l) = lk_in_flight l" "lk_shortlist (retry_once dead l) = lk_shortlist l"
  "lk_target (retry_once dead l) = lk_target l" "lk_providers (retry_once dead l) = lk_providers l"
  "lk_done (retry_once dead l) = lk_done l" "lk_found_record (retry_once dead l) = lk_found_record l"
  "lk_started (retry_once dead l) = lk_started l" "lk_budget (retry_once dead l) = lk_budget l"
  by (induction dead arbitrary: l) simp_all

lemma dispatch_eq:
  assumes "lk_alpha l \<le> ALPHA_MAX" and "\<not> lk_done l" and "now - lk_started l < lk_budget l"
  shows "fst (dispatch now reach corr l)
    = filter reach (map pi_id (take (lk_alpha l - length (lk_in_flight l)) (filter (fresh_peer l) (lk_shortlist l))))"
  using assms by (simp add: dispatch_def next_batch_def pick_batch_eq Let_def split_beta)

text \<open>What a dispatch sends comes from the shortlist and has not been asked.\<close>

lemma count_filter_le: "count_list (filter P xs) i \<le> count_list xs i"
  by (induction xs) auto

lemma count_map_filter_le: "count_list (map f (filter P xs)) i \<le> count_list (map f xs) i"
  by (induction xs) auto

lemma count_take_le: "count_list (take n xs) i \<le> count_list xs i"
  by (metis append_take_drop_id count_list_append le_add1)

lemma dispatch_sent:
  assumes "lk_alpha l \<le> ALPHA_MAX"
  shows "count_list (fst (dispatch now reach corr l)) i \<le> count_list (map pi_id (lk_shortlist l)) i"
    and "set (fst (dispatch now reach corr l)) \<inter> lk_queried l = {}"
proof -
  let ?d = "fst (dispatch now reach corr l)"
  let ?b = "take (lk_alpha l - length (lk_in_flight l)) (filter (fresh_peer l) (lk_shortlist l))"
  have d: "?d = [] \<or> ?d = filter reach (map pi_id ?b)"
    using dispatch_eq [OF assms(1), of now reach corr]
    by (cases "lk_done l \<or> now - lk_started l \<ge> lk_budget l")
      (auto simp: dispatch_def next_batch_def Let_def)
  have "count_list (filter reach (map pi_id ?b)) i \<le> count_list (map pi_id ?b) i"
    by (rule count_filter_le)
  also have "\<dots> \<le> count_list (map pi_id (filter (fresh_peer l) (lk_shortlist l))) i"
    unfolding take_map [symmetric] by (rule count_take_le)
  also have "\<dots> \<le> count_list (map pi_id (lk_shortlist l)) i"
    by (rule count_map_filter_le)
  finally show "count_list ?d i \<le> count_list (map pi_id (lk_shortlist l)) i"
    using d by auto
  have "set (map pi_id ?b) \<inter> lk_queried l = {}"
    by (auto simp: fresh_peer_def dest!: in_set_takeD)
  with d show "set ?d \<inter> lk_queried l = {}"
    by force
qed

lemma dispatch_state:
  obtains dn where "snd (dispatch now reach corr l) = l\<lparr>lk_done := dn,
      lk_queried := lk_queried l \<union> set (fst (dispatch now reach corr l)),
      lk_in_flight := foldl (try_push 8) (lk_in_flight l)
        (map (\<lambda>i. (i, corr i, now)) (fst (dispatch now reach corr l)))\<rparr>"
    and "lk_done l \<longrightarrow> dn"
proof (rule that)
  let ?dn = "lk_done (snd (next_batch now l))"
  show "snd (dispatch now reach corr l) = l\<lparr>lk_done := ?dn,
      lk_queried := lk_queried l \<union> set (fst (dispatch now reach corr l)),
      lk_in_flight := foldl (try_push 8) (lk_in_flight l)
        (map (\<lambda>i. (i, corr i, now)) (fst (dispatch now reach corr l)))\<rparr>"
    by (simp add: dispatch_def next_batch_def split_beta Let_def note_sent_simps)
  show "lk_done l \<longrightarrow> ?dn"
    by (simp add: next_batch_def)
qed

section \<open>Invariant\<close>

text \<open>
  How often a peer may have been asked: once for being marked as asked, once more for having been
  retried; and each time as often as it stands in the shortlist, which is \<open>m\<close> times at most.
\<close>

definition send_bound :: "lookup \<Rightarrow> node_id \<Rightarrow> nat" where
  "send_bound l i = (if i \<in> lk_queried l then 1 else 0) + (if i \<in> lk_retries l then 1 else 0)"

definition shortlist_ok :: "(node_id \<Rightarrow> nat) \<Rightarrow> lookup \<Rightarrow> bool" where
  "shortlist_ok m l = (sorted (map (peer_rank (lk_target l)) (lk_shortlist l))
     \<and> (\<forall>i. count_list (map pi_id (lk_shortlist l)) i \<le> m i))"

fun lookup_inv :: "(node_id \<Rightarrow> nat) \<Rightarrow> lookup \<times> node_id list \<Rightarrow> bool" where
  "lookup_inv m (l, sent) =
     (lk_k l = K_DEFAULT \<and> ALPHA_MIN \<le> lk_alpha l \<and> lk_alpha l \<le> ALPHA_MAX
      \<and> length (lk_in_flight l) \<le> ALPHA_MAX \<and> shortlist_ok m l \<and> (\<forall>i. 1 \<le> m i) \<and> distinct (map fst (lk_providers l))
      \<and> (\<forall>i. count_list sent i \<le> m i * send_bound l i))"

lemma on_closer_ok: "shortlist_ok m l \<Longrightarrow> \<forall>i. 1 \<le> m i \<Longrightarrow> shortlist_ok m (on_closer from peers rtt l)"
  by (simp add: shortlist_ok_def on_closer_def drop_in_flight_def Let_def add_peers_count)

lemma on_closer_simps:
  "lk_k (on_closer from peers rtt l) = lk_k l" "lk_target (on_closer from peers rtt l) = lk_target l"
  "lk_queried (on_closer from peers rtt l) = lk_queried l"
  "lk_retries (on_closer from peers rtt l) = lk_retries l"
  "lk_providers (on_closer from peers rtt l) = lk_providers l"
  "pi_id ` set (lk_shortlist (on_closer from peers rtt l)) = pi_id ` set (lk_shortlist l) \<union> pi_id ` set peers"
  "lk_in_flight (on_closer from peers rtt l) = filter (\<lambda>(i, _, _). i \<noteq> from) (lk_in_flight l)"
  by (simp_all add: on_closer_def drop_in_flight_def Let_def add_peers_ids)

lemma on_closer_alpha:
  "ALPHA_MIN \<le> lk_alpha l \<Longrightarrow> lk_alpha l \<le> ALPHA_MAX \<Longrightarrow>
     ALPHA_MIN \<le> lk_alpha (on_closer from peers rtt l) \<and> lk_alpha (on_closer from peers rtt l) \<le> ALPHA_MAX"
  by (auto simp: on_closer_def drop_in_flight_def Let_def alpha_consts)

lemma lookup_inv_closer: "lookup_inv m (l, sent) \<Longrightarrow> lookup_inv m (on_closer from peers rtt l, sent)"
  using on_closer_alpha [of l "from" peers rtt] on_closer_ok [of m l "from" peers rtt]
  by (auto simp: on_closer_simps send_bound_def intro: le_trans [OF length_filter_le])

lemma count_list_distinct: "distinct xs \<Longrightarrow> count_list xs x = (if x \<in> set xs then 1 else 0)"
  by (induction xs) auto

lemma distinct_count: "(\<And>x. count_list xs x \<le> 1) \<Longrightarrow> distinct xs"
proof (induction xs)
  case (Cons y ys)
  from Cons.prems [of y] have "y \<notin> set ys"
    using count_list_0_iff [of ys y] by simp
  moreover have "count_list ys x \<le> 1" for x
    using Cons.prems [of x] by (simp split: if_splits)
  ultimately show ?case
    using Cons.IH by simp
qed simp

lemma retry_once_bound: "send_bound l i \<le> send_bound (retry_once dead l) i"
proof (induction dead arbitrary: l)
  case Nil
  then show ?case by simp
next
  case (Cons j dead)
  have "send_bound l i \<le> send_bound (if j \<notin> lk_retries l
      then l\<lparr>lk_retries := insert j (lk_retries l), lk_queried := lk_queried l - {j}\<rparr> else l) i"
    by (auto simp: send_bound_def)
  also have "\<dots> \<le> send_bound (retry_once (j # dead) l) i"
    unfolding retry_once.simps by (rule Cons.IH)
  finally show ?case .
qed

lemma on_timeouts_simps:
  "lk_shortlist (snd (on_timeouts now l)) = lk_shortlist l"
  "lk_target (snd (on_timeouts now l)) = lk_target l"
  "lk_done (snd (on_timeouts now l)) = lk_done l"
  by (simp_all add: on_timeouts_def Let_def retry_once_simps)

lemma lookup_inv_timeouts:
  assumes "lookup_inv m (l, sent)"
  shows "lookup_inv m (snd (on_timeouts now l), sent)"
proof -
  let ?dead = "map fst (filter (timed_out now) (lk_in_flight l))"
  let ?l1 = "l\<lparr>lk_in_flight := filter (\<lambda>f. \<not> timed_out now f) (lk_in_flight l)\<rparr>"
  have "send_bound l i \<le> send_bound (retry_once ?dead ?l1) i" for i
    using retry_once_bound [of ?l1 i ?dead] by (simp add: send_bound_def)
  moreover have "send_bound (snd (on_timeouts now l)) i = send_bound (retry_once ?dead ?l1) i" for i
    by (simp add: on_timeouts_def Let_def send_bound_def)
  moreover have "count_list sent i \<le> m i * send_bound l i" for i
    using assms by simp
  ultimately have "count_list sent i \<le> m i * send_bound (snd (on_timeouts now l)) i" for i
    by (metis mult_le_mono2 order_trans)
  with assms show ?thesis
    by (auto simp: on_timeouts_def Let_def retry_once_simps shortlist_ok_def alpha_consts
        intro: le_trans [OF length_filter_le])
qed

lemma lookup_inv_dispatch:
  assumes inv: "lookup_inv m (l, sent)"
  shows "lookup_inv m (snd (dispatch now reach corr l), sent @ fst (dispatch now reach corr l))"
proof -
  let ?d = "fst (dispatch now reach corr l)"
  obtain dn where st: "snd (dispatch now reach corr l) = l\<lparr>lk_done := dn, lk_queried := lk_queried l \<union> set ?d,
      lk_in_flight := foldl (try_push 8) (lk_in_flight l) (map (\<lambda>i. (i, corr i, now)) ?d)\<rparr>"
    by (rule dispatch_state)
  have a: "lk_alpha l \<le> ALPHA_MAX" "\<And>i. count_list (map pi_id (lk_shortlist l)) i \<le> m i"
    using inv by (simp_all add: shortlist_ok_def)
  note d = dispatch_sent [OF a(1), of now reach corr]
  have "count_list (sent @ ?d) i \<le> m i * send_bound (snd (dispatch now reach corr l)) i" for i
  proof -
    have "count_list sent i \<le> m i * send_bound l i"
      using inv by simp
    moreover have "count_list ?d i \<le> (if i \<in> set ?d then m i else 0)"
      using order_trans [OF d(1) a(2), of i] by (simp add: count_notin)
    ultimately show ?thesis
      using d(2) by (auto simp: st send_bound_def split: if_splits)
  qed
  moreover have "length (foldl (try_push 8) (lk_in_flight l) (map (\<lambda>i. (i, corr i, now)) ?d)) \<le> ALPHA_MAX"
    using inv by (simp add: foldl_try_push8 alpha_consts)
  ultimately show ?thesis
    using inv by (simp add: st shortlist_ok_def)
qed

interpretation lookup_machine: inv_machine lookup_step "lookup_inv m" "\<lambda>_. True" for m
proof
  fix s e assume inv: "lookup_inv m s"
  obtain l sent where s: "s = (l, sent)" by (cases s)
  show "lookup_inv m (lookup_step s e)"
  proof (cases e)
    case (LkDispatch now reach corr)
    then show ?thesis
      using lookup_inv_dispatch [of m l sent now reach corr] inv by (simp add: s split_beta)
  next
    case (LkTimeouts now)
    then show ?thesis
      using lookup_inv_timeouts [of m l sent now] inv by (simp add: s)
  next
    case (LkCloser src peers rtt)
    then show ?thesis
      using lookup_inv_closer [of m l sent src peers rtt] inv by (simp add: s)
  next
    case (LkRecord src r)
    then show ?thesis
      using inv by (auto simp: s on_record_def drop_in_flight_def shortlist_ok_def send_bound_def
          intro: le_trans [OF length_filter_le])
  next
    case (LkProviders src ps closer)
    let ?l1 = "(drop_in_flight src l)\<lparr>lk_providers := add_providers (lk_providers l) ps\<rparr>"
    have "lookup_inv m (?l1, sent)"
      using inv by (auto simp: s drop_in_flight_def shortlist_ok_def send_bound_def add_providers_distinct
          intro: le_trans [OF length_filter_le] simp del: distinct_map)
    then show ?thesis
      using lookup_inv_closer [of m ?l1 sent src closer 0] LkProviders
      by (simp add: s on_providers_def drop_in_flight_def Let_def)
  qed
qed

lemma lookup_run_inv: "lookup_inv (\<lambda>i. max 1 (count_list (map pi_id seeds) i)) (lookup_run now kind target seeds privacy es)"
  unfolding lookup_run_def
proof (rule lookup_machine.run_inv)
  show "lookup_inv (\<lambda>i. max 1 (count_list (map pi_id seeds) i)) (lookup_new now kind target seeds privacy, [])"
    by (simp add: lookup_new_def shortlist_ok_def alpha_consts)
qed (simp add: list_all_iff)

text \<open>Every peer that a lookup has heard of.\<close>

fun heard :: "lookup_event \<Rightarrow> node_id set" where
  "heard (LkCloser from peers rtt) = pi_id ` set peers"
| "heard (LkProviders from ps closer) = pi_id ` set closer"
| "heard _ = {}"

lemma shortlist_step:
  "pi_id ` set (lk_shortlist (fst (lookup_step (l, sent) e))) = pi_id ` set (lk_shortlist l) \<union> heard e"
proof (cases e)
  case (LkDispatch now reach corr)
  obtain dn where "snd (dispatch now reach corr l) = l\<lparr>lk_done := dn,
      lk_queried := lk_queried l \<union> set (fst (dispatch now reach corr l)),
      lk_in_flight := foldl (try_push 8) (lk_in_flight l)
        (map (\<lambda>i. (i, corr i, now)) (fst (dispatch now reach corr l)))\<rparr>"
    by (rule dispatch_state)
  with LkDispatch show ?thesis by (simp add: split_beta)
qed (simp_all add: on_timeouts_simps on_closer_simps on_record_def on_providers_def drop_in_flight_def Let_def)

lemma shortlist_run:
  "pi_id ` set (lk_shortlist (fst (foldl lookup_step s es)))
     = pi_id ` set (lk_shortlist (fst s)) \<union> \<Union> (heard ` set es)"
proof (induction es arbitrary: s)
  case Nil
  then show ?case by simp
next
  case (Cons e es)
  then show ?case
    using shortlist_step [of "fst s" "snd s" e] by auto
qed

lemma target_step: "lk_target (fst (lookup_step (l, sent) e)) = lk_target l"
proof (cases e)
  case (LkDispatch now reach corr)
  obtain dn where "snd (dispatch now reach corr l) = l\<lparr>lk_done := dn,
      lk_queried := lk_queried l \<union> set (fst (dispatch now reach corr l)),
      lk_in_flight := foldl (try_push 8) (lk_in_flight l)
        (map (\<lambda>i. (i, corr i, now)) (fst (dispatch now reach corr l)))\<rparr>"
    by (rule dispatch_state)
  with LkDispatch show ?thesis by (simp add: split_beta)
qed (simp_all add: on_timeouts_simps on_closer_simps on_record_def on_providers_def drop_in_flight_def Let_def)

lemma lookup_run_target: "lk_target (fst (lookup_run now kind target seeds privacy es)) = target"
proof -
  have "lk_target (fst (foldl lookup_step s es)) = lk_target (fst s)" for s
    by (induction es arbitrary: s) (simp_all, metis prod.collapse target_step)
  then show ?thesis
    by (simp add: lookup_run_def lookup_new_def)
qed

lemma done_step: "lk_done l \<Longrightarrow> lk_done (fst (lookup_step (l, sent) e))"
proof (cases e)
  case (LkDispatch now reach corr)
  assume d: "lk_done l"
  obtain dn where "snd (dispatch now reach corr l) = l\<lparr>lk_done := dn,
      lk_queried := lk_queried l \<union> set (fst (dispatch now reach corr l)),
      lk_in_flight := foldl (try_push 8) (lk_in_flight l)
        (map (\<lambda>i. (i, corr i, now)) (fst (dispatch now reach corr l)))\<rparr>" "lk_done l \<longrightarrow> dn"
    by (rule dispatch_state)
  with LkDispatch d show ?thesis by (simp add: split_beta)
qed (simp_all add: on_timeouts_simps on_closer_def on_record_def on_providers_def drop_in_flight_def Let_def)

lemma clock_step:
  "lk_started (fst (lookup_step (l, sent) e)) = lk_started l
   \<and> lk_budget (fst (lookup_step (l, sent) e)) = lk_budget l"
proof (cases e)
  case (LkDispatch now reach corr)
  obtain dn where "snd (dispatch now reach corr l) = l\<lparr>lk_done := dn,
      lk_queried := lk_queried l \<union> set (fst (dispatch now reach corr l)),
      lk_in_flight := foldl (try_push 8) (lk_in_flight l)
        (map (\<lambda>i. (i, corr i, now)) (fst (dispatch now reach corr l)))\<rparr>"
    by (rule dispatch_state)
  with LkDispatch show ?thesis by (simp add: split_beta)
qed (simp_all add: on_timeouts_def retry_once_simps on_closer_def on_record_def on_providers_def
    drop_in_flight_def Let_def)

lemma clock_run:
  "lk_started (fst (foldl lookup_step s es)) = lk_started (fst s)
   \<and> lk_budget (fst (foldl lookup_step s es)) = lk_budget (fst s)"
  by (induction es arbitrary: s) (simp_all, metis clock_step prod.collapse)

lemma done_run: "lk_done (fst s) \<Longrightarrow> lk_done (fst (foldl lookup_step s es))"
  by (induction es arbitrary: s) (simp_all, metis done_step prod.collapse)

section \<open>Properties\<close>

text \<open>
  C7. In every run of a lookup \<open>\<alpha>\<close> stays between 3 and 8, at most 8 requests are in flight, the
  shortlist is sorted by distance, and a peer is asked for the target at most twice, if the seeds do
  not list it more than once: a peer that stands \<open>n\<close> times among the seeds (the routing table may
  return it twice) stays in the shortlist \<open>n\<close> times and is asked at most \<open>2 * n\<close> times. These are
  the requests noted as sent; the probes for neighbouring keys in blind mode are not among them.
\<close>

theorem lookup_bounds:
  assumes "lookup_run now kind target seeds privacy es = (l, sent)" and "n = max 1 (count_list (map pi_id seeds) i)"
  shows "3 \<le> lk_alpha l \<and> lk_alpha l \<le> 8 \<and> length (lk_in_flight l) \<le> 8
    \<and> sorted (map (peer_rank target) (lk_shortlist l)) \<and> count_list (map pi_id (lk_shortlist l)) i \<le> n
    \<and> count_list sent i \<le> 2 * n"
proof -
  have inv: "lookup_inv (\<lambda>i. max 1 (count_list (map pi_id seeds) i)) (l, sent)" and t: "lk_target l = target"
    using lookup_run_inv [of seeds now kind target privacy es]
      lookup_run_target [of now kind target seeds privacy es] assms(1) by simp_all
  then have "count_list sent i \<le> n * send_bound l i"
    by (simp add: assms(2))
  also have "\<dots> \<le> n * 2"
    by (simp add: send_bound_def)
  finally show ?thesis
    using inv t by (simp add: shortlist_ok_def alpha_consts assms(2))
qed

theorem lookup_bounds_witness:
  "let seeds = [peer_info_new (NodeId (replicate 32 1)) (AddrV4 10 0 0 1 1),
                peer_info_new (NodeId (replicate 32 2)) (AddrV4 10 0 0 2 2)];
       (l, sent) = lookup_run 0 FindNode (Key (replicate 32 0)) seeds PrivNone
         [LkDispatch 5 (\<lambda>_. True) (\<lambda>_. 1), LkTimeouts (secs 1), LkDispatch (secs 1) (\<lambda>_. True) (\<lambda>_. 2)]
   in count_list sent (NodeId (replicate 32 1)) \<le> 2"
proof -
  let ?seeds = "[peer_info_new (NodeId (replicate 32 1)) (AddrV4 10 0 0 1 1),
                peer_info_new (NodeId (replicate 32 2)) (AddrV4 10 0 0 2 2)]"
  let ?es = "[LkDispatch 5 (\<lambda>_. True) (\<lambda>_. 1), LkTimeouts (secs 1), LkDispatch (secs 1) (\<lambda>_. True) (\<lambda>_. 2)]"
  obtain l sent where run: "lookup_run 0 FindNode (Key (replicate 32 0)) ?seeds PrivNone ?es = (l, sent)"
    by (rule prod.exhaust)
  have "(1 :: nat) = max 1 (count_list (map pi_id ?seeds) (NodeId (replicate 32 1)))"
    by (simp add: peer_info_new_def)
  from lookup_bounds [OF run this] run show ?thesis
    by (simp add: Let_def)
qed

text \<open>
  A batch consists of the closest peers that have neither been asked nor are in flight, as many
  as \<open>\<alpha>\<close> still allows, until the budget of the lookup is used up; then the lookup is done.
\<close>

theorem next_batch_closest:
  assumes "lk_alpha l \<le> ALPHA_MAX"
  shows "(if lk_done l \<or> now - lk_started l \<ge> lk_budget l
     then fst (next_batch now l) = [] \<and> lk_done (snd (next_batch now l))
     else fst (next_batch now l)
         = take (lk_alpha l - length (lk_in_flight l)) (filter (fresh_peer l) (lk_shortlist l))
       \<and> (lk_done (snd (next_batch now l)) \<longleftrightarrow>
            lk_in_flight l = [] \<and> (lk_alpha l = 0 \<or> filter (fresh_peer l) (lk_shortlist l) = [])))"
  using pick_batch_eq [OF assms, of "[]" "lk_shortlist l"] by (auto simp: next_batch_def Let_def)

theorem next_batch_closest_witness:
  "map pi_id (fst (next_batch 5 (lookup_new 0 FindNode (Key (replicate 32 0))
      [peer_info_new (NodeId (replicate 32 1)) (AddrV4 10 0 0 1 1)] PrivNone))) = [NodeId (replicate 32 1)]"
  using next_batch_closest [of "lookup_new 0 FindNode (Key (replicate 32 0))
      [peer_info_new (NodeId (replicate 32 1)) (AddrV4 10 0 0 1 1)] PrivNone" 5]
  by (simp add: lookup_new_def sort_shortlist_def alpha_consts millis_def fresh_peer_def peer_info_new_def)

text \<open>
  C27. What a lookup returns are the closest of all the peers it has heard of, from its seeds and from
  every answer: nothing is forgotten and no peer left out is closer. When the seeds are distinct it
  returns each peer once, and \<open>k = 20\<close> of them if there are so many; a peer listed twice among the
  seeds takes two of the places.
\<close>

theorem finish_peers_closest:
  assumes "l = fst (lookup_run now kind target seeds privacy es)"
  shows "\<exists>rest. pi_id ` set (finish_peers l @ rest) = pi_id ` set seeds \<union> \<Union> (heard ` set es)
    \<and> sorted (map (peer_rank target) (finish_peers l @ rest))
    \<and> length (finish_peers l) = min 20 (length (finish_peers l @ rest))
    \<and> (distinct (map pi_id seeds) \<longrightarrow> distinct (map pi_id (finish_peers l @ rest))
        \<and> length (finish_peers l) = min 20 (card (pi_id ` set seeds \<union> \<Union> (heard ` set es))))"
proof -
  have inv: "lk_k l = K_DEFAULT" "sorted (map (peer_rank target) (lk_shortlist l))"
      "\<And>i. count_list (map pi_id (lk_shortlist l)) i \<le> max 1 (count_list (map pi_id seeds) i)"
    using lookup_run_inv [of seeds now kind target privacy es]
      lookup_run_target [of now kind target seeds privacy es]
    by (cases "lookup_run now kind target seeds privacy es", simp add: assms shortlist_ok_def)+
  have ids: "pi_id ` set (lk_shortlist l) = pi_id ` set seeds \<union> \<Union> (heard ` set es)"
    unfolding assms lookup_run_def shortlist_run by (simp add: lookup_new_def)
  have all: "finish_peers l @ drop (lk_k l) (lk_shortlist l) = lk_shortlist l"
    and len: "length (finish_peers l) = min 20 (length (lk_shortlist l))"
    by (simp_all add: finish_peers_def inv(1) K_DEFAULT_def min.commute)
  have "distinct (map pi_id (lk_shortlist l))" if "distinct (map pi_id seeds)"
  proof -
    have "count_list (map pi_id (lk_shortlist l)) i \<le> 1" for i
      using inv(3) [of i] count_list_distinct [OF that, of i] by (simp split: if_splits)
    then show ?thesis
      by (rule distinct_count)
  qed
  moreover from this have "card (pi_id ` set (lk_shortlist l)) = length (lk_shortlist l)" if "distinct (map pi_id seeds)"
    using that distinct_card by fastforce
  ultimately show ?thesis
    using inv(2) ids len by (intro exI [of _ "drop (lk_k l) (lk_shortlist l)"]) (simp only: all, simp)
qed

theorem finish_peers_closest_witness:
  "let p = (\<lambda>n. peer_info_new (NodeId (replicate 32 n)) (AddrV4 10 0 0 n 1));
       l = fst (lookup_run 0 FindNode (Key (replicate 32 0)) [p 4, p 2] PrivNone
         [LkDispatch 5 (\<lambda>_. True) (\<lambda>_. 1), LkCloser (NodeId (replicate 32 2)) [p 1, p 4] 9])
   in length (finish_peers l) = 3 \<and> sorted (map (peer_rank (Key (replicate 32 0))) (finish_peers l))"
proof -
  let ?p = "\<lambda>n. peer_info_new (NodeId (replicate 32 n)) (AddrV4 10 0 0 n 1)"
  let ?es = "[LkDispatch 5 (\<lambda>_. True) (\<lambda>_. 1), LkCloser (NodeId (replicate 32 2)) [?p 1, ?p 4] 9]"
  have ids: "pi_id ` set [?p 4, ?p 2] \<union> \<Union> (heard ` set ?es)
      = {NodeId (replicate 32 4), NodeId (replicate 32 2), NodeId (replicate 32 1)}"
    by (auto simp: peer_info_new_def)
  have "distinct (map pi_id [?p 4, ?p 2])"
    by (simp add: peer_info_new_def)
  then show ?thesis
    using finish_peers_closest [OF refl, of 0 FindNode "Key (replicate 32 0)" "[?p 4, ?p 2]" PrivNone ?es]
    unfolding ids Let_def by (auto simp: sorted_append)
qed

text \<open>
  C30. A lookup ends: the first dispatch after its budget of 1.5 seconds finishes it, whatever happened
  before, and it stays finished.
\<close>

theorem lookup_terminates:
  assumes "es = es1 @ [LkDispatch t reach corr] @ es2" and "t \<ge> now + millis 1500"
  shows "lk_done (fst (lookup_run now kind target seeds privacy es))"
proof -
  define s1 where "s1 = foldl lookup_step (lookup_new now kind target seeds privacy, []) es1"
  have "lk_started (fst s1) = now" "lk_budget (fst s1) = millis 1500"
    using clock_run [of "(lookup_new now kind target seeds privacy, [])" es1] by (simp_all add: s1_def lookup_new_def)
  then have "lk_budget (fst s1) \<le> t - lk_started (fst s1)"
    using assms(2) by simp
  then have "lk_done (fst (lookup_step s1 (LkDispatch t reach corr)))"
    by (cases s1) (simp add: dispatch_def next_batch_def Let_def)
  then have "lk_done (fst (foldl lookup_step (lookup_step s1 (LkDispatch t reach corr)) es2))"
    by (rule done_run)
  then show ?thesis
    by (simp add: lookup_run_def assms(1) s1_def)
qed

theorem lookup_terminates_witness:
  "lk_done (fst (lookup_run 0 FindNode (Key (replicate 32 0)) [] PrivNone
     [LkTimeouts 7, LkDispatch (secs 2) (\<lambda>_. True) (\<lambda>_. 1)]))"
  by (rule lookup_terminates [of _ "[LkTimeouts 7]" "secs 2" "\<lambda>_. True" "\<lambda>_. 1" "[]"])
    (simp_all add: secs_def millis_def)

end
