(* ===== verification/Timers.thy ===== *)
theory Timers
  imports Prelude
begin

text \<open>
  \<^verbatim>\<open>src/event_loop.rs\<close>: the timers of a shard and the command ring. \<^verbatim>\<open>BinaryHeap<Timer>\<close> is a list
  with its greatest element first: the derived order puts the earliest deadline first and, for
  equal deadlines, the later variant of \<^verbatim>\<open>TimerKind\<close>. Equal timers cannot be told apart, so the
  list determines what \<^verbatim>\<open>peek\<close> and \<^verbatim>\<open>pop\<close> return. Polling the socket is I/O and not modelled.
\<close>

section \<open>Timers\<close>

definition DRAIN_BATCH :: nat where "DRAIN_BATCH = 32"

datatype timer_kind = Keepalive | PeerstoreFlush | Gc | LookupTick | PunchTimer

fun kind_index :: "timer_kind \<Rightarrow> nat" where
  "kind_index Keepalive = 0"
| "kind_index PeerstoreFlush = 1"
| "kind_index Gc = 2"
| "kind_index LookupTick = 3"
| "kind_index PunchTimer = 4"

text \<open>The derived order of the enumeration.\<close>

instantiation timer_kind :: linorder
begin

definition less_eq_timer_kind :: "timer_kind \<Rightarrow> timer_kind \<Rightarrow> bool" where
  "less_eq_timer_kind a b = (kind_index a \<le> kind_index b)"

definition less_timer_kind :: "timer_kind \<Rightarrow> timer_kind \<Rightarrow> bool" where
  "less_timer_kind a b = (kind_index a < kind_index b)"

instance
proof
  fix a b :: timer_kind
  show "a \<le> b \<Longrightarrow> b \<le> a \<Longrightarrow> a = b"
    by (cases a; cases b) (simp_all add: less_eq_timer_kind_def)
qed (auto simp: less_eq_timer_kind_def less_timer_kind_def)

end

datatype timer = Timer (timer_at: instant) (timer_kind: timer_kind)

text \<open>\<^verbatim>\<open>Ord for Timer\<close>: first the reversed deadline, then the kind.\<close>

definition timer_le :: "timer \<Rightarrow> timer \<Rightarrow> bool" where
  "timer_le a b = (timer_at b < timer_at a \<or> timer_at a = timer_at b \<and> timer_kind a \<le> timer_kind b)"

type_synonym timing_wheel = "timer list"

definition wheel_new :: timing_wheel where
  "wheel_new = []"

fun heap_push :: "timer \<Rightarrow> timing_wheel \<Rightarrow> timing_wheel" where
  "heap_push t [] = [t]"
| "heap_push t (u # h) = (if timer_le u t then t # u # h else u # heap_push t h)"

definition schedule :: "instant \<Rightarrow> timer_kind \<Rightarrow> timing_wheel \<Rightarrow> timing_wheel" where
  "schedule at kind h = heap_push (Timer at kind) h"

fun pop_due :: "instant \<Rightarrow> timing_wheel \<Rightarrow> timer_kind list \<times> timing_wheel" where
  "pop_due now [] = ([], [])"
| "pop_due now (t # h) =
     (if timer_at t \<le> now then let (out, h') = pop_due now h in (timer_kind t # out, h')
      else ([], t # h))"

definition next_timeout :: "instant \<Rightarrow> timing_wheel \<Rightarrow> nat option" where
  "next_timeout now h = (case h of [] \<Rightarrow> None | t # _ \<Rightarrow> Some (timer_at t - now))"

section \<open>The command ring\<close>

text \<open>The ring is the list of commands waiting in the channel.\<close>

fun drain_cmds :: "nat \<Rightarrow> 'c list \<Rightarrow> 'c list \<times> 'c list" where
  "drain_cmds 0 rx = ([], rx)"
| "drain_cmds (Suc n) [] = ([], [])"
| "drain_cmds (Suc n) (c # rx) = (let (out, rx') = drain_cmds n rx in (c # out, rx'))"

section \<open>Lemmas\<close>

definition wheel_ok :: "timing_wheel \<Rightarrow> bool" where
  "wheel_ok h = sorted_wrt (\<lambda>a b. timer_le b a) h"

lemma timer_le_linear: "timer_le a b \<or> timer_le b a"
  by (auto simp: timer_le_def)

lemma timer_le_trans: "timer_le a b \<Longrightarrow> timer_le b c \<Longrightarrow> timer_le a c"
  by (auto simp: timer_le_def)

lemma mset_heap_push [simp]: "mset (heap_push t h) = add_mset t (mset h)"
  by (induction h) auto

lemma set_heap_push [simp]: "set (heap_push t h) = insert t (set h)"
  by (induction h) auto

lemma heap_push_ok: "wheel_ok h \<Longrightarrow> wheel_ok (heap_push t h)"
proof (induction h)
  case Nil
  then show ?case by (simp add: wheel_ok_def)
next
  case (Cons u h)
  then show ?case
    using timer_le_linear [of t u] by (auto simp: wheel_ok_def intro: timer_le_trans)
qed

lemma wheel_ok_late:
  assumes "wheel_ok (t # h)" and "\<not> timer_at t \<le> now" and "u \<in> set h"
  shows "\<not> timer_at u \<le> now"
  using assms by (auto simp: wheel_ok_def timer_le_def)

text \<open>The loop pops exactly the timers that are due.\<close>

lemma pop_due_eq:
  "wheel_ok h \<Longrightarrow> pop_due now h
     = (map timer_kind (filter (\<lambda>t. timer_at t \<le> now) h), filter (\<lambda>t. \<not> timer_at t \<le> now) h)"
proof (induction h)
  case Nil
  then show ?case by simp
next
  case (Cons t h)
  have "wheel_ok h"
    using Cons.prems by (simp add: wheel_ok_def)
  moreover have "filter (\<lambda>u. timer_at u \<le> now) h = []" "filter (\<lambda>u. \<not> timer_at u \<le> now) h = h"
    if "\<not> timer_at t \<le> now"
    using wheel_ok_late [OF Cons.prems that] by (simp_all add: filter_empty_conv filter_id_conv)
  ultimately show ?case
    using Cons.IH by simp
qed

lemma pop_due_ok: "wheel_ok h \<Longrightarrow> wheel_ok (snd (pop_due now h))"
  by (simp add: pop_due_eq) (simp add: wheel_ok_def sorted_wrt_filter)

datatype timer_event = TmSchedule instant timer_kind | TmPop instant

fun timer_step :: "timing_wheel \<Rightarrow> timer_event \<Rightarrow> timing_wheel" where
  "timer_step h (TmSchedule at kind) = schedule at kind h"
| "timer_step h (TmPop now) = snd (pop_due now h)"

interpretation wheel: inv_machine timer_step wheel_ok "\<lambda>_. True"
proof
  show "wheel_ok (timer_step h e)" if "wheel_ok h" for h e
    using that by (cases e) (simp_all add: schedule_def heap_push_ok pop_due_ok)
qed

lemma wheel_run_ok: "wheel_ok (foldl timer_step wheel_new es)"
  by (rule wheel.run_inv) (simp_all add: wheel_new_def wheel_ok_def list_all_iff)

lemma drain_cmds_eq: "drain_cmds n rx = (take n rx, drop n rx)"
  by (induction n rx rule: drain_cmds.induct) simp_all

section \<open>Properties\<close>

text \<open>
  C35. Whatever was scheduled and popped before, \<^verbatim>\<open>pop_due\<close> returns the kinds of exactly the timers
  whose deadline has passed, earliest first, keeps exactly the others, and \<^verbatim>\<open>next_timeout\<close> then is
  the time until the earliest remaining deadline.
\<close>

theorem pop_due_exact:
  assumes "h = foldl timer_step wheel_new es"
  shows "\<exists>due. pop_due now h = (map timer_kind due, filter (\<lambda>t. now < timer_at t) h)
    \<and> mset due = filter_mset (\<lambda>t. timer_at t \<le> now) (mset h)
    \<and> sorted (map timer_at due)
    \<and> next_timeout now (snd (pop_due now h))
        = (if filter (\<lambda>t. now < timer_at t) h = [] then None
           else Some (Min (timer_at ` set (filter (\<lambda>t. now < timer_at t) h)) - now))"
proof -
  have ok: "wheel_ok h"
    unfolding assms by (rule wheel_run_ok)
  let ?due = "filter (\<lambda>t. timer_at t \<le> now) h" and ?rest = "filter (\<lambda>t. now < timer_at t) h"
  have sorted: "sorted (map timer_at l)" if "wheel_ok l" for l
    using that by (induction l) (auto simp: wheel_ok_def timer_le_def)
  have "wheel_ok ?due" "wheel_ok ?rest"
    using ok by (simp_all add: wheel_ok_def sorted_wrt_filter)
  have "pop_due now h = (map timer_kind ?due, ?rest)"
    using pop_due_eq [OF ok, of now] by (simp add: not_le)
  moreover have "Min (timer_at ` set (t # l)) = timer_at t" if "sorted (map timer_at (t # l))" for t l
    using that by (auto intro: Min_eqI)
  then have "next_timeout now ?rest = (if ?rest = [] then None else Some (Min (timer_at ` set ?rest) - now))"
    using sorted [OF \<open>wheel_ok ?rest\<close>] by (cases ?rest) (simp_all add: next_timeout_def del: set_simps)
  ultimately show ?thesis
    using sorted [OF \<open>wheel_ok ?due\<close>] by (intro exI [of _ ?due]) simp
qed

theorem pop_due_exact_witness:
  "\<exists>due. fst (pop_due 10 (foldl timer_step wheel_new [TmSchedule 10 Gc, TmSchedule 20 Keepalive, TmSchedule 5 LookupTick]))
     = map timer_kind due \<and> sorted (map timer_at due)"
  using pop_due_exact [OF refl, of 10 "[TmSchedule 10 Gc, TmSchedule 20 Keepalive, TmSchedule 5 LookupTick]"]
  by auto

end
