(* ===== verification/Nat_Relay.thy ===== *)
theory Nat_Relay
  imports Types
begin

text \<open>
  \<^verbatim>\<open>src/nat.rs\<close> and \<^verbatim>\<open>src/relay.rs\<close>: classification of address translators, candidates and windows
  for hole punching, and the budget that limits forwarded traffic.
\<close>

section \<open>NAT classification and candidates\<close>

definition KEEPALIVE :: nat where "KEEPALIVE = secs 20"
definition CONSENT_TTL :: nat where "CONSENT_TTL = secs (30 * 60)"
definition RELAY_BUDGET_NUM :: u64 where "RELAY_BUDGET_NUM = 1"
definition RELAY_BUDGET_DEN :: u64 where "RELAY_BUDGET_DEN = 10"

datatype nat_type = FullCone | Restricted | PortRestricted | Symmetric | UnknownNat

record endpoint_hint =
  eh_declared :: socket_addr
  eh_observed :: "socket_addr option"
  eh_last_ok :: instant

definition hint_fresh :: "instant \<Rightarrow> endpoint_hint \<Rightarrow> bool" where
  "hint_fresh now h = (now - eh_last_ok h < CONSENT_TTL)"

definition classify :: "socket_addr \<Rightarrow> socket_addr \<Rightarrow> nat_type" where
  "classify declared observed =
     (if sa_ip declared = sa_ip observed \<and> sa_port declared = sa_port observed then FullCone
      else if sa_ip declared = sa_ip observed then PortRestricted
      else Symmetric)"

definition punch_deadlines :: "instant \<Rightarrow> instant list" where
  "punch_deadlines now = [now + millis 250, now + millis 500]"

fun is_unspecified :: "ip_addr \<Rightarrow> bool" where
  "is_unspecified (IpV4 a b c d) = (a = 0 \<and> b = 0 \<and> c = 0 \<and> d = 0)"
| "is_unspecified (IpV6 o6) = list_all (\<lambda>b. b = 0) o6"

definition candidates :: "socket_addr \<Rightarrow> socket_addr option \<Rightarrow> socket_addr list" where
  "candidates local mapped =
     (let host = (if is_unspecified (sa_ip local) then socket_addr_new (IpV4 127 0 0 1) (sa_port local)
                  else local);
          out = [host]
      in case mapped of
           Some m \<Rightarrow> if m \<in> set out then out else out @ [m]
         | None \<Rightarrow> out)"

record punch_attempt =
  pa_peer :: node_id
  pa_candidates :: "socket_addr list"
  pa_rendezvous :: socket_addr
  pa_bursts_done :: u8
  pa_next_burst :: instant
  pa_relay_at :: instant
  pa_replied :: bool

section \<open>The relay budget\<close>

record relay_budget =
  rb_egress :: u64
  rb_relayed :: u64

definition relay_budget_new :: relay_budget where
  "relay_budget_new = \<lparr>rb_egress = 0, rb_relayed = 0\<rparr>"

definition budget_allow :: "u64 \<Rightarrow> relay_budget \<Rightarrow> bool \<times> relay_budget" where
  "budget_allow bytes b =
     (let next = rb_relayed b + bytes
      in if rb_egress b = 0 then (True, b\<lparr>rb_relayed := next\<rparr>)
         else if next * RELAY_BUDGET_DEN \<le> rb_egress b * RELAY_BUDGET_NUM + rb_egress b
         then (True, b\<lparr>rb_relayed := next\<rparr>)
         else (False, b))"

definition on_egress :: "u64 \<Rightarrow> relay_budget \<Rightarrow> relay_budget" where
  "on_egress bytes b = b\<lparr>rb_egress := rb_egress b + bytes\<rparr>"

record relay_state =
  rs_enabled :: bool
  rs_budget :: relay_budget
  rs_prefer_control :: bool

definition relay_new :: "bool \<Rightarrow> relay_state" where
  "relay_new enabled = \<lparr>rs_enabled = enabled, rs_budget = relay_budget_new, rs_prefer_control = True\<rparr>"

definition relay_forward :: "nat \<Rightarrow> bool \<Rightarrow> relay_state \<Rightarrow> bool \<times> relay_state" where
  "relay_forward bytes control r =
     (if \<not> rs_enabled r \<and> \<not> control then (False, r)
      else let b1 = on_egress (of_nat bytes) (rs_budget r);
               (ok, b2) = budget_allow (of_nat bytes) b1
           in (ok, r\<lparr>rs_budget := b2\<rparr>))"

definition pick_relay :: "node_id \<Rightarrow> node_id \<Rightarrow> (node_id \<times> socket_addr) list \<Rightarrow> socket_addr option" where
  "pick_relay self_id dest cands =
     (let db = bucket_index self_id dest
      in map_option snd (find (\<lambda>(i, _). bucket_index self_id i \<noteq> db) cands))"

section \<open>Runs\<close>

text \<open>The shard counts what it sends itself and asks before it forwards.\<close>

datatype relay_event = RlEgress u64 | RlForward nat bool

fun relay_step :: "relay_state \<Rightarrow> relay_event \<Rightarrow> relay_state" where
  "relay_step r (RlEgress n) = r\<lparr>rs_budget := on_egress n (rs_budget r)\<rparr>"
| "relay_step r (RlForward n control) = snd (relay_forward n control r)"

fun relay_bytes :: "relay_event \<Rightarrow> nat" where
  "relay_bytes (RlEgress n) = unat n"
| "relay_bytes (RlForward n control) = n"

definition relay_total :: "relay_event list \<Rightarrow> nat" where
  "relay_total es = sum_list (map relay_bytes es)"

text \<open>The bytes of the frames that were granted.\<close>

fun granted_bytes :: "relay_state \<Rightarrow> relay_event \<Rightarrow> nat" where
  "granted_bytes r (RlEgress n) = 0"
| "granted_bytes r (RlForward n control) = (if fst (relay_forward n control r) then n else 0)"

fun relay_granted :: "relay_state \<Rightarrow> relay_event list \<Rightarrow> nat" where
  "relay_granted r [] = 0"
| "relay_granted r (e # es) = granted_bytes r e + relay_granted (relay_step r e) es"

section \<open>Lemmas\<close>

text \<open>
  As long as nothing overflows, the granted bytes \<open>g\<close> are at most a fifth of the counted ones, which
  are at most \<open>tot\<close>.
\<close>

definition budget_ok :: "nat \<Rightarrow> nat \<Rightarrow> relay_budget \<Rightarrow> bool" where
  "budget_ok tot g b = (unat (rb_egress b) \<le> tot \<and> unat (rb_relayed b) = g \<and> 5 * g \<le> unat (rb_egress b))"

lemma unat_add_small:
  fixes a b :: "'a::len word"
  shows "unat a + unat b < 2 ^ LENGTH('a) \<Longrightarrow> unat (a + b) = unat a + unat b"
  by (simp add: unat_word_ariths)

lemma on_egress_count:
  "unat (rb_egress b) + unat n < 2 ^ 64 \<Longrightarrow> unat (rb_egress (on_egress n b)) = unat (rb_egress b) + unat n"
  by (simp add: on_egress_def unat_add_small)

text \<open>The test of the budget, without wrap-around.\<close>

lemma budget_allow_spec:
  assumes "unat (rb_egress b) < 2 ^ 60" "5 * unat (rb_relayed b) \<le> unat (rb_egress b)" "unat n \<le> unat (rb_egress b)"
  shows "fst (budget_allow n b) = (5 * (unat (rb_relayed b) + unat n) \<le> unat (rb_egress b))"
    and "unat (rb_relayed (snd (budget_allow n b)))
      = unat (rb_relayed b) + (if fst (budget_allow n b) then unat n else 0)"
    and "rb_egress (snd (budget_allow n b)) = rb_egress b"
proof -
  let ?next = "rb_relayed b + n"
  have nx: "unat ?next = unat (rb_relayed b) + unat n"
    using assms by (intro unat_add_small) simp
  have "10 * unat ?next < 2 ^ 64"
    using assms unfolding nx by simp
  then have "unat (?next * RELAY_BUDGET_DEN) = 10 * unat ?next"
    unfolding RELAY_BUDGET_DEN_def unat_word_ariths(2) [of ?next] by simp
  moreover have "unat (rb_egress b * RELAY_BUDGET_NUM + rb_egress b) = 2 * unat (rb_egress b)"
    using assms(1) unat_add_small [of "rb_egress b" "rb_egress b"] by (simp add: RELAY_BUDGET_NUM_def)
  ultimately have le: "?next * RELAY_BUDGET_DEN \<le> rb_egress b * RELAY_BUDGET_NUM + rb_egress b
      \<longleftrightarrow> 5 * unat ?next \<le> unat (rb_egress b)"
    by (auto simp: word_le_nat_alt)
  have "unat n = 0 \<and> unat (rb_relayed b) = 0" if "rb_egress b = 0"
    using assms that by simp
  then show "fst (budget_allow n b) = (5 * (unat (rb_relayed b) + unat n) \<le> unat (rb_egress b))"
    using le nx by (auto simp: budget_allow_def Let_def)
  show "unat (rb_relayed (snd (budget_allow n b)))
      = unat (rb_relayed b) + (if fst (budget_allow n b) then unat n else 0)"
    "rb_egress (snd (budget_allow n b)) = rb_egress b"
    using nx by (auto simp: budget_allow_def Let_def)
qed

text \<open>What a request to forward does to the two counters.\<close>

lemma relay_forward_spec:
  assumes ok: "budget_ok tot g (rs_budget r)" and tot: "tot + n < 2 ^ 60" and on: "rs_enabled r \<or> control"
  shows "fst (relay_forward n control r) = (5 * (g + n) \<le> unat (rb_egress (rs_budget r)) + n)"
    and "unat (rb_egress (rs_budget (snd (relay_forward n control r)))) = unat (rb_egress (rs_budget r)) + n"
    and "unat (rb_relayed (rs_budget (snd (relay_forward n control r))))
      = g + (if fst (relay_forward n control r) then n else 0)"
proof -
  let ?b = "on_egress (of_nat n) (rs_budget r)"
  have n: "unat (of_nat n :: u64) = n"
    using tot by (simp add: unat_of_nat)
  then have e: "unat (rb_egress ?b) = unat (rb_egress (rs_budget r)) + n" "rb_relayed ?b = rb_relayed (rs_budget r)"
    using ok tot on_egress_count [of "rs_budget r" "of_nat n"] by (simp_all add: budget_ok_def on_egress_def)
  have g: "unat (rb_relayed ?b) = g"
    using ok e(2) by (simp add: budget_ok_def)
  note spec = budget_allow_spec [of ?b "of_nat n", unfolded n e(1) g]
  have f: "fst (relay_forward n control r) = fst (budget_allow (of_nat n) ?b)"
    "rs_budget (snd (relay_forward n control r)) = snd (budget_allow (of_nat n) ?b)"
    using on by (auto simp: relay_forward_def Let_def split_beta)
  show "fst (relay_forward n control r) = (5 * (g + n) \<le> unat (rb_egress (rs_budget r)) + n)"
    "unat (rb_egress (rs_budget (snd (relay_forward n control r)))) = unat (rb_egress (rs_budget r)) + n"
    "unat (rb_relayed (rs_budget (snd (relay_forward n control r)))) = g + (if fst (relay_forward n control r) then n else 0)"
    using spec ok tot unfolding f by (simp_all add: budget_ok_def e)
qed

lemma relay_step_ok:
  assumes "budget_ok tot g (rs_budget r)" and "tot + relay_bytes e < 2 ^ 60"
  shows "budget_ok (tot + relay_bytes e) (g + granted_bytes r e) (rs_budget (relay_step r e))"
proof (cases e)
  case (RlEgress n)
  then show ?thesis
    using assms on_egress_count [of "rs_budget r" n] by (simp add: budget_ok_def) (simp add: on_egress_def)
next
  case (RlForward n control)
  show ?thesis
  proof (cases "rs_enabled r \<or> control")
    case True
    then show ?thesis
      using relay_forward_spec [OF assms(1) _ True, of n] assms RlForward by (auto simp: budget_ok_def)
  next
    case False
    then show ?thesis
      using assms RlForward by (simp add: relay_forward_def budget_ok_def)
  qed
qed

lemma relay_run_ok:
  "budget_ok tot g (rs_budget r) \<Longrightarrow> tot + relay_total es < 2 ^ 60
     \<Longrightarrow> budget_ok (tot + relay_total es) (g + relay_granted r es) (rs_budget (foldl relay_step r es))"
proof (induction es arbitrary: tot g r)
  case Nil
  then show ?case by (simp add: relay_total_def)
next
  case (Cons e es)
  then have "budget_ok (tot + relay_bytes e) (g + granted_bytes r e) (rs_budget (relay_step r e))"
    by (intro relay_step_ok) (simp_all add: relay_total_def)
  with Cons.IH [of "tot + relay_bytes e" "g + granted_bytes r e" "relay_step r e"] Cons.prems show ?case
    by (simp add: relay_total_def add.assoc)
qed

lemma relay_new_ok: "budget_ok 0 0 (rs_budget (relay_new enabled))"
  by (simp add: budget_ok_def relay_new_def relay_budget_new_def)

lemma rs_enabled_step [simp]: "rs_enabled (relay_step r e) = rs_enabled r"
  by (cases e) (auto simp: relay_forward_def Let_def split_beta)

lemma relay_off:
  "\<not> rs_enabled r \<Longrightarrow> \<forall>n. RlForward n True \<notin> set es \<Longrightarrow> relay_granted r es = 0"
proof (induction es arbitrary: r)
  case (Cons e es)
  then show ?case
    by (cases e) (auto simp: relay_forward_def)
qed simp

text \<open>Five requests of the same size, on a node that has spent a fifth of what it counted.\<close>

lemma relay_five:
  assumes "rs_enabled r" "unat (rb_egress (rs_budget r)) = 5 * g" "unat (rb_relayed (rs_budget r)) = g"
    and "5 * g + 5 * n < 2 ^ 60" "0 < n" and "r' = foldl relay_step r (replicate 5 (RlForward n False))"
  shows "rs_enabled r' \<and> unat (rb_egress (rs_budget r')) = 5 * (g + n) \<and> unat (rb_relayed (rs_budget r')) = g + n
    \<and> relay_granted r (replicate 5 (RlForward n False)) = n"
proof -
  have step: "rs_enabled (relay_step q (RlForward n False))
      \<and> unat (rb_egress (rs_budget (relay_step q (RlForward n False)))) = 5 * g + (k + 1) * n
      \<and> unat (rb_relayed (rs_budget (relay_step q (RlForward n False)))) = g + (if k = 4 then n else 0)
      \<and> granted_bytes q (RlForward n False) = (if k = 4 then n else 0)"
    if "rs_enabled q" "unat (rb_egress (rs_budget q)) = 5 * g + k * n" "unat (rb_relayed (rs_budget q)) = g" "k \<le> 4" for q k
  proof -
    have "k * n \<le> 4 * n"
      using that(4) by simp
    then have tot: "5 * g + k * n + n < 2 ^ 60"
      using assms(4) by linarith
    have ok: "budget_ok (5 * g + k * n) g (rs_budget q)"
      using that by (simp add: budget_ok_def)
    have "5 * n = k * n + (4 - k) * n + n"
      using that(4) by (simp add: diff_mult_distrib)
    then have "(5 * (g + n) \<le> 5 * g + k * n + n) = ((4 - k) * n = 0)"
      by (simp add: add_mult_distrib2)
    also have "\<dots> = (k = 4)"
      using assms(5) that(4) by auto
    finally show ?thesis
      using relay_forward_spec [OF ok tot, of False] that(1,2) rs_enabled_step [of q "RlForward n False"]
      by (simp add: algebra_simps)
  qed
  define q where "q = (\<lambda>k. foldl relay_step r (replicate k (RlForward n False)))"
  have q: "q 0 = r" "q (Suc k) = relay_step (q k) (RlForward n False)" for k
    by (simp_all add: q_def flip: replicate_append_same)
  have main: "k \<le> 4 \<Longrightarrow> rs_enabled (q k) \<and> unat (rb_egress (rs_budget (q k))) = 5 * g + k * n
      \<and> unat (rb_relayed (rs_budget (q k))) = g" for k
  proof (induction k)
    case 0
    then show ?case using assms(1-3) by (simp add: q)
  next
    case (Suc k)
    then show ?case using step [of "q k" k] by (simp add: q)
  qed
  have "relay_granted r (replicate 5 (RlForward n False))
      = granted_bytes (q 0) (RlForward n False) + granted_bytes (q 1) (RlForward n False)
        + granted_bytes (q 2) (RlForward n False) + granted_bytes (q 3) (RlForward n False)
        + granted_bytes (q 4) (RlForward n False)"
    by (simp add: numeral_eq_Suc q)
  then show ?thesis
    using step [of "q 0" 0] step [of "q 1" 1] step [of "q 2" 2] step [of "q 3" 3] step [of "q 4" 4]
      main [of 0] main [of 1] main [of 2] main [of 3] main [of 4] q(2) [of 4] assms(6)
    by (simp add: q_def)
qed

lemma relay_granted_append:
  "relay_granted r (es @ fs) = relay_granted r es + relay_granted (foldl relay_step r es) fs"
  by (induction es arbitrary: r) simp_all

lemma relay_fives:
  assumes "5 * (m * n) < 2 ^ 60" "0 < n"
  shows "let es = replicate (5 * m) (RlForward n False); r = foldl relay_step (relay_new True) es
    in rs_enabled r \<and> unat (rb_egress (rs_budget r)) = 5 * (m * n) \<and> unat (rb_relayed (rs_budget r)) = m * n
      \<and> relay_granted (relay_new True) es = m * n"
  using assms(1)
proof (induction m)
  case 0
  then show ?case by (simp add: relay_new_def relay_budget_new_def)
next
  case (Suc m)
  have r: "replicate (5 * Suc m) e = replicate (5 * m) e @ replicate 5 e" for e :: relay_event
    by (simp flip: replicate_add)
  show ?case
    using Suc relay_five [OF _ _ _ _ assms(2) refl, of "foldl relay_step (relay_new True) (replicate (5 * m) (RlForward n False))" "m * n"]
    unfolding r Let_def relay_granted_append foldl_append by (simp add: algebra_simps)
qed

section \<open>Properties\<close>

text \<open>
  C36. The relay budget: in every run in which fewer than \<open>2 ^ 60\<close> bytes are counted, the bytes of
  the frames granted to others are at most a fifth of the bytes counted, which are the node's own
  messages and all frames it was asked to forward, also the refused ones. A node that does not relay
  grants nothing but control frames.
\<close>

theorem relay_granted_bound:
  assumes "relay_total es < 2 ^ 60"
  shows "5 * relay_granted (relay_new enabled) es \<le> relay_total es
    \<and> (\<not> enabled \<and> (\<forall>n. RlForward n True \<notin> set es) \<longrightarrow> relay_granted (relay_new enabled) es = 0)"
  using relay_run_ok [OF relay_new_ok, of es enabled] relay_off [of "relay_new enabled" es] assms
  by (auto simp: budget_ok_def relay_new_def)

theorem relay_granted_bound_witness:
  "5 * relay_granted (relay_new True) [RlEgress 1000, RlForward 50 False] \<le> 1050
    \<and> relay_granted (relay_new False) [RlEgress 1000, RlForward 50 False] = 0"
  using relay_granted_bound [of "[RlEgress 1000, RlForward 50 False]" True]
    relay_granted_bound [of "[RlEgress 1000, RlForward 50 False]" False] by (simp add: relay_total_def)

text \<open>
  C40. The budget does not bound the share of the traffic that is sent: because refused frames are
  counted as sent, a relaying node that sends nothing of its own grants every fifth of any sequence
  of frames of one size, so that everything it sends is forwarded. The documents ask for a tenth.
\<close>

theorem relay_refused_counted:
  assumes "5 * (m * n) < 2 ^ 60" and "0 < n"
  shows "relay_granted (relay_new True) (replicate (5 * m) (RlForward n False)) = m * n"
  using relay_fives [OF assms] by (simp add: Let_def)

theorem relay_refused_counted_witness:
  "relay_granted (relay_new True) (replicate 10 (RlForward 100 False)) = 200"
  using relay_refused_counted [of 2 100] by simp

end
