(* ===== verification/Wg.thy ===== *)
theory Wg
  imports Crypto
begin

text \<open>
  \<^verbatim>\<open>src/wg.rs\<close>: the WireGuard engine of a shard and the dispatch of datagrams to shards. A tunnel is
  a value of the library BoringTun: its type is \<open>'t\<close> and its functions are the fields of
  \<open>tunn_ops\<close>, a parameter. A result that is a slice of the scratch buffer is its length and the
  buffer after the call. The hash map of sessions visits its keys in an order given as an argument.
\<close>

section \<open>Datagrams\<close>

definition WG_TYPE_INITIATION :: u32 where "WG_TYPE_INITIATION = 1"
definition WG_TYPE_RESPONSE :: u32 where "WG_TYPE_RESPONSE = 2"
definition WG_TYPE_COOKIE :: u32 where "WG_TYPE_COOKIE = 3"
definition WG_TYPE_DATA :: u32 where "WG_TYPE_DATA = 4"
definition KEEPALIVE_SECS :: u16 where "KEEPALIVE_SECS = 20"

record wg_header =
  wh_ty :: u32
  wh_receiver_index :: u32

definition parse_wg_header :: "bytes \<Rightarrow> wg_header option" where
  "parse_wg_header buf =
     (if length buf < 8 then None
      else let ty = from_le_bytes (take 4 buf) :: u32
           in if \<not> (1 \<le> ty \<and> ty \<le> 4) then None
              else Some \<lparr>wh_ty = ty, wh_receiver_index = from_le_bytes (take 4 (drop 4 buf))\<rparr>)"

definition looks_like_wg :: "bytes \<Rightarrow> bool" where
  "looks_like_wg buf = (parse_wg_header buf \<noteq> None)"

definition wrap_rpc :: "bytes \<Rightarrow> bytes" where
  "wrap_rpc rpc =
     (let len = 20 + 8 + length rpc;
          ip = [0x45, 0] @ to_be_bytes (of_nat len :: u16) @ [0, 0, 0, 0, 64, 17, 0, 0]
                 @ [10, 0, 0, 1] @ [10, 0, 0, 2];
          udp = to_be_bytes (1 :: u16) @ to_be_bytes (1 :: u16)
                  @ to_be_bytes (of_nat (8 + length rpc) :: u16) @ [0, 0]
      in ip @ udp @ rpc)"

definition unwrap_rpc :: "bytes \<Rightarrow> bytes" where
  "unwrap_rpc inner = (if length inner \<ge> 28 \<and> inner ! 0 = 0x45 then drop 28 inner else inner)"

definition encode_receiver_index :: "u8 \<Rightarrow> u32 \<Rightarrow> u32" where
  "encode_receiver_index shard loc = push_bit 24 (ucast shard) OR (loc AND 0x00FFFFFF)"

definition shard_from_receiver_index :: "u32 \<Rightarrow> u8" where
  "shard_from_receiver_index index = ucast (drop_bit 24 index)"

definition demux_shard :: "bytes \<Rightarrow> socket_addr \<Rightarrow> u32 \<Rightarrow> u32" where
  "demux_shard buf src shard_count =
     (if shard_count \<le> 1 then 0
      else case parse_wg_header buf of
          Some h \<Rightarrow>
            if wh_ty h = WG_TYPE_DATA
            then ucast (shard_from_receiver_index (wh_receiver_index h)) mod shard_count
            else let ip = (case sa_ip src of IpV4 a b c d \<Rightarrow> from_be_bytes [a, b, c, d]
                           | IpV6 _ \<Rightarrow> ucast (sa_port src))
                 in (ip XOR ucast (sa_port src)) mod shard_count
        | None \<Rightarrow>
            let ip = (case sa_ip src of IpV4 a b c d \<Rightarrow> from_be_bytes [a, b, c, d]
                      | IpV6 _ \<Rightarrow> ucast (sa_port src))
            in (ip XOR ucast (sa_port src)) mod shard_count)"

section \<open>Tunnels\<close>

datatype tunn_result = TrDone | TrErr | WriteToNetwork nat | WriteToTunnelV4 nat | WriteToTunnelV6 nat

record 't tunn_ops =
  tn_new :: "bytes \<Rightarrow> bytes \<Rightarrow> u16 \<Rightarrow> u32 \<Rightarrow> 't"
  tn_decapsulate :: "'t \<Rightarrow> ip_addr \<Rightarrow> bytes \<Rightarrow> bytes \<Rightarrow> tunn_result \<times> 't \<times> bytes"
  tn_encapsulate :: "'t \<Rightarrow> bytes \<Rightarrow> bytes \<Rightarrow> tunn_result \<times> 't \<times> bytes"
  tn_update_timers :: "'t \<Rightarrow> bytes \<Rightarrow> tunn_result \<times> 't \<times> bytes"

record 't session =
  se_tunn :: 't
  se_peer_id :: "node_id option"
  se_endpoint :: "socket_addr option"
  se_x25519 :: bytes

record 't wg_engine =
  wg_secret_key :: bytes
  wg_public_key :: bytes
  wg_shard_id :: u8
  wg_next_local :: u32
  wg_sessions :: "u32 \<rightharpoonup> 't session"
  wg_by_x25519 :: "bytes \<rightharpoonup> u32"
  wg_pow_nonce :: bytes
  wg_pow_bits :: u8

datatype decap = Plaintext nat | Network nat | Cookie bytes | Drop

definition wg_new :: "crypto \<Rightarrow> bytes \<Rightarrow> u8 \<Rightarrow> 't wg_engine" where
  "wg_new c secret shard =
     \<lparr>wg_secret_key = secret, wg_public_key = x_public c secret, wg_shard_id = shard,
      wg_next_local = 1, wg_sessions = Map.empty, wg_by_x25519 = Map.empty,
      wg_pow_nonce = replicate 16 0x11, wg_pow_bits = 0\<rparr>"

definition add_peer ::
    "'t tunn_ops \<Rightarrow> bytes \<Rightarrow> node_id option \<Rightarrow> socket_addr option \<Rightarrow> 't wg_engine \<Rightarrow> u32 \<times> 't wg_engine" where
  "add_peer ops peer_x peer_id endpoint w =
     (case wg_by_x25519 w peer_x of
        Some idx \<Rightarrow> (idx, w)
      | None \<Rightarrow>
          let index = encode_receiver_index (wg_shard_id w) (wg_next_local w);
              tunn = tn_new ops (wg_secret_key w) peer_x KEEPALIVE_SECS index
          in (index, w\<lparr>wg_next_local := wg_next_local w + 1,
               wg_by_x25519 := (wg_by_x25519 w)(peer_x \<mapsto> index),
               wg_sessions := (wg_sessions w)(index \<mapsto> \<lparr>se_tunn = tunn, se_peer_id = peer_id,
                 se_endpoint = endpoint, se_x25519 = peer_x\<rparr>)\<rparr>))"

definition check_initiation_pow :: "crypto \<Rightarrow> bytes \<Rightarrow> 't wg_engine \<Rightarrow> bool" where
  "check_initiation_pow c datagram w =
     (if wg_pow_bits w = 0 then True
      else if length datagram < 40 then False
      else verify_ephemeral_pow c (take 32 (drop 8 datagram)) (wg_pow_nonce w) (wg_pow_bits w))"

definition drive_decap ::
    "'t tunn_ops \<Rightarrow> 't \<Rightarrow> ip_addr \<Rightarrow> bytes \<Rightarrow> bytes \<Rightarrow> decap \<times> 't \<times> bytes" where
  "drive_decap ops tunn src datagram scratch =
     (case tn_decapsulate ops tunn src datagram scratch of (r, tunn', scratch') \<Rightarrow>
        (case r of
           WriteToNetwork n \<Rightarrow> Network n
         | WriteToTunnelV4 n \<Rightarrow> Plaintext n
         | WriteToTunnelV6 n \<Rightarrow> Plaintext n
         | TrDone \<Rightarrow> Drop
         | TrErr \<Rightarrow> Drop, tunn', scratch'))"

definition put_session :: "u32 \<Rightarrow> 't session \<Rightarrow> 't wg_engine \<Rightarrow> 't wg_engine" where
  "put_session idx s w = w\<lparr>wg_sessions := (wg_sessions w)(idx \<mapsto> s)\<rparr>"

text \<open>\<^verbatim>\<open>drain_session\<close>: the sessions of that endpoint, in the order of the map.\<close>

fun drain_loop ::
    "'t tunn_ops \<Rightarrow> socket_addr \<Rightarrow> u32 list \<Rightarrow> bytes \<Rightarrow> 't wg_engine \<Rightarrow> decap \<times> 't wg_engine \<times> bytes" where
  "drain_loop ops src [] scratch w = (Drop, w, scratch)"
| "drain_loop ops src (idx # keys) scratch w =
     (case wg_sessions w idx of
        None \<Rightarrow> drain_loop ops src keys scratch w
      | Some s \<Rightarrow>
          if se_endpoint s \<noteq> Some src then drain_loop ops src keys scratch w
          else (case drive_decap ops (se_tunn s) (sa_ip src) [] scratch of (r, t', scratch') \<Rightarrow>
            let w' = put_session idx (s\<lparr>se_tunn := t'\<rparr>) w
            in if r \<noteq> Drop then (r, w', scratch') else drain_loop ops src keys scratch' w'))"

text \<open>The loop of \<^verbatim>\<open>decapsulate\<close> that tries every session.\<close>

fun try_sessions ::
    "'t tunn_ops \<Rightarrow> socket_addr \<Rightarrow> bytes \<Rightarrow> u32 list \<Rightarrow> bytes \<Rightarrow> 't wg_engine \<Rightarrow> decap \<times> 't wg_engine \<times> bytes" where
  "try_sessions ops src datagram [] scratch w = (Drop, w, scratch)"
| "try_sessions ops src datagram (idx # keys) scratch w =
     (case wg_sessions w idx of
        None \<Rightarrow> try_sessions ops src datagram keys scratch w
      | Some s \<Rightarrow>
          (case drive_decap ops (se_tunn s) (sa_ip src) datagram scratch of (r, t', scratch') \<Rightarrow>
            if r \<noteq> Drop
            then (r, put_session idx (s\<lparr>se_tunn := t', se_endpoint := Some src\<rparr>) w, scratch')
            else try_sessions ops src datagram keys scratch' (put_session idx (s\<lparr>se_tunn := t'\<rparr>) w)))"

text \<open>\<^verbatim>\<open>cookie_reply\<close> writes the nonce and the difficulty into the scratch buffer.\<close>

definition cookie_reply :: "'t wg_engine \<Rightarrow> bytes \<Rightarrow> bytes \<times> bytes" where
  "cookie_reply w scratch =
     (let scratch' = wg_pow_nonce w @ [wg_pow_bits w] @ drop 17 scratch in (take 17 scratch', scratch'))"

definition decapsulate ::
    "'t tunn_ops \<Rightarrow> crypto \<Rightarrow> u32 list \<Rightarrow> socket_addr \<Rightarrow> bytes \<Rightarrow> bytes \<Rightarrow> 't wg_engine
      \<Rightarrow> decap \<times> 't wg_engine \<times> bytes" where
  "decapsulate ops c keys src datagram scratch w =
     (if datagram = [] then drain_loop ops src keys scratch w
      else case parse_wg_header datagram of
          None \<Rightarrow> (Drop, w, scratch)
        | Some hdr \<Rightarrow>
            if wh_ty hdr = WG_TYPE_INITIATION \<and> \<not> check_initiation_pow c datagram w
            then (let (cookie, scratch') = cookie_reply w scratch in (Cookie cookie, w, scratch'))
            else if wh_ty hdr = WG_TYPE_DATA \<or> wh_ty hdr = WG_TYPE_RESPONSE \<or> wh_ty hdr = WG_TYPE_COOKIE
            then (case wg_sessions w (wh_receiver_index hdr) of
                    Some s \<Rightarrow>
                      (case drive_decap ops (se_tunn s) (sa_ip src) datagram scratch of (r, t', scratch') \<Rightarrow>
                        (r, put_session (wh_receiver_index hdr)
                              (s\<lparr>se_tunn := t', se_endpoint := Some src\<rparr>) w, scratch'))
                  | None \<Rightarrow> try_sessions ops src datagram keys scratch w)
            else try_sessions ops src datagram keys scratch w)"

definition encapsulate ::
    "'t tunn_ops \<Rightarrow> bytes \<Rightarrow> bytes \<Rightarrow> bytes \<Rightarrow> 't wg_engine
      \<Rightarrow> (nat \<times> socket_addr) option \<times> 't wg_engine \<times> bytes" where
  "encapsulate ops peer_x plaintext out w =
     (case wg_by_x25519 w peer_x of None \<Rightarrow> (None, w, out)
      | Some idx \<Rightarrow> (case wg_sessions w idx of None \<Rightarrow> (None, w, out)
      | Some s \<Rightarrow> (case se_endpoint s of None \<Rightarrow> (None, w, out)
      | Some dest \<Rightarrow>
          (case tn_encapsulate ops (se_tunn s) plaintext out of (r, t', out') \<Rightarrow>
             (case r of WriteToNetwork n \<Rightarrow> Some (n, dest) | _ \<Rightarrow> None,
              put_session idx (s\<lparr>se_tunn := t'\<rparr>) w, out')))))"

definition encapsulate_to ::
    "'t tunn_ops \<Rightarrow> socket_addr \<Rightarrow> bytes \<Rightarrow> node_id option \<Rightarrow> bytes \<Rightarrow> bytes \<Rightarrow> 't wg_engine
      \<Rightarrow> nat option \<times> 't wg_engine \<times> bytes" where
  "encapsulate_to ops dest peer_x peer_id plaintext out w =
     (let w1 = snd (add_peer ops peer_x peer_id (Some dest) w)
      in case wg_by_x25519 w1 peer_x of None \<Rightarrow> (None, w1, out)
         | Some idx \<Rightarrow> (case wg_sessions w1 idx of None \<Rightarrow> (None, w1, out)
         | Some s \<Rightarrow>
             (case tn_encapsulate ops (se_tunn s) plaintext out of (r, t', out') \<Rightarrow>
                (case r of WriteToNetwork n \<Rightarrow> Some n | _ \<Rightarrow> None,
                 put_session idx (s\<lparr>se_tunn := t', se_endpoint := Some dest\<rparr>) w1, out'))))"

fun tick_keepalive ::
    "'t tunn_ops \<Rightarrow> u32 list \<Rightarrow> bytes \<Rightarrow> 't wg_engine \<Rightarrow> (nat \<times> socket_addr) list \<times> 't wg_engine \<times> bytes" where
  "tick_keepalive ops [] out w = ([], w, out)"
| "tick_keepalive ops (idx # keys) out w =
     (case wg_sessions w idx of None \<Rightarrow> tick_keepalive ops keys out w
      | Some s \<Rightarrow> (case se_endpoint s of None \<Rightarrow> tick_keepalive ops keys out w
      | Some dest \<Rightarrow>
          (case tn_update_timers ops (se_tunn s) out of (r, t', out') \<Rightarrow>
            (case tick_keepalive ops keys out' (put_session idx (s\<lparr>se_tunn := t'\<rparr>) w) of (pkts, w', out'') \<Rightarrow>
              (case r of WriteToNetwork n \<Rightarrow> (n, dest) # pkts | _ \<Rightarrow> pkts, w', out'')))))"

section \<open>Runs\<close>

datatype wg_event =
    WgAdd bytes "node_id option" "socket_addr option"
  | WgDecap "u32 list" socket_addr bytes bytes
  | WgEncap bytes bytes bytes
  | WgEncapTo socket_addr bytes "node_id option" bytes bytes
  | WgTick "u32 list" bytes

fun wg_step :: "'t tunn_ops \<Rightarrow> crypto \<Rightarrow> 't wg_engine \<Rightarrow> wg_event \<Rightarrow> 't wg_engine" where
  "wg_step ops c w (WgAdd x i e) = snd (add_peer ops x i e w)"
| "wg_step ops c w (WgDecap keys src d scratch) = fst (snd (decapsulate ops c keys src d scratch w))"
| "wg_step ops c w (WgEncap x p out) = fst (snd (encapsulate ops x p out w))"
| "wg_step ops c w (WgEncapTo dest x i p out) = fst (snd (encapsulate_to ops dest x i p out w))"
| "wg_step ops c w (WgTick keys out) = fst (snd (tick_keepalive ops keys out w))"

section \<open>Lemmas on indices\<close>

lemma mask24: "(0x00FFFFFF :: u32) = mask 24"
  by (simp add: mask_eq_exp_minus_1)

lemma shard_from_encode [simp]: "shard_from_receiver_index (encode_receiver_index s l) = s"
  unfolding shard_from_receiver_index_def encode_receiver_index_def mask24
  by (rule bit_word_eqI) (auto simp: bit_simps)

lemma local_from_encode: "encode_receiver_index s l AND mask 24 = l AND mask 24"
  unfolding encode_receiver_index_def mask24
  by (rule bit_word_eqI) (auto simp: bit_simps)

lemma and_mask24: "unat l < 2 ^ 24 \<Longrightarrow> (l :: u32) AND mask 24 = l"
proof -
  assume "unat l < 2 ^ 24"
  then have "unat (take_bit 24 l) = unat l"
    by (simp add: unsigned_take_bit_eq take_bit_nat_eq_self)
  then have "take_bit 24 l = l"
    by (simp only: word_unat_eq_iff)
  then show ?thesis
    by (simp add: take_bit_eq_mask)
qed

section \<open>Consistency of the engine\<close>

text \<open>
  The two maps agree: each known key has exactly one session and each session is reached through
  its key; every index carries the number of this shard and a local part that was handed out.
\<close>

definition wg_ok :: "'t wg_engine \<Rightarrow> bool" where
  "wg_ok w = ((\<forall>k i. wg_by_x25519 w k = Some i \<longrightarrow> (\<exists>s. wg_sessions w i = Some s \<and> se_x25519 s = k))
     \<and> (\<forall>i s. wg_sessions w i = Some s \<longrightarrow> wg_by_x25519 w (se_x25519 s) = Some i
          \<and> shard_from_receiver_index i = wg_shard_id w \<and> (i AND mask 24) < wg_next_local w))"

lemma wg_new_ok: "wg_ok (wg_new c secret shard)"
  by (simp add: wg_ok_def wg_new_def)

lemma wg_ok_key: "wg_ok w \<Longrightarrow> wg_by_x25519 w k = Some i \<Longrightarrow> \<exists>s. wg_sessions w i = Some s \<and> se_x25519 s = k"
  by (simp add: wg_ok_def)

lemma wg_ok_session:
  assumes "wg_ok w" and "wg_sessions w i = Some s"
  shows "wg_by_x25519 w (se_x25519 s) = Some i" and "shard_from_receiver_index i = wg_shard_id w"
    and "i AND mask 24 < wg_next_local w"
  using assms by (simp_all add: wg_ok_def)

lemma put_session_simps [simp]:
  "wg_next_local (put_session idx s w) = wg_next_local w"
  "wg_shard_id (put_session idx s w) = wg_shard_id w"
  "wg_by_x25519 (put_session idx s w) = wg_by_x25519 w"
  "wg_sessions (put_session idx s w) = (wg_sessions w)(idx \<mapsto> s)"
  by (simp_all add: put_session_def)

lemma put_session_ok:
  assumes ok: "wg_ok w" and s: "wg_sessions w idx = Some s" and x: "se_x25519 s' = se_x25519 s"
  shows "wg_ok (put_session idx s' w)"
proof -
  have "\<exists>q. wg_sessions (put_session idx s' w) i = Some q \<and> se_x25519 q = k"
    if "wg_by_x25519 w k = Some i" for k i
    using wg_ok_key [OF ok that] s x by (cases "i = idx") auto
  moreover have "wg_by_x25519 w (se_x25519 q) = Some i \<and> shard_from_receiver_index i = wg_shard_id w
      \<and> i AND mask 24 < wg_next_local w"
    if "wg_sessions (put_session idx s' w) i = Some q" for i q
    using that wg_ok_session [OF ok s] wg_ok_session [OF ok, of i q] x by (cases "i = idx") auto
  ultimately show ?thesis
    unfolding wg_ok_def by simp
qed

lemma add_peer_ok:
  assumes ok: "wg_ok w" and bound: "unat (wg_next_local w) < 2 ^ 24"
  shows "wg_ok (snd (add_peer ops x i e w))"
    and "unat (wg_next_local (snd (add_peer ops x i e w))) \<le> unat (wg_next_local w) + 1"
    and "wg_by_x25519 (snd (add_peer ops x i e w)) x = Some (fst (add_peer ops x i e w))"
proof -
  let ?n = "wg_next_local w"
  let ?idx = "encode_receiver_index (wg_shard_id w) ?n"
  have n: "?idx AND mask 24 = ?n"
    using bound by (simp add: local_from_encode and_mask24)
  then have fresh: "wg_sessions w ?idx = None"
    using wg_ok_session(3) [OF ok, of ?idx] by (cases "wg_sessions w ?idx") auto
  have n1: "unat (?n + 1) = unat ?n + 1"
    using bound by (simp add: unat_word_ariths)
  then have less: "?n < ?n + 1"
    by (simp add: word_less_nat_alt)
  show "unat (wg_next_local (snd (add_peer ops x i e w))) \<le> unat ?n + 1"
    using n1 by (simp add: add_peer_def Let_def split: option.splits)
  show "wg_by_x25519 (snd (add_peer ops x i e w)) x = Some (fst (add_peer ops x i e w))"
    by (simp add: add_peer_def Let_def split: option.splits)
  show "wg_ok (snd (add_peer ops x i e w))"
  proof (cases "wg_by_x25519 w x")
    case None
    define s0 where "s0 = \<lparr>se_tunn = tn_new ops (wg_secret_key w) x KEEPALIVE_SECS ?idx, se_peer_id = i,
        se_endpoint = e, se_x25519 = x\<rparr>"
    have w': "snd (add_peer ops x i e w) = w\<lparr>wg_next_local := ?n + 1,
        wg_by_x25519 := (wg_by_x25519 w)(x \<mapsto> ?idx), wg_sessions := (wg_sessions w)(?idx \<mapsto> s0)\<rparr>"
      by (simp add: add_peer_def None Let_def s0_def)
    have old: "se_x25519 s \<noteq> x \<and> i' \<noteq> ?idx \<and> i' AND mask 24 < ?n + 1"
      if "wg_sessions w i' = Some s" for i' s
      using wg_ok_session [OF ok that] that None fresh less by (auto intro: less_trans)
    have "\<exists>s. ((wg_sessions w)(?idx \<mapsto> s0)) j = Some s \<and> se_x25519 s = k"
      if "((wg_by_x25519 w)(x \<mapsto> ?idx)) k = Some j" for j k
      using that wg_ok_key [OF ok, of k j] old by (cases "k = x") (auto simp: s0_def)
    moreover have "((wg_by_x25519 w)(x \<mapsto> ?idx)) (se_x25519 s) = Some j
        \<and> shard_from_receiver_index j = wg_shard_id w \<and> j AND mask 24 < ?n + 1"
      if "((wg_sessions w)(?idx \<mapsto> s0)) j = Some s" for j s
      using that wg_ok_session [OF ok, of j s] old [of j s] n less
      by (cases "j = ?idx") (auto simp: s0_def)
    ultimately show ?thesis
      unfolding w' wg_ok_def by simp
  next
    case (Some idx)
    then show ?thesis using ok by (simp add: add_peer_def)
  qed
qed

lemma drain_loop_ok:
  "wg_ok w \<Longrightarrow> wg_ok (fst (snd (drain_loop ops src keys scratch w)))
     \<and> wg_next_local (fst (snd (drain_loop ops src keys scratch w))) = wg_next_local w"
proof (induction keys arbitrary: w scratch)
  case Nil
  then show ?case by simp
next
  case (Cons idx keys)
  show ?case
  proof (cases "wg_sessions w idx")
    case None
    with Cons show ?thesis by simp
  next
    case (Some s)
    obtain r t' sc where d: "drive_decap ops (se_tunn s) (sa_ip src) [] scratch = (r, t', sc)"
      by (cases "drive_decap ops (se_tunn s) (sa_ip src) [] scratch")
    have p: "wg_ok (put_session idx (s\<lparr>se_tunn := t'\<rparr>) w)"
      using Cons.prems Some by (rule put_session_ok) simp
    with Cons.IH [OF p, of sc] Cons.IH [OF Cons.prems, of scratch] Some d show ?thesis
      by (simp add: Let_def)
  qed
qed

lemma try_sessions_ok:
  "wg_ok w \<Longrightarrow> wg_ok (fst (snd (try_sessions ops src dg keys scratch w)))
     \<and> wg_next_local (fst (snd (try_sessions ops src dg keys scratch w))) = wg_next_local w"
proof (induction keys arbitrary: w scratch)
  case Nil
  then show ?case by simp
next
  case (Cons idx keys)
  show ?case
  proof (cases "wg_sessions w idx")
    case None
    with Cons show ?thesis by simp
  next
    case (Some s)
    obtain r t' sc where d: "drive_decap ops (se_tunn s) (sa_ip src) dg scratch = (r, t', sc)"
      by (cases "drive_decap ops (se_tunn s) (sa_ip src) dg scratch")
    have p: "wg_ok (put_session idx (s\<lparr>se_tunn := t'\<rparr>) w)"
      using Cons.prems Some by (rule put_session_ok) simp
    have q: "wg_ok (put_session idx (s\<lparr>se_tunn := t', se_endpoint := Some src\<rparr>) w)"
      using Cons.prems Some by (rule put_session_ok) simp
    from q Cons.IH [OF p, of sc] Some d show ?thesis
      by simp
  qed
qed

lemma tick_keepalive_ok:
  "wg_ok w \<Longrightarrow> wg_ok (fst (snd (tick_keepalive ops keys out w)))
     \<and> wg_next_local (fst (snd (tick_keepalive ops keys out w))) = wg_next_local w"
proof (induction keys arbitrary: w out)
  case Nil
  then show ?case by simp
next
  case (Cons idx keys)
  show ?case
  proof (cases "wg_sessions w idx")
    case None
    with Cons show ?thesis by simp
  next
    case (Some s)
    obtain r t' o' where d: "tn_update_timers ops (se_tunn s) out = (r, t', o')"
      by (cases "tn_update_timers ops (se_tunn s) out")
    have p: "wg_ok (put_session idx (s\<lparr>se_tunn := t'\<rparr>) w)"
      using Cons.prems Some by (rule put_session_ok) simp
    with Cons.IH [OF p, of o'] Cons.IH [OF Cons.prems, of out] Some d show ?thesis
      by (cases "se_endpoint s") (simp_all add: split_beta)
  qed
qed

lemma encapsulate_ok:
  assumes "wg_ok w"
  shows "wg_ok (fst (snd (encapsulate ops x p out w)))
    \<and> wg_next_local (fst (snd (encapsulate ops x p out w))) = wg_next_local w"
  using assms put_session_ok [OF assms]
  by (auto simp: encapsulate_def split: option.splits prod.splits)

lemma encapsulate_to_ok:
  assumes "wg_ok w" and "unat (wg_next_local w) < 2 ^ 24"
  shows "wg_ok (fst (snd (encapsulate_to ops dest x i p out w)))
    \<and> wg_next_local (fst (snd (encapsulate_to ops dest x i p out w)))
        = wg_next_local (snd (add_peer ops x i (Some dest) w))"
  using add_peer_ok(1) [OF assms, of ops x i "Some dest"]
    put_session_ok [of "snd (add_peer ops x i (Some dest) w)"]
  by (auto simp: encapsulate_to_def Let_def split: option.splits prod.splits)

lemma decapsulate_ok:
  assumes "wg_ok w"
  shows "wg_ok (fst (snd (decapsulate ops c keys src d scratch w)))
    \<and> wg_next_local (fst (snd (decapsulate ops c keys src d scratch w))) = wg_next_local w"
  using assms drain_loop_ok [OF assms] try_sessions_ok [OF assms] put_session_ok [OF assms]
  by (auto simp: decapsulate_def Let_def split_beta split: option.splits prod.splits)

lemma wg_step_ok:
  assumes "wg_ok w" and "unat (wg_next_local w) < 2 ^ 24"
  shows "wg_ok (wg_step ops c w e)
    \<and> unat (wg_next_local (wg_step ops c w e)) \<le> unat (wg_next_local w) + 1"
proof (cases e)
  case (WgEncapTo dest x i p out)
  then show ?thesis
    using encapsulate_to_ok [OF assms, of ops dest x i p out]
      add_peer_ok(2) [OF assms, of ops x i "Some dest"] by simp
qed (use assms add_peer_ok [OF assms] decapsulate_ok [OF assms(1)] encapsulate_ok [OF assms(1)]
    tick_keepalive_ok [OF assms(1)] in simp_all)

lemma wg_run_ok:
  "wg_ok w \<Longrightarrow> unat (wg_next_local w) + length es < 2 ^ 24 \<Longrightarrow> wg_ok (foldl (wg_step ops c) w es)"
proof (induction es arbitrary: w)
  case Nil
  then show ?case by simp
next
  case (Cons e es)
  then have "wg_ok (wg_step ops c w e) \<and> unat (wg_next_local (wg_step ops c w e)) \<le> unat (wg_next_local w) + 1"
    by (intro wg_step_ok) simp_all
  with Cons show ?case by simp
qed

lemma parse_data_header:
  "parse_wg_header (to_le_bytes WG_TYPE_DATA @ to_le_bytes i @ rest)
     = Some \<lparr>wh_ty = WG_TYPE_DATA, wh_receiver_index = i\<rparr>"
  by (simp add: parse_wg_header_def WG_TYPE_DATA_def)

text \<open>
  What holds in every run, however long: the engine keeps its secret key and the number of its shard,
  every known key leads to a session, every session was made for a known key, and its index carries
  the number of the shard.
\<close>

definition wg_home :: "u8 \<Rightarrow> bytes \<Rightarrow> 't wg_engine \<Rightarrow> bool" where
  "wg_home n secret w = (wg_shard_id w = n \<and> wg_secret_key w = secret
     \<and> (\<forall>k i. wg_by_x25519 w k = Some i \<longrightarrow> wg_sessions w i \<noteq> None)
     \<and> (\<forall>i s. wg_sessions w i = Some s \<longrightarrow> shard_from_receiver_index i = n \<and> wg_by_x25519 w (se_x25519 s) \<noteq> None))"

lemma wg_new_home: "wg_home shard secret (wg_new c secret shard)"
  by (simp add: wg_home_def wg_new_def)

lemma wg_home_put:
  "wg_home n secret w \<Longrightarrow> wg_sessions w idx = Some s \<Longrightarrow> se_x25519 s' = se_x25519 s \<Longrightarrow>
     wg_home n secret (put_session idx s' w)"
  by (auto simp: wg_home_def put_session_def)

lemma wg_home_add: "wg_home n secret w \<Longrightarrow> wg_home n secret (snd (add_peer ops x i e w))"
  by (auto simp: wg_home_def add_peer_def Let_def split: option.split)

lemma wg_home_drain: "wg_home n secret w \<Longrightarrow> wg_home n secret (fst (snd (drain_loop ops src keys scratch w)))"
  by (induction keys arbitrary: w scratch)
    (auto simp: Let_def split_beta wg_home_put split: option.split)

lemma wg_home_try: "wg_home n secret w \<Longrightarrow> wg_home n secret (fst (snd (try_sessions ops src dg keys scratch w)))"
  by (induction keys arbitrary: w scratch)
    (auto simp: Let_def split_beta wg_home_put split: option.split)

lemma wg_home_tick: "wg_home n secret w \<Longrightarrow> wg_home n secret (fst (snd (tick_keepalive ops keys out w)))"
  by (induction keys arbitrary: w out)
    (auto simp: split_beta wg_home_put split: option.split)

lemma wg_home_step: "wg_home n secret w \<Longrightarrow> wg_home n secret (wg_step ops c w e)"
proof (cases e)
  case (WgEncapTo dest x i p out)
  moreover assume "wg_home n secret w"
  then have "wg_home n secret (snd (add_peer ops x i (Some dest) w))"
    by (rule wg_home_add)
  ultimately show ?thesis
    by (auto simp: encapsulate_to_def Let_def split_beta wg_home_put split: option.split)
qed (auto simp: wg_home_add wg_home_drain wg_home_try wg_home_tick decapsulate_def encapsulate_def Let_def split_beta
    wg_home_put split: option.split)

section \<open>Properties\<close>

text \<open>
  C31. The sessions of a shard's engine: in any run of fewer than \<open>2 ^ 24 - 1\<close> operations every known
  peer key has one session, no two keys share an index, and a data packet that carries the index of a
  session is given to the tunnel of that session and to no other: the outcome is what this tunnel
  answers, the session remembers the sender as its endpoint, and every other session stays as it was.
\<close>

theorem wg_data_reaches_session:
  assumes "length es < 2 ^ 24 - 1" and "w = foldl (wg_step ops c) (wg_new c secret shard) es"
    and "wg_by_x25519 w k = Some i"
    and "decapsulate ops c keys src (to_le_bytes WG_TYPE_DATA @ to_le_bytes i @ rest) scratch w = (r, w', scratch')"
  shows "\<exists>s t. wg_sessions w i = Some s \<and> se_x25519 s = k
    \<and> (\<forall>k'. wg_by_x25519 w k' = Some i \<longrightarrow> k' = k)
    \<and> drive_decap ops (se_tunn s) (sa_ip src) (to_le_bytes WG_TYPE_DATA @ to_le_bytes i @ rest) scratch = (r, t, scratch')
    \<and> wg_sessions w' = (wg_sessions w)(i \<mapsto> s\<lparr>se_tunn := t, se_endpoint := Some src\<rparr>)
    \<and> wg_by_x25519 w' = wg_by_x25519 w"
proof -
  define d where "d = to_le_bytes WG_TYPE_DATA @ to_le_bytes i @ rest"
  have ok: "wg_ok w"
    unfolding assms(2) by (rule wg_run_ok [OF wg_new_ok]) (use assms(1) in \<open>simp add: wg_new_def\<close>)
  obtain s where s: "wg_sessions w i = Some s" "se_x25519 s = k"
    using wg_ok_key [OF ok assms(3)] by auto
  obtain q t b where q: "drive_decap ops (se_tunn s) (sa_ip src) d scratch = (q, t, b)"
    by (rule prod_cases3)
  have "length d \<noteq> 0"
    by (simp add: d_def)
  then have "d \<noteq> []"
    by auto
  moreover have "parse_wg_header d = Some \<lparr>wh_ty = WG_TYPE_DATA, wh_receiver_index = i\<rparr>"
    by (simp add: d_def parse_data_header)
  ultimately have "r = q \<and> scratch' = b \<and> w' = put_session i (s\<lparr>se_tunn := t, se_endpoint := Some src\<rparr>) w"
    using assms(4) q s unfolding d_def [symmetric]
    by (auto simp: decapsulate_def WG_TYPE_DATA_def WG_TYPE_INITIATION_def)
  moreover have "k' = k" if "wg_by_x25519 w k' = Some i" for k'
    using wg_ok_key [OF ok that] s by simp
  ultimately show ?thesis
    using s q unfolding d_def [symmetric] by auto
qed

theorem wg_data_reaches_session_witness:
  "let ops = \<lparr>tn_new = (\<lambda>_ _ _ _. 0 :: nat), tn_decapsulate = (\<lambda>t _ _ b. (WriteToTunnelV4 4, Suc t, b)),
         tn_encapsulate = (\<lambda>t _ b. (TrDone, t, b)), tn_update_timers = (\<lambda>t b. (TrDone, t, b))\<rparr>;
       w = foldl (wg_step ops demo_crypto) (wg_new demo_crypto (replicate 32 1) 3)
             [WgAdd (replicate 32 7) None None, WgAdd (replicate 32 8) None None];
       (r, w', b) = decapsulate ops demo_crypto [] (AddrV4 10 0 0 1 9)
         (to_le_bytes WG_TYPE_DATA @ to_le_bytes (encode_receiver_index 3 1) @ [1, 2]) [] w
   in r = Plaintext 4 \<and> map_option se_tunn (wg_sessions w' (encode_receiver_index 3 1)) = Some 1
      \<and> wg_sessions w' (encode_receiver_index 3 2) = wg_sessions w (encode_receiver_index 3 2)"
proof -
  define ops :: "nat tunn_ops" where "ops = \<lparr>tn_new = (\<lambda>_ _ _ _. 0 :: nat),
         tn_decapsulate = (\<lambda>t _ _ b. (WriteToTunnelV4 4, Suc t, b)),
         tn_encapsulate = (\<lambda>t _ b. (TrDone, t, b)), tn_update_timers = (\<lambda>t b. (TrDone, t, b))\<rparr>"
  let ?es = "[WgAdd (replicate 32 7) None None, WgAdd (replicate 32 8) None None]"
  let ?w = "foldl (wg_step ops demo_crypto) (wg_new demo_crypto (replicate 32 1) 3) ?es"
  have ne: "encode_receiver_index 3 2 \<noteq> encode_receiver_index 3 1"
    by (simp add: encode_receiver_index_def)
  have i: "wg_by_x25519 ?w (replicate 32 7) = Some (encode_receiver_index 3 1)"
    by (simp add: add_peer_def wg_new_def Let_def)
  have t: "wg_sessions ?w (encode_receiver_index 3 1) = Some s \<Longrightarrow> se_tunn s = 0" for s
    using ne by (auto simp: add_peer_def wg_new_def Let_def ops_def)
  obtain r w' b where d: "decapsulate ops demo_crypto [] (AddrV4 10 0 0 1 9)
         (to_le_bytes WG_TYPE_DATA @ to_le_bytes (encode_receiver_index 3 1) @ [1, 2]) [] ?w = (r, w', b)"
    by (rule prod_cases3)
  have "length ?es < 2 ^ 24 - 1" by simp
  from wg_data_reaches_session [OF this refl i d] t ne
  have "r = Plaintext 4 \<and> map_option se_tunn (wg_sessions w' (encode_receiver_index 3 1)) = Some 1
      \<and> wg_sessions w' (encode_receiver_index 3 2) = wg_sessions ?w (encode_receiver_index 3 2)"
    by (auto simp: drive_decap_def) (simp_all add: ops_def)
  with d show ?thesis
    unfolding ops_def [symmetric] Let_def by simp
qed

text \<open>
  The inner IP envelope is transparent: unwrapping what was wrapped gives the request back, and a
  bare request, which begins with the protocol version, passes through unwrapping unchanged.
\<close>

theorem wrap_unwrap_rpc:
  "unwrap_rpc (wrap_rpc rpc) = rpc \<and> unwrap_rpc (PROTOCOL_VERSION # rest) = PROTOCOL_VERSION # rest"
  by (simp add: unwrap_rpc_def wrap_rpc_def Let_def PROTOCOL_VERSION_def)

end
