(* ===== verification/Erasure.thy ===== *)
theory Erasure
  imports Prelude
begin

text \<open>
  \<^verbatim>\<open>src/erasure.rs\<close>: splitting a large value into ten data shards and four parity shards. The
  Reed-Solomon code is a library: its two functions are the fields of \<open>rs_ops\<close>, with \<open>None\<close> for
  an error, and what it promises about a run is a hypothesis of the theorem.
\<close>

definition DATA_SHARDS :: nat where "DATA_SHARDS = 10"
definition PARITY_SHARDS :: nat where "PARITY_SHARDS = 4"
definition THRESHOLD :: nat where "THRESHOLD = 1024 * 1024"

record rs_ops =
  rs_encode :: "bytes list \<Rightarrow> bytes list option"
  rs_reconstruct :: "bytes option list \<Rightarrow> bytes option list option"

definition should_erasure :: "nat \<Rightarrow> bool" where
  "should_erasure len = (len \<ge> THRESHOLD)"

definition div_ceil :: "nat \<Rightarrow> nat \<Rightarrow> nat" where
  "div_ceil a b = (if a mod b = 0 then a div b else a div b + 1)"

definition data_shard :: "bytes \<Rightarrow> nat \<Rightarrow> nat \<Rightarrow> bytes" where
  "data_shard data shard_len i =
     (let start = i * shard_len
      in if start < length data
         then let n = min (length data - start) shard_len
              in take n (drop start data) @ replicate (shard_len - n) 0
         else replicate shard_len 0)"

definition split_shards :: "bytes \<Rightarrow> bytes list" where
  "split_shards data =
     (let shard_len = div_ceil (length data) DATA_SHARDS
      in map (data_shard data shard_len) [0..<DATA_SHARDS]
         @ replicate PARITY_SHARDS (replicate shard_len 0))"

definition erasure_encode :: "rs_ops \<Rightarrow> bytes \<Rightarrow> bytes list option" where
  "erasure_encode rs data = rs_encode rs (split_shards data)"

definition erasure_reconstruct :: "rs_ops \<Rightarrow> bytes option list \<Rightarrow> nat \<Rightarrow> bytes option" where
  "erasure_reconstruct rs shards original_len =
     (case rs_reconstruct rs shards of
        None \<Rightarrow> None
      | Some full \<Rightarrow>
          Some (take original_len (concat (List.map_filter id (take DATA_SHARDS full)))))"

section \<open>Lemmas\<close>

lemma data_shard_eq: "data_shard data n i = take n (drop (i * n) data @ replicate n 0)"
  by (auto simp: data_shard_def Let_def min_def)

lemma concat_chunks:
  "concat (map (\<lambda>i. take n (drop (i * n) xs)) [0..<m]) = take (m * n) xs"
proof (induction m)
  case 0
  then show ?case by simp
next
  case (Suc m)
  then show ?case by (simp add: take_add [symmetric] add.commute)
qed

lemma div_ceil_bound: "a \<le> 10 * div_ceil a 10"
  by (simp add: div_ceil_def) presburger

text \<open>The data shards are consecutive pieces of the value, padded with zeros.\<close>

lemma concat_data_shards:
  "take (length data) (concat (map (data_shard data n) [0..<m])) = take (m * n) data"
proof -
  let ?z = "data @ replicate (m * n) 0"
  have "data_shard data n i = take n (drop (i * n) ?z)" if "i < m" for i
  proof -
    have "Suc i * n \<le> m * n"
      using that by (intro mult_le_mono1) simp
    then have "n - (length data - i * n) \<le> m * n - (i * n - length data)"
      unfolding mult_Suc by linarith
    then show ?thesis
      by (simp add: data_shard_eq)
  qed
  then have "concat (map (data_shard data n) [0..<m]) = take (m * n) ?z"
    unfolding concat_chunks [symmetric] by (intro arg_cong [of _ _ concat] map_cong) simp_all
  then show ?thesis
    by (simp add: min_def)
qed

section \<open>Properties\<close>

text \<open>
  C37. Erasure coding loses nothing: if the code keeps the data shards in place when it encodes and
  restores the erased shards of this value, then reconstruction returns exactly the original value,
  with the padding removed, whichever shards were lost.
\<close>

theorem erasure_roundtrip:
  assumes "erasure_encode rs data = Some shards"
    and "take DATA_SHARDS shards = take DATA_SHARDS (split_shards data)"
    and "rs_reconstruct rs (map (\<lambda>i. if i \<in> lost then None else Some (shards ! i)) [0..<length shards])
      = Some (map Some shards)"
  shows "erasure_reconstruct rs (map (\<lambda>i. if i \<in> lost then None else Some (shards ! i)) [0..<length shards])
      (length data) = Some data"
proof -
  let ?n = "div_ceil (length data) DATA_SHARDS"
  have "List.map_filter id (map Some xs) = xs" for xs :: "bytes list"
    by (induction xs) (simp_all add: map_filter_simps)
  then have "List.map_filter id (take DATA_SHARDS (map Some shards)) = take DATA_SHARDS shards"
    by (simp add: take_map)
  also have "\<dots> = map (data_shard data ?n) [0..<DATA_SHARDS]"
    by (simp add: assms(2) split_shards_def Let_def)
  finally show ?thesis
    using concat_data_shards [of data ?n DATA_SHARDS] div_ceil_bound [of "length data"]
    by (simp add: erasure_reconstruct_def assms(3) DATA_SHARDS_def)
qed

theorem erasure_roundtrip_witness:
  "let rs = \<lparr>rs_encode = Some, rs_reconstruct = (\<lambda>s. Some (map (\<lambda>x. case x of None \<Rightarrow> Some [0] | Some b \<Rightarrow> Some b) s))\<rparr>
   in erasure_reconstruct rs (map (\<lambda>i. if i \<in> {3, 11} then None else Some ((split_shards (replicate 10 0)) ! i)) [0..<14]) 10
      = Some (replicate 10 0)"
proof -
  define rs where "rs = \<lparr>rs_encode = Some,
    rs_reconstruct = (\<lambda>s. Some (map (\<lambda>x. case x of None \<Rightarrow> Some [0] | Some b \<Rightarrow> Some b) s))\<rparr>"
  have sh: "split_shards (replicate 10 0) = replicate 14 [0]"
    by code_simp
  have rec: "rs_reconstruct rs (map (\<lambda>i. if i \<in> {3, 11} then None else Some ((replicate 14 [0]) ! i))
      [0..<length (replicate 14 [0 :: u8])]) = Some (map Some (replicate 14 [0]))"
    unfolding rs_def by code_simp
  have enc: "erasure_encode rs (replicate 10 0) = Some (replicate 14 [0])"
    by (simp add: erasure_encode_def rs_def sh)
  have "take DATA_SHARDS (replicate 14 [0]) = take DATA_SHARDS (split_shards (replicate 10 0))"
    by (simp add: sh)
  from erasure_roundtrip [OF enc this rec]
  show ?thesis
    unfolding Let_def rs_def [symmetric] sh length_replicate .
qed

end
