(* ===== verification/Rust_Text.thy ===== *)
theory Rust_Text
  imports Crypto
begin

text \<open>
  What the gateway and the command line use of Rust's strings: a \<^verbatim>\<open>str\<close> is its UTF-8 bytes, of which
  \<^verbatim>\<open>utf8_ok\<close> tells the well-formed ones. Lossy decoding, white space, splitting and joining, and
  decimal numbers.
\<close>

section \<open>UTF-8\<close>

definition is_cont :: "u8 \<Rightarrow> bool" where
  "is_cont b = (0x80 \<le> b \<and> b \<le> 0xBF)"

text \<open>
  The first character: \<open>Inr n\<close> when it has \<open>n\<close> bytes, \<open>Inl n\<close> when the first \<open>n\<close> bytes are not the
  beginning of one and are to be replaced together.
\<close>

definition second_ok :: "u8 \<Rightarrow> u8 \<Rightarrow> bool" where
  "second_ok a b = (is_cont b \<and> (a = 0xE0 \<longrightarrow> 0xA0 \<le> b) \<and> (a = 0xED \<longrightarrow> b \<le> 0x9F)
     \<and> (a = 0xF0 \<longrightarrow> 0x90 \<le> b) \<and> (a = 0xF4 \<longrightarrow> b \<le> 0x8F))"

fun utf8_char :: "bytes \<Rightarrow> nat + nat" where
  "utf8_char [] = Inl 0"
| "utf8_char (a # bs) =
     (if a \<le> 0x7F then Inr 1
      else if 0xC2 \<le> a \<and> a \<le> 0xDF then
        (case bs of b # _ \<Rightarrow> if is_cont b then Inr 2 else Inl 1 | [] \<Rightarrow> Inl 1)
      else if 0xE0 \<le> a \<and> a \<le> 0xEF then
        (case bs of
           b # bs2 \<Rightarrow>
             if second_ok a b then (case bs2 of c # _ \<Rightarrow> if is_cont c then Inr 3 else Inl 2 | [] \<Rightarrow> Inl 2)
             else Inl 1
         | [] \<Rightarrow> Inl 1)
      else if 0xF0 \<le> a \<and> a \<le> 0xF4 then
        (case bs of
           b # bs2 \<Rightarrow>
             if second_ok a b then
               (case bs2 of
                  c # bs3 \<Rightarrow>
                    if is_cont c then (case bs3 of d # _ \<Rightarrow> if is_cont d then Inr 4 else Inl 3 | [] \<Rightarrow> Inl 3)
                    else Inl 2
                | [] \<Rightarrow> Inl 2)
             else Inl 1
         | [] \<Rightarrow> Inl 1)
      else Inl 1)"

lemma utf8_char_pos: "bs \<noteq> [] \<Longrightarrow> utf8_char bs = Inl n \<or> utf8_char bs = Inr n \<Longrightarrow> 0 < n \<and> n \<le> length bs"
  by (cases bs) (auto split: if_splits list.splits)

lemma utf8_char_decr [termination_simp]:
  "utf8_char (a # bs) = Inl n \<Longrightarrow> Suc (length bs) - n < Suc (length bs)"
  "utf8_char (a # bs) = Inr n \<Longrightarrow> Suc (length bs) - n < Suc (length bs)"
  using utf8_char_pos [of "a # bs" n] by auto

declare utf8_char.simps [simp del]

text \<open>\<^verbatim>\<open>std::str::from_utf8\<close> succeeds on exactly the well-formed strings.\<close>

fun utf8_ok :: "bytes \<Rightarrow> bool" where
  "utf8_ok [] = True"
| "utf8_ok (a # bs) = (case utf8_char (a # bs) of Inr n \<Rightarrow> utf8_ok (drop n (a # bs)) | Inl _ \<Rightarrow> False)"

definition from_utf8 :: "bytes \<Rightarrow> bytes option" where
  "from_utf8 bs = (if utf8_ok bs then Some bs else None)"

text \<open>\<^verbatim>\<open>String::from_utf8_lossy\<close>: each ill-formed sequence becomes U+FFFD.\<close>

definition REPLACEMENT :: bytes where "REPLACEMENT = [0xEF, 0xBF, 0xBD]"

fun from_utf8_lossy :: "bytes \<Rightarrow> bytes" where
  "from_utf8_lossy [] = []"
| "from_utf8_lossy (a # bs) =
     (case utf8_char (a # bs) of
        Inr n \<Rightarrow> take n (a # bs) @ from_utf8_lossy (drop n (a # bs))
      | Inl n \<Rightarrow> REPLACEMENT @ from_utf8_lossy (drop n (a # bs)))"

declare utf8_ok.simps(2) [simp del] from_utf8_lossy.simps(2) [simp del]

lemma utf8_char_append: "utf8_char bs = Inr n \<Longrightarrow> utf8_char (bs @ ys) = Inr n"
  by (cases bs) (auto simp: utf8_char.simps split: if_splits list.splits)

lemma utf8_char_take: "utf8_char bs = Inr n \<Longrightarrow> utf8_char (take n bs) = Inr n"
  by (cases bs) (auto simp: utf8_char.simps split: if_splits list.splits)

lemma utf8_ok_append: "utf8_ok xs \<Longrightarrow> utf8_ok (xs @ ys) \<longleftrightarrow> utf8_ok ys"
proof (induction xs rule: utf8_ok.induct)
  case (2 a bs)
  then obtain n where n: "utf8_char (a # bs) = Inr n" "utf8_ok (drop n (a # bs))"
    by (auto simp: utf8_ok.simps(2) split: sum.splits)
  then have "utf8_char (a # bs @ ys) = Inr n" "n \<le> length (a # bs)"
    using utf8_char_append [of "a # bs" n ys] utf8_char_pos [of "a # bs" n] by auto
  moreover from this have "drop n (a # bs @ ys) = drop n (a # bs) @ ys"
    using drop_append [of n "a # bs" ys] by simp
  ultimately show ?case
    using 2(1) [OF n] n by (simp add: utf8_ok.simps(2))
qed simp

lemma utf8_ok_take: "utf8_char bs = Inr n \<Longrightarrow> utf8_ok (take n bs)"
  using utf8_char_take [of bs n] length_take [of n bs]
  by (cases "take n bs") (auto simp: utf8_ok.simps(2) simp del: length_take)

lemma lossy_ok: "utf8_ok (from_utf8_lossy bs)"
proof (induction bs rule: from_utf8_lossy.induct)
  case (2 a bs)
  have "utf8_ok REPLACEMENT"
    by code_simp
  with 2 show ?case
    by (auto simp: from_utf8_lossy.simps(2) utf8_ok_append utf8_ok_take split: sum.splits)
qed simp

lemma lossy_id: "utf8_ok bs \<Longrightarrow> from_utf8_lossy bs = bs"
proof (induction bs rule: from_utf8_lossy.induct)
  case (2 a bs)
  then show ?case
    by (auto simp: from_utf8_lossy.simps(2) utf8_ok.simps(2) simp del: take_Cons' drop_Cons' split: sum.splits)
qed simp

section \<open>White space\<close>

text \<open>The number of bytes of the white space character at the beginning, 0 when there is none.\<close>

fun ws_len :: "bytes \<Rightarrow> nat" where
  "ws_len [] = 0"
| "ws_len (a # bs) =
     (if 9 \<le> a \<and> a \<le> 13 \<or> a = 32 then 1
      else if a = 0xC2 then (case bs of b # _ \<Rightarrow> if b = 0x85 \<or> b = 0xA0 then 2 else 0 | [] \<Rightarrow> 0)
      else case bs of
             b # c # _ \<Rightarrow>
               if a = 0xE1 \<and> b = 0x9A \<and> c = 0x80
                 \<or> a = 0xE2 \<and> b = 0x80 \<and> (0x80 \<le> c \<and> c \<le> 0x8A \<or> c = 0xA8 \<or> c = 0xA9 \<or> c = 0xAF)
                 \<or> a = 0xE2 \<and> b = 0x81 \<and> c = 0x9F \<or> a = 0xE3 \<and> b = 0x80 \<and> c = 0x80 then 3 else 0
           | _ \<Rightarrow> 0)"

text \<open>\<^verbatim>\<open>split_whitespace\<close> and \<^verbatim>\<open>trim\<close>; no character has the first byte of white space inside it.\<close>

fun words_from :: "bytes \<Rightarrow> bytes \<Rightarrow> bytes list" where
  "words_from w [] = (if w = [] then [] else [w])"
| "words_from w (a # bs) =
     (if 0 < ws_len (a # bs) then (if w = [] then [] else [w]) @ words_from [] (drop (ws_len (a # bs) - 1) bs)
      else words_from (w @ [a]) bs)"

definition split_whitespace :: "bytes \<Rightarrow> bytes list" where
  "split_whitespace bs = words_from [] bs"

fun trim_start :: "bytes \<Rightarrow> bytes" where
  "trim_start [] = []"
| "trim_start (a # bs) = (if 0 < ws_len (a # bs) then trim_start (drop (ws_len (a # bs) - 1) bs) else a # bs)"

fun trim_end :: "bytes \<Rightarrow> bytes" where
  "trim_end [] = []"
| "trim_end (a # bs) = (if trim_start (a # bs) = [] then [] else a # trim_end bs)"

definition trim :: "bytes \<Rightarrow> bytes" where
  "trim bs = trim_end (trim_start bs)"

section \<open>Splitting and joining\<close>

definition starts_with :: "bytes \<Rightarrow> bytes \<Rightarrow> bool" where
  "starts_with p bs = (take (length p) bs = p)"

fun split_byte :: "u8 \<Rightarrow> bytes \<Rightarrow> bytes list" where
  "split_byte c [] = [[]]"
| "split_byte c (b # bs) =
     (if b = c then [] # split_byte c bs
      else case split_byte c bs of [] \<Rightarrow> [[b]] | w # ws \<Rightarrow> (b # w) # ws)"

fun split_crlf :: "bytes \<Rightarrow> bytes list" where
  "split_crlf [] = [[]]"
| "split_crlf (b # bs) =
     (if b = 13 \<and> starts_with [10] bs then [] # split_crlf (drop 1 bs)
      else case split_crlf bs of [] \<Rightarrow> [[b]] | w # ws \<Rightarrow> (b # w) # ws)"

definition split_once :: "u8 \<Rightarrow> bytes \<Rightarrow> (bytes \<times> bytes) option" where
  "split_once c bs = map_option (\<lambda>i. (take i bs, drop (Suc i) bs)) (position (\<lambda>b. b = c) bs)"

fun join :: "bytes \<Rightarrow> bytes list \<Rightarrow> bytes" where
  "join sep [] = []"
| "join sep [w] = w"
| "join sep (w # ws) = w @ sep @ join sep ws"

definition to_lower :: "u8 \<Rightarrow> u8" where
  "to_lower b = (if 65 \<le> b \<and> b \<le> 90 then b + 32 else b)"

definition eq_ignore_ascii_case :: "bytes \<Rightarrow> bytes \<Rightarrow> bool" where
  "eq_ignore_ascii_case a b = (map to_lower a = map to_lower b)"

section \<open>Decimal numbers\<close>

fun print_dec :: "nat \<Rightarrow> bytes" where
  "print_dec n = (if n < 10 then [48 + of_nat n] else print_dec (n div 10) @ [48 + of_nat (n mod 10)])"

fun digits_value :: "nat \<Rightarrow> bytes \<Rightarrow> nat option" where
  "digits_value acc [] = Some acc"
| "digits_value acc (b # bs) =
     (if 48 \<le> b \<and> b \<le> 57 then digits_value (10 * acc + unat (b - 48)) bs else None)"

text \<open>\<^verbatim>\<open>str::parse\<close> for an unsigned integer of \<open>w\<close> bits: a sign may come first, and overflow is an error.\<close>

definition parse_unsigned :: "nat \<Rightarrow> bytes \<Rightarrow> nat option" where
  "parse_unsigned w bs =
     (let ds = (case bs of b # rest \<Rightarrow> if b = 43 then rest else bs | [] \<Rightarrow> [])
      in if ds = [] then None
         else case digits_value 0 ds of Some n \<Rightarrow> if n < 2 ^ w then Some n else None | None \<Rightarrow> None)"

declare print_dec.simps [simp del]

lemma digit_props:
  assumes "n < 10"
  shows "48 \<le> (48 + of_nat n :: u8)" "(48 + of_nat n :: u8) \<le> 57" "unat (48 + of_nat n - 48 :: u8) = n"
proof -
  have "n = 0 \<or> n = 1 \<or> n = 2 \<or> n = 3 \<or> n = 4 \<or> n = 5 \<or> n = 6 \<or> n = 7 \<or> n = 8 \<or> n = 9"
    using assms by auto
  then show "48 \<le> (48 + of_nat n :: u8)" "(48 + of_nat n :: u8) \<le> 57" "unat (48 + of_nat n - 48 :: u8) = n"
    by auto
qed

lemma digits_append: "digits_value a (xs @ ys) = Option.bind (digits_value a xs) (\<lambda>a. digits_value a ys)"
  by (induction xs arbitrary: a) auto

lemma digits_print: "digits_value 0 (print_dec n) = Some n"
proof (induction n rule: print_dec.induct)
  case (1 n)
  then show ?case
    using digit_props [of n] digit_props [of "n mod 10"]
    by (subst print_dec.simps) (auto simp: digits_append)
qed

lemma print_dec_digits: "\<forall>b \<in> set (print_dec n). 48 \<le> b \<and> b \<le> 57"
proof (induction n rule: print_dec.induct)
  case (1 n)
  then show ?case
    using digit_props [of n] digit_props [of "n mod 10"] by (subst print_dec.simps) auto
qed

lemma print_dec_ne [simp]: "print_dec n \<noteq> []"
  by (subst print_dec.simps) simp

lemma parse_print: "n < 2 ^ w \<Longrightarrow> parse_unsigned w (print_dec n) = Some n"
  using print_dec_digits [of n] digits_print [of n]
  by (auto simp: parse_unsigned_def word_le_nat_alt split: list.splits)

section \<open>ASCII text\<close>

text \<open>Printable ASCII characters other than the space, of which tokens consist.\<close>

definition graphic :: "u8 \<Rightarrow> bool" where
  "graphic b = (33 \<le> b \<and> b \<le> 126)"

lemma utf8_ok_ascii: "list_all (\<lambda>b. b \<le> 0x7F) bs \<Longrightarrow> utf8_ok bs"
proof (induction bs)
  case (Cons b bs)
  then have "utf8_char (b # bs) = Inr 1"
    by (simp add: utf8_char.simps)
  with Cons show ?case
    by (simp add: utf8_ok.simps(2))
qed simp

lemma graphic_not:
  assumes "graphic b"
  shows "b \<noteq> 9" "b \<noteq> 10" "b \<noteq> 13" "b \<noteq> 32" "\<not> b \<le> 13" "b \<noteq> 0xC2" "b \<noteq> 0xE1" "b \<noteq> 0xE2" "b \<noteq> 0xE3" "b \<le> 0x7F"
  using assms by (auto simp: graphic_def word_le_nat_alt)

lemma ws_len_graphic [simp]: "graphic b \<Longrightarrow> ws_len (b # bs) = 0"
  using graphic_not [of b] by (auto split: list.split)

lemma ws_len_space [simp]: "ws_len (32 # bs) = 1"
  by simp

declare ws_len.simps(2) [simp del]

lemma words_graphic: "list_all graphic xs \<Longrightarrow> words_from w (xs @ ys) = words_from (w @ xs) ys"
  by (induction xs arbitrary: w) auto

lemma split_whitespace_words:
  assumes "list_all graphic a" "list_all graphic b" "list_all graphic c" "a \<noteq> []" "b \<noteq> []" "c \<noteq> []"
  shows "split_whitespace (a @ 32 # b @ 32 # c) = [a, b, c]"
  using assms words_graphic [of c "[]" "[]"] by (simp add: split_whitespace_def words_graphic)

lemma trim_graphic:
  assumes "list_all graphic xs" "xs \<noteq> []"
  shows "trim (32 # xs) = xs"
proof -
  have start: "trim_start (x # ys) = x # ys" if "graphic x" for x ys
    using that by simp
  have "trim_end ys = ys" if "list_all graphic ys" for ys
    using that by (induction ys) simp_all
  with assms show ?thesis
    by (cases xs) (simp_all add: trim_def)
qed

lemma split_crlf_line: "13 \<notin> set xs \<Longrightarrow> split_crlf (xs @ 13 # 10 # ys) = xs # split_crlf ys"
  by (induction xs) (auto simp: starts_with_def)

lemma split_crlf_last: "13 \<notin> set xs \<Longrightarrow> split_crlf xs = [xs]"
  by (induction xs) auto

lemma split_once_at: "c \<notin> set xs \<Longrightarrow> split_once c (xs @ c # ys) = Some (xs, ys)"
proof -
  assume "c \<notin> set xs"
  then have "position (\<lambda>b. b = c) (xs @ c # ys) = Some (length xs)"
    by (induction xs) auto
  then show ?thesis by (simp add: split_once_def)
qed

lemma split_byte_last: "c \<notin> set w \<Longrightarrow> split_byte c w = [w]"
  by (induction w) auto

lemma split_byte_at: "c \<notin> set w \<Longrightarrow> split_byte c (w @ c # ys) = w # split_byte c ys"
  by (induction w) auto

lemma split_join: "ws \<noteq> [] \<Longrightarrow> \<forall>w \<in> set ws. c \<notin> set w \<Longrightarrow> split_byte c (join [c] ws) = ws"
  by (induction "[c]" ws rule: join.induct) (auto simp: split_byte_at split_byte_last)

end
