(* ===== verification/Metrics.thy ===== *)
theory Metrics
  imports Rust_Text
begin

text \<open>
  \<^verbatim>\<open>src/metrics.rs\<close>: the counters of a shard and the totals over all shards. An atomic counter with
  relaxed ordering is a 64-bit word; additions wrap around, as \<^verbatim>\<open>fetch_add\<close> does.
\<close>

section \<open>Counters\<close>

record shard_metrics =
  m_rx_packets :: u64
  m_tx_packets :: u64
  m_rx_bytes :: u64
  m_tx_bytes :: u64
  m_lookups :: u64
  m_lookup_ok :: u64
  m_store_ok :: u64
  m_store_reject :: u64
  m_drops_malformed :: u64
  m_drops_rate :: u64
  m_wg_decap_ok :: u64
  m_wg_decap_fail :: u64
  m_pow_fail :: u64
  m_cookies :: u64
  m_punch_ok :: u64
  m_relay_bytes :: u64

record snapshot =
  s_rx_packets :: u64
  s_tx_packets :: u64
  s_rx_bytes :: u64
  s_tx_bytes :: u64
  s_lookups :: u64
  s_lookup_ok :: u64
  s_store_ok :: u64
  s_store_reject :: u64
  s_drops_malformed :: u64
  s_drops_rate :: u64
  s_wg_decap_ok :: u64
  s_wg_decap_fail :: u64
  s_pow_fail :: u64
  s_cookies :: u64
  s_punch_ok :: u64
  s_relay_bytes :: u64

definition metrics_new :: shard_metrics where
  "metrics_new = \<lparr>m_rx_packets = 0, m_tx_packets = 0, m_rx_bytes = 0, m_tx_bytes = 0,
     m_lookups = 0, m_lookup_ok = 0, m_store_ok = 0, m_store_reject = 0,
     m_drops_malformed = 0, m_drops_rate = 0, m_wg_decap_ok = 0, m_wg_decap_fail = 0,
     m_pow_fail = 0, m_cookies = 0, m_punch_ok = 0, m_relay_bytes = 0\<rparr>"

text \<open>\<^verbatim>\<open>incr\<close> and \<^verbatim>\<open>add\<close> on one counter.\<close>

definition metric_incr :: "u64 \<Rightarrow> u64" where
  "metric_incr a = a + 1"

definition metric_add :: "u64 \<Rightarrow> u64 \<Rightarrow> u64" where
  "metric_add a n = a + n"

definition take_snapshot :: "shard_metrics \<Rightarrow> snapshot" where
  "take_snapshot m =
     \<lparr>s_rx_packets = m_rx_packets m,
      s_tx_packets = m_tx_packets m,
      s_rx_bytes = m_rx_bytes m,
      s_tx_bytes = m_tx_bytes m,
      s_lookups = m_lookups m,
      s_lookup_ok = m_lookup_ok m,
      s_store_ok = m_store_ok m,
      s_store_reject = m_store_reject m,
      s_drops_malformed = m_drops_malformed m,
      s_drops_rate = m_drops_rate m,
      s_wg_decap_ok = m_wg_decap_ok m,
      s_wg_decap_fail = m_wg_decap_fail m,
      s_pow_fail = m_pow_fail m,
      s_cookies = m_cookies m,
      s_punch_ok = m_punch_ok m,
      s_relay_bytes = m_relay_bytes m\<rparr>"

definition snapshot_zero :: snapshot where
  "snapshot_zero = \<lparr>s_rx_packets = 0, s_tx_packets = 0, s_rx_bytes = 0, s_tx_bytes = 0,
     s_lookups = 0, s_lookup_ok = 0, s_store_ok = 0, s_store_reject = 0,
     s_drops_malformed = 0, s_drops_rate = 0, s_wg_decap_ok = 0, s_wg_decap_fail = 0,
     s_pow_fail = 0, s_cookies = 0, s_punch_ok = 0, s_relay_bytes = 0\<rparr>"

definition snapshot_add :: "snapshot \<Rightarrow> snapshot \<Rightarrow> snapshot" where
  "snapshot_add t x =
     \<lparr>s_rx_packets = s_rx_packets t + s_rx_packets x,
      s_tx_packets = s_tx_packets t + s_tx_packets x,
      s_rx_bytes = s_rx_bytes t + s_rx_bytes x,
      s_tx_bytes = s_tx_bytes t + s_tx_bytes x,
      s_lookups = s_lookups t + s_lookups x,
      s_lookup_ok = s_lookup_ok t + s_lookup_ok x,
      s_store_ok = s_store_ok t + s_store_ok x,
      s_store_reject = s_store_reject t + s_store_reject x,
      s_drops_malformed = s_drops_malformed t + s_drops_malformed x,
      s_drops_rate = s_drops_rate t + s_drops_rate x,
      s_wg_decap_ok = s_wg_decap_ok t + s_wg_decap_ok x,
      s_wg_decap_fail = s_wg_decap_fail t + s_wg_decap_fail x,
      s_pow_fail = s_pow_fail t + s_pow_fail x,
      s_cookies = s_cookies t + s_cookies x,
      s_punch_ok = s_punch_ok t + s_punch_ok x,
      s_relay_bytes = s_relay_bytes t + s_relay_bytes x\<rparr>"

definition aggregate :: "shard_metrics list \<Rightarrow> snapshot" where
  "aggregate shards = foldl (\<lambda>t m. snapshot_add t (take_snapshot m)) snapshot_zero shards"

text \<open>\<^verbatim>\<open>prometheus_text\<close>: a line with the name and the value of eight of the totals.\<close>

definition prometheus_line :: "string \<Rightarrow> u64 \<Rightarrow> bytes" where
  "prometheus_line name v = of_chars name @ 32 # print_dec (unat v) @ [10]"

definition prometheus_text :: "snapshot \<Rightarrow> bytes" where
  "prometheus_text s =
     prometheus_line ''molia_rx_packets'' (s_rx_packets s) @ prometheus_line ''molia_tx_packets'' (s_tx_packets s)
     @ prometheus_line ''molia_lookups'' (s_lookups s) @ prometheus_line ''molia_lookup_ok'' (s_lookup_ok s)
     @ prometheus_line ''molia_store_ok'' (s_store_ok s) @ prometheus_line ''molia_drops_malformed'' (s_drops_malformed s)
     @ prometheus_line ''molia_wg_decap_ok'' (s_wg_decap_ok s) @ prometheus_line ''molia_pow_fail'' (s_pow_fail s)"

section \<open>Lemmas\<close>

lemma aggregate_Nil: "aggregate [] = snapshot_zero"
  by (simp add: aggregate_def)

lemma aggregate_snoc: "aggregate (ms @ [m]) = snapshot_add (aggregate ms) (take_snapshot m)"
  by (simp add: aggregate_def)

text \<open>Every total is the sum of the counters of the shards.\<close>

lemma aggregate_totals:
  "s_rx_packets (aggregate shards) = sum_list (map m_rx_packets shards)"
  "s_tx_packets (aggregate shards) = sum_list (map m_tx_packets shards)"
  "s_rx_bytes (aggregate shards) = sum_list (map m_rx_bytes shards)"
  "s_tx_bytes (aggregate shards) = sum_list (map m_tx_bytes shards)"
  "s_lookups (aggregate shards) = sum_list (map m_lookups shards)"
  "s_lookup_ok (aggregate shards) = sum_list (map m_lookup_ok shards)"
  "s_store_ok (aggregate shards) = sum_list (map m_store_ok shards)"
  "s_store_reject (aggregate shards) = sum_list (map m_store_reject shards)"
  "s_drops_malformed (aggregate shards) = sum_list (map m_drops_malformed shards)"
  "s_drops_rate (aggregate shards) = sum_list (map m_drops_rate shards)"
  "s_wg_decap_ok (aggregate shards) = sum_list (map m_wg_decap_ok shards)"
  "s_wg_decap_fail (aggregate shards) = sum_list (map m_wg_decap_fail shards)"
  "s_pow_fail (aggregate shards) = sum_list (map m_pow_fail shards)"
  "s_cookies (aggregate shards) = sum_list (map m_cookies shards)"
  "s_punch_ok (aggregate shards) = sum_list (map m_punch_ok shards)"
  "s_relay_bytes (aggregate shards) = sum_list (map m_relay_bytes shards)"
  by (induction shards rule: rev_induct;
      simp add: aggregate_Nil aggregate_snoc snapshot_add_def snapshot_zero_def take_snapshot_def)+

text \<open>
  Who reads the exposition line by line, splits each line at its space and parses what follows
  gets back the counters under their names.
\<close>

definition scrape :: "bytes \<Rightarrow> (bytes \<times> nat option) list" where
  "scrape doc = map (\<lambda>l. case split_once 32 l of None \<Rightarrow> (l, None) | Some (n, v) \<Rightarrow> (n, parse_unsigned 64 v))
     (butlast (split_byte 10 doc))"

lemma scrape_line:
  assumes "32 \<notin> set (of_chars name)" and "10 \<notin> set (of_chars name)"
  shows "scrape (prometheus_line name v @ doc) = (of_chars name, Some (unat v)) # scrape doc"
proof -
  have "10 \<notin> set (of_chars name @ 32 # print_dec (unat v))"
    using assms(2) print_dec_digits [of "unat v"] by auto
  then have "split_byte 10 (prometheus_line name v @ doc) = (of_chars name @ 32 # print_dec (unat v)) # split_byte 10 doc"
    using split_byte_at [of 10 "of_chars name @ 32 # print_dec (unat v)" doc] by (simp add: prometheus_line_def)
  moreover have "split_byte 10 doc \<noteq> []"
    by (induction doc rule: split_byte.induct [of _ 10]) (auto split: list.split)
  ultimately show ?thesis
    using assms(1) parse_print [of "unat v" 64] unsigned_less [of v, where 'a = nat] by (simp add: scrape_def split_once_at)
qed

lemma prometheus_scraped:
  "scrape (prometheus_text s) =
     [(of_chars ''molia_rx_packets'', Some (unat (s_rx_packets s))), (of_chars ''molia_tx_packets'', Some (unat (s_tx_packets s))),
      (of_chars ''molia_lookups'', Some (unat (s_lookups s))), (of_chars ''molia_lookup_ok'', Some (unat (s_lookup_ok s))),
      (of_chars ''molia_store_ok'', Some (unat (s_store_ok s))),
      (of_chars ''molia_drops_malformed'', Some (unat (s_drops_malformed s))),
      (of_chars ''molia_wg_decap_ok'', Some (unat (s_wg_decap_ok s))), (of_chars ''molia_pow_fail'', Some (unat (s_pow_fail s)))]"
proof -
  have *: "scrape (prometheus_line name v) = [(of_chars name, Some (unat v))]"
    if "32 \<notin> set (of_chars name)" "10 \<notin> set (of_chars name)" for name v
    using scrape_line [OF that, of v "[]"] by (simp add: scrape_def)
  show ?thesis
    by (simp add: prometheus_text_def scrape_line * of_chars_def)
qed

end
