(* ===== verification/Float64.thy ===== *)
theory Float64
  imports Complex_Main "HOL-Library.Log_Nat"
begin

text \<open>
  The finite values of \<^verbatim>\<open>f64\<close>: a value is a rational number, and an arithmetic operation is the exact
  one followed by \<open>f64_round\<close>, the rounding of IEEE 754 binary64 to the nearest value with ties to
  even, down to the subnormal numbers. Overflow to infinity is not modelled: the code that uses
  these values stays far below \<open>2 ^ 1023\<close>.
\<close>

type_synonym f64 = rat

section \<open>Rounding\<close>

definition round_even :: "rat \<Rightarrow> int" where
  "round_even x =
     (let f = \<lfloor>x\<rfloor>; d = x - of_int f
      in if d < 1 / 2 then f else if 1 / 2 < d then f + 1 else if even f then f else f + 1)"

text \<open>The binary exponent of a positive number.\<close>

definition flog2 :: "rat \<Rightarrow> int" where
  "flog2 x =
     (case quotient_of x of (p, q) \<Rightarrow>
        let k = int (floorlog 2 (nat p)) - int (floorlog 2 (nat q))
        in if 2 powi k \<le> x then k else k - 1)"

definition f64_exp :: "rat \<Rightarrow> int" where
  "f64_exp x = max (flog2 \<bar>x\<bar> - 52) (- 1074)"

definition f64_round :: "rat \<Rightarrow> f64" where
  "f64_round x = (if x = 0 then 0 else of_int (round_even (x / 2 powi f64_exp x)) * 2 powi f64_exp x)"

section \<open>Arithmetic\<close>

definition f64_add :: "f64 \<Rightarrow> f64 \<Rightarrow> f64" where "f64_add x y = f64_round (x + y)"
definition f64_sub :: "f64 \<Rightarrow> f64 \<Rightarrow> f64" where "f64_sub x y = f64_round (x - y)"
definition f64_mul :: "f64 \<Rightarrow> f64 \<Rightarrow> f64" where "f64_mul x y = f64_round (x * y)"
definition f64_div :: "f64 \<Rightarrow> f64 \<Rightarrow> f64" where "f64_div x y = f64_round (x / y)"

text \<open>\<^verbatim>\<open>Duration::as_secs_f64\<close>, for a duration in nanoseconds.\<close>

definition as_secs_f64 :: "nat \<Rightarrow> f64" where
  "as_secs_f64 ns =
     f64_add (f64_round (of_nat (ns div 1000000000)))
       (f64_div (of_nat (ns mod 1000000000)) 1000000000)"

section \<open>Lemmas\<close>

lemma round_even_bounds: "of_int (round_even x) - 1 / 2 \<le> x" "x \<le> of_int (round_even x) + 1 / 2"
proof -
  have "of_int \<lfloor>x\<rfloor> \<le> x" "x < of_int \<lfloor>x\<rfloor> + 1"
    by linarith+
  then show "of_int (round_even x) - 1 / 2 \<le> x" "x \<le> of_int (round_even x) + 1 / 2"
    by (auto simp: round_even_def Let_def; linarith)+
qed

lemma round_even_of_int [simp]: "round_even (of_int n) = n"
  by (simp add: round_even_def)

lemma round_even_mono:
  assumes "x \<le> y"
  shows "round_even x \<le> round_even y"
proof (cases "\<lfloor>x\<rfloor> = \<lfloor>y\<rfloor>")
  case True
  with assms show ?thesis
    by (auto simp: round_even_def Let_def)
next
  case False
  then have "\<lfloor>x\<rfloor> + 1 \<le> \<lfloor>y\<rfloor>"
    using assms floor_mono [of x y] by linarith
  moreover have "round_even x \<le> \<lfloor>x\<rfloor> + 1" "\<lfloor>y\<rfloor> \<le> round_even y"
    by (auto simp: round_even_def Let_def)
  ultimately show ?thesis by linarith
qed

lemma flog2_bounds:
  assumes "0 < x"
  shows "2 powi flog2 x \<le> x" "x < 2 powi (flog2 x + 1)"
proof -
  obtain p q where pq: "quotient_of x = (p, q)"
    by (cases "quotient_of x")
  then have q: "0 < q" and x: "x = of_int p / of_int q"
    by (auto intro: quotient_of_denom_pos quotient_of_div)
  with assms have p: "0 < p"
    by (simp add: zero_less_divide_iff)
  define a b where "a = floorlog 2 (nat p)" and "b = floorlog 2 (nat q)"
  define k where "k = int a - int b"
  have "2 ^ (a - 1) \<le> nat p" "nat p < 2 ^ a" "2 ^ (b - 1) \<le> nat q" "nat q < 2 ^ b"
    using p q floorlog_bounds [of "nat p" 2] floorlog_bounds [of "nat q" 2] by (simp_all add: a_def b_def)
  then have "2 ^ (a - 1) \<le> p" "p < 2 ^ a" "2 ^ (b - 1) \<le> q" "q < 2 ^ b"
    using p q by (simp_all add: nat_less_iff le_nat_iff)
  then have r: "2 ^ (a - 1) \<le> rat_of_int p" "rat_of_int p < 2 ^ a"
      "2 ^ (b - 1) \<le> rat_of_int q" "rat_of_int q < 2 ^ b"
    by (metis of_int_le_iff of_int_less_iff of_int_numeral of_int_power)+
  have "0 < a" "0 < b"
    using p q by (auto simp: a_def b_def floorlog_def)
  then obtain a' b' where ab: "a = Suc a'" "b = Suc b'"
    by (meson gr0_implies_Suc)
  have "x < 2 ^ a / 2 ^ (b - 1)"
    unfolding x using r p q by (intro frac_less) auto
  also have "2 ^ a / 2 ^ (b - 1) = (2 :: rat) powi (k + 1)"
    by (simp add: ab k_def power_int_diff power_int_add field_simps)
  finally have up: "x < 2 powi (k + 1)" .
  have "2 ^ (a - 1) / 2 ^ b < x"
    unfolding x using r p q by (intro frac_less2) auto
  moreover have "2 ^ (a - 1) / 2 ^ b = (2 :: rat) powi (k - 1)"
    by (simp add: ab k_def power_int_diff power_int_add field_simps)
  ultimately have lo: "2 powi (k - 1) < x" by simp
  have "flog2 x = (if 2 powi k \<le> x then k else k - 1)"
    by (simp add: flog2_def pq a_def b_def k_def Let_def)
  with up lo show "2 powi flog2 x \<le> x" "x < 2 powi (flog2 x + 1)"
    by auto
qed

lemma powi2_mono: "m \<le> n \<Longrightarrow> (2 :: rat) powi m \<le> 2 powi n"
  by (rule power_int_increasing) auto

lemma powi2_pos [simp]: "(0 :: rat) < 2 powi n"
  by simp

lemma powi2_mono_iff: "(2 :: rat) powi m < 2 powi n \<longleftrightarrow> m < n"
  by (metis linorder_not_less one_less_numeral_iff power_int_strict_increasing powi2_mono semiring_norm(76))

lemma flog2_eqI:
  assumes "2 powi k \<le> x" "x < 2 powi (k + 1)"
  shows "flog2 x = k"
proof -
  have "0 < x" using assms(1) powi2_pos [of k] by linarith
  with flog2_bounds [of x] assms have "(2 :: rat) powi flog2 x < 2 powi (k + 1)" "(2 :: rat) powi k < 2 powi (flog2 x + 1)"
    by linarith+
  then show ?thesis unfolding powi2_mono_iff by linarith
qed

lemma flog2_mono: "0 < x \<Longrightarrow> x \<le> y \<Longrightarrow> flog2 x \<le> flog2 y"
proof -
  assume "0 < x" "x \<le> y"
  then have "(2 :: rat) powi flog2 x < 2 powi (flog2 y + 1)"
    using flog2_bounds(1) [of x] flog2_bounds(2) [of y] by linarith
  then show ?thesis unfolding powi2_mono_iff by linarith
qed


text \<open>Rounding to the multiples of one power of two.\<close>

definition grid :: "int \<Rightarrow> rat \<Rightarrow> rat" where
  "grid e x = of_int (round_even (x / 2 powi e)) * 2 powi e"

lemma f64_round_grid: "f64_round x = grid (f64_exp x) x"
  by (simp add: f64_round_def grid_def round_even_def)

lemma grid_mono: "x \<le> y \<Longrightarrow> grid e x \<le> grid e y"
  unfolding grid_def by (intro mult_right_mono) (simp_all add: round_even_mono divide_right_mono)

lemma grid_error: "\<bar>grid e x - x\<bar> \<le> 2 powi e / 2"
proof -
  have "\<bar>of_int (round_even (x / 2 powi e)) - x / 2 powi e\<bar> \<le> 1 / 2"
    using round_even_bounds [of "x / 2 powi e"] by linarith
  then have "\<bar>of_int (round_even (x / 2 powi e)) - x / 2 powi e\<bar> * 2 powi e \<le> 1 / 2 * 2 powi e"
    by (rule mult_right_mono) simp
  moreover have "\<bar>of_int (round_even (x / 2 powi e)) - x / 2 powi e\<bar> * 2 powi e = \<bar>grid e x - x\<bar>"
    by (simp add: grid_def abs_mult_pos left_diff_distrib)
  ultimately show ?thesis by simp
qed

lemma grid_exact:
  assumes "e \<le> j"
  shows "grid e (of_int m * 2 powi j) = of_int m * 2 powi j"
proof -
  have "of_int m * (2 :: rat) powi j / 2 powi e = of_int m * 2 powi (j - e)"
    by (simp add: power_int_diff)
  also have "\<dots> = of_int (m * 2 ^ nat (j - e))"
    using assms by (simp add: power_int_def)
  finally have eq: "of_int m * (2 :: rat) powi j / 2 powi e = of_int (m * 2 ^ nat (j - e))" .
  show ?thesis
    unfolding grid_def eq round_even_of_int unfolding eq [symmetric] by simp
qed

lemma f64_round_zero [simp]: "f64_round 0 = 0"
  by (simp add: f64_round_def)

lemma f64_round_exact:
  assumes "x = of_int m * 2 powi j" "\<bar>m\<bar> < 2 ^ 53" "- 1074 \<le> j"
  shows "f64_round x = x"
proof (cases "x = 0")
  case False
  have "rat_of_int \<bar>m\<bar> < rat_of_int (2 ^ 53)"
    using assms(2) unfolding of_int_less_iff .
  then have "\<bar>x\<bar> < 2 powi (53 + j)"
    using assms(1) by (simp add: abs_mult power_int_add)
  then have "(2 :: rat) powi flog2 \<bar>x\<bar> < 2 powi (53 + j)"
    using flog2_bounds(1) [of "\<bar>x\<bar>"] False by linarith
  then have "f64_exp x \<le> j"
    using assms(3) unfolding powi2_mono_iff by (simp add: f64_exp_def)
  then show ?thesis
    unfolding f64_round_grid using grid_exact assms(1) by simp
qed simp

lemma f64_round_nat: "n < 2 ^ 53 \<Longrightarrow> f64_round (of_nat n) = of_nat n"
  by (rule f64_round_exact [of _ "int n" 0]) simp_all

lemma f64_round_numeral [simp]: "numeral n < (2 ^ 53 :: nat) \<Longrightarrow> f64_round (numeral n) = numeral n"
  using f64_round_nat [of "numeral n"] by simp

lemma f64_round_one [simp]: "f64_round 1 = 1"
  using f64_round_nat [of 1] by simp

lemma f64_round_mono:
  assumes "0 \<le> x" "x \<le> y"
  shows "f64_round x \<le> f64_round y"
proof (cases "x = 0")
  case True
  with assms show ?thesis
    using grid_mono [of 0 y "f64_exp y"] by (simp add: f64_round_grid grid_def round_even_def)
next
  case False
  with assms have pos: "0 < x" "0 < y" by auto
  then have le: "flog2 x \<le> flog2 y"
    using assms by (simp add: flog2_mono)
  then have exp: "f64_exp x \<le> f64_exp y"
    using pos by (simp add: f64_exp_def)
  show ?thesis
  proof (cases "f64_exp x = f64_exp y")
    case True
    with assms show ?thesis by (simp add: f64_round_grid grid_mono)
  next
    case False
    with exp pos have lt: "flog2 x < flog2 y" and e: "f64_exp y \<le> flog2 y" "f64_exp x \<le> flog2 y"
      by (auto simp: f64_exp_def)
    let ?z = "2 powi flog2 y :: rat"
    have "x < 2 powi (flog2 x + 1)" using pos by (simp add: flog2_bounds)
    also have "\<dots> \<le> ?z" using lt by (intro powi2_mono) simp
    finally have "grid (f64_exp x) x \<le> grid (f64_exp x) ?z" by (intro grid_mono) simp
    also have "\<dots> = ?z" using grid_exact [OF e(2), of 1] by simp
    also have "\<dots> = grid (f64_exp y) ?z" using grid_exact [OF e(1), of 1] by simp
    also have "\<dots> \<le> grid (f64_exp y) y" using pos by (intro grid_mono) (simp add: flog2_bounds)
    finally show ?thesis by (simp add: f64_round_grid)
  qed
qed

lemma f64_round_nonneg [simp]: "0 \<le> x \<Longrightarrow> 0 \<le> f64_round x"
  using f64_round_mono [of 0 x] by simp

lemma f64_round_le: "0 \<le> x \<Longrightarrow> x \<le> y \<Longrightarrow> f64_round y = y \<Longrightarrow> f64_round x \<le> y"
  using f64_round_mono [of x y] by simp

text \<open>The relative and the absolute error of one operation.\<close>

lemma f64_round_rel:
  assumes "0 \<le> x"
  shows "\<bar>f64_round x - x\<bar> \<le> x * 2 powi (- 53) + 2 powi (- 1075)"
proof (cases "x = 0")
  case False
  with assms have x: "0 < x" by simp
  have half: "2 powi e / 2 = (2 :: rat) powi (e - 1)" for e
    by (simp add: power_int_diff)
  have "(2 :: rat) powi (f64_exp x - 1) \<le> x * 2 powi (- 53) + 2 powi (- 1075)"
  proof (cases "flog2 x - 52 \<ge> - 1074")
    case True
    then have "(2 :: rat) powi (f64_exp x - 1) = 2 powi flog2 x * 2 powi (- 53)"
      using x by (simp add: f64_exp_def power_int_diff)
    also have "\<dots> \<le> x * 2 powi (- 53)"
      using flog2_bounds(1) [OF x] by (intro mult_right_mono) simp_all
    finally show ?thesis
      using powi2_pos [of "- 1075"] by linarith
  next
    case False
    then have "(2 :: rat) powi (f64_exp x - 1) = 2 powi (- 1075)"
      using x by (simp add: f64_exp_def)
    moreover have "0 \<le> x * 2 powi (- 53)"
      using x by simp
    ultimately show ?thesis by linarith
  qed
  then show ?thesis
    using grid_error [of "f64_exp x" x] unfolding f64_round_grid half by linarith
qed simp


lemma f64_round_eqI:
  assumes "2 powi k \<le> x" "x < 2 powi (k + 1)" "- 1022 \<le> k"
    and m: "\<bar>x / 2 powi (k - 52) - of_int m\<bar> < 1 / 2"
  shows "f64_round x = of_int m * 2 powi (k - 52)"
proof -
  have "0 < x" using assms(1) powi2_pos [of k] by linarith
  then have e: "f64_exp x = k - 52"
    using assms flog2_eqI [of k x] by (simp add: f64_exp_def)
  have "\<bar>rat_of_int (round_even (x / 2 powi (k - 52))) - of_int m\<bar> < 1"
    using m round_even_bounds [of "x / 2 powi (k - 52)"] by linarith
  then have "round_even (x / 2 powi (k - 52)) = m" by linarith
  then show ?thesis
    unfolding f64_round_grid e grid_def by simp
qed

lemma f64_round_bounds:
  assumes "0 \<le> x"
  shows "f64_round x \<le> x * (1 + 1 / 2 ^ 53) + 1 / 2 ^ 60" "x * (1 - 1 / 2 ^ 53) - 1 / 2 ^ 60 \<le> f64_round x"
proof -
  have "(2 :: rat) powi (- 1075) \<le> 2 powi (- 60)"
    by (rule powi2_mono) simp
  moreover have "(2 :: rat) powi (- 60) = 1 / 2 ^ 60" and "x * 2 powi (- 53) = x * (1 / 2 ^ 53)"
    by (simp_all add: power_int_minus_divide)
  ultimately have "\<bar>f64_round x - x\<bar> \<le> x * (1 / 2 ^ 53) + 1 / 2 ^ 60"
    using f64_round_rel [OF assms] by linarith
  then have "f64_round x - x \<le> x * (1 / 2 ^ 53) + 1 / 2 ^ 60" "x - f64_round x \<le> x * (1 / 2 ^ 53) + 1 / 2 ^ 60"
    by linarith+
  then show "f64_round x \<le> x * (1 + 1 / 2 ^ 53) + 1 / 2 ^ 60" "x * (1 - 1 / 2 ^ 53) - 1 / 2 ^ 60 \<le> f64_round x"
    by (simp_all add: field_simps)
qed

end
