(* ===== verification/Sybil.thy ===== *)
theory Sybil
  imports Float64 Crypto
begin

text \<open>
  \<^verbatim>\<open>src/sybil.rs\<close>: token buckets per address, prefix and peer, scores and quarantine, admission
  tokens, and the checks of proofs of work. Each operation takes the clock reading it uses. The
  keyed BLAKE3 hash is a parameter of the definition that mints tokens.
\<close>

section \<open>Token buckets\<close>

record token_bucket =
  tb_tokens :: f64
  tb_cap :: f64
  tb_rate_per_s :: f64
  tb_last :: instant

definition bucket_new :: "f64 \<Rightarrow> f64 \<Rightarrow> instant \<Rightarrow> token_bucket" where
  "bucket_new cap rate_per_s now =
     \<lparr>tb_tokens = cap, tb_cap = cap, tb_rate_per_s = rate_per_s, tb_last = now\<rparr>"

definition bucket_take :: "instant \<Rightarrow> f64 \<Rightarrow> token_bucket \<Rightarrow> bool \<times> token_bucket" where
  "bucket_take now n b =
     (let dt = as_secs_f64 (now - tb_last b);
          tokens = min (f64_add (tb_tokens b) (f64_mul dt (tb_rate_per_s b))) (tb_cap b);
          b1 = b\<lparr>tb_tokens := tokens, tb_last := now\<rparr>
      in if n \<le> tokens then (True, b1\<lparr>tb_tokens := f64_sub tokens n\<rparr>) else (False, b1))"

section \<open>State\<close>

record score =
  sc_ewma :: f64
  sc_quarantine :: u8

definition score_default :: score where
  "score_default = \<lparr>sc_ewma = f64_round (5 / 10), sc_quarantine = 0\<rparr>"

record sybil =
  sy_pow_nonce :: bytes
  sy_pow_bits :: u8
  sy_op_bits :: u8
  sy_ip_buckets :: "ip_addr \<rightharpoonup> token_bucket"
  sy_prefix_buckets :: "u8 \<times> u8 \<times> u8 \<rightharpoonup> token_bucket"
  sy_peer_buckets :: "node_id \<rightharpoonup> token_bucket"
  sy_scores :: "node_id \<rightharpoonup> score"
  sy_tokens :: "node_id \<rightharpoonup> u64 \<times> instant"
  sy_token_secret :: bytes

text \<open>The ASCII bytes of \<^verbatim>\<open>molia-admission-dev\<close>.\<close>

definition admission_label :: bytes where
  "admission_label =
     [109, 111, 108, 105, 97, 45, 97, 100, 109, 105, 115, 115, 105, 111, 110, 45, 100, 101, 118]"

definition sybil_new :: "crypto \<Rightarrow> sybil" where
  "sybil_new c =
     \<lparr>sy_pow_nonce = replicate 16 0x42, sy_pow_bits = 0, sy_op_bits = 0,
      sy_ip_buckets = Map.empty, sy_prefix_buckets = Map.empty, sy_peer_buckets = Map.empty,
      sy_scores = Map.empty, sy_tokens = Map.empty, sy_token_secret = blake3 c admission_label\<rparr>"

section \<open>Operations\<close>

text \<open>\<^verbatim>\<open>entry(..).or_insert_with(..)\<close> followed by \<^verbatim>\<open>take\<close>.\<close>

definition entry_take ::
    "f64 \<Rightarrow> f64 \<Rightarrow> instant \<Rightarrow> f64 \<Rightarrow> token_bucket option \<Rightarrow> bool \<times> token_bucket" where
  "entry_take cap rate now n e =
     bucket_take now n (case e of None \<Rightarrow> bucket_new cap rate now | Some b \<Rightarrow> b)"

definition allow_pre_handshake :: "instant \<Rightarrow> socket_addr \<Rightarrow> sybil \<Rightarrow> bool \<times> sybil" where
  "allow_pre_handshake now src s =
     (let ip = sa_ip src;
          (ok, b) = entry_take 20 10 now 1 (sy_ip_buckets s ip);
          s1 = s\<lparr>sy_ip_buckets := (sy_ip_buckets s)(ip \<mapsto> b)\<rparr>
      in if \<not> ok then (False, s1)
         else case ip of
             IpV4 o0 o1 o2 o3 \<Rightarrow>
               (let p = (o0, o1, o2);
                    (ok', pb) = entry_take 80 40 now 1 (sy_prefix_buckets s1 p)
                in (ok', s1\<lparr>sy_prefix_buckets := (sy_prefix_buckets s1)(p \<mapsto> pb)\<rparr>))
           | IpV6 _ \<Rightarrow> (True, s1))"

definition quarantine_of :: "sybil \<Rightarrow> node_id \<Rightarrow> u8" where
  "quarantine_of s i = (case sy_scores s i of Some sc \<Rightarrow> sc_quarantine sc | None \<Rightarrow> 0)"

definition allow_peer :: "instant \<Rightarrow> node_id \<Rightarrow> f64 \<Rightarrow> sybil \<Rightarrow> bool \<times> sybil" where
  "allow_peer now i cost s =
     (let cap = (if quarantine_of s i > 0 then 4 else 40);
          (ok, b) = entry_take cap (f64_div cap 2) now cost (sy_peer_buckets s i)
      in (ok, s\<lparr>sy_peer_buckets := (sy_peer_buckets s)(i \<mapsto> b)\<rparr>))"

definition check_pow :: "crypto \<Rightarrow> bytes \<Rightarrow> sybil \<Rightarrow> bool" where
  "check_pow c ephemeral s = verify_ephemeral_pow c ephemeral (sy_pow_nonce s) (sy_pow_bits s)"

text \<open>\<open>elapsed\<close> is what \<^verbatim>\<open>now.elapsed()\<close> reads, right after \<^verbatim>\<open>now\<close> was taken, as a \<^verbatim>\<open>u128\<close>.\<close>

definition mint_token ::
    "(bytes \<Rightarrow> bytes \<Rightarrow> bytes) \<Rightarrow> instant \<Rightarrow> nat \<Rightarrow> node_id \<Rightarrow> sybil \<Rightarrow> bytes \<times> sybil" where
  "mint_token keyed now elapsed i s =
     (let tok = keyed (sy_token_secret s) (nid i @ le_of_nat 16 elapsed)
      in (tok, s\<lparr>sy_tokens := (sy_tokens s)(i \<mapsto> (from_le_bytes (take 8 tok), now))\<rparr>))"

definition check_token :: "instant \<Rightarrow> node_id \<Rightarrow> bytes \<Rightarrow> sybil \<Rightarrow> bool" where
  "check_token now i tok s =
     (case sy_tokens s i of
        None \<Rightarrow> False
      | Some (head, minted) \<Rightarrow>
          if now - minted > secs 600 then False
          else length tok \<ge> 8 \<and> from_le_bytes (take 8 tok) = head)"

definition check_cost_stamp :: "crypto \<Rightarrow> key \<Rightarrow> bytes \<Rightarrow> bytes \<Rightarrow> sybil \<Rightarrow> bool" where
  "check_cost_stamp c k salt nonce s =
     (if sy_op_bits s = 0 then True
      else leading_zero_bits (cost_stamp c k salt nonce) \<ge> unat (sy_op_bits s))"

definition score_of :: "sybil \<Rightarrow> node_id \<Rightarrow> score" where
  "score_of s i = (case sy_scores s i of Some sc \<Rightarrow> sc | None \<Rightarrow> score_default)"

definition score_reward :: "score \<Rightarrow> score" where
  "score_reward sc =
     (let e = f64_add (f64_mul (sc_ewma sc) (f64_round (8 / 10))) (f64_round (2 / 10))
      in \<lparr>sc_ewma = e, sc_quarantine = (if e > f64_round (7 / 10) then 0 else sc_quarantine sc)\<rparr>)"

definition reward :: "node_id \<Rightarrow> sybil \<Rightarrow> sybil" where
  "reward i s = s\<lparr>sy_scores := (sy_scores s)(i \<mapsto> score_reward (score_of s i))\<rparr>"

definition score_penalize :: "score \<Rightarrow> score" where
  "score_penalize sc =
     (let e = f64_mul (sc_ewma sc) (f64_round (7 / 10))
      in \<lparr>sc_ewma = e,
          sc_quarantine = (if e < f64_round (2 / 10) then min (sat_add (sc_quarantine sc) 1) 3
                           else sc_quarantine sc)\<rparr>)"

definition penalize :: "node_id \<Rightarrow> sybil \<Rightarrow> sybil" where
  "penalize i s = s\<lparr>sy_scores := (sy_scores s)(i \<mapsto> score_penalize (score_of s i))\<rparr>"

definition alpha_cap :: "sybil \<Rightarrow> node_id \<Rightarrow> nat" where
  "alpha_cap s i =
     (let q = quarantine_of s i in if q = 0 then 8 else if q = 1 then 3 else 1)"

definition raise_difficulty :: "sybil \<Rightarrow> sybil" where
  "raise_difficulty s = s\<lparr>sy_pow_bits := min (sat_add (sy_pow_bits s) 1) 16\<rparr>"

section \<open>Runs\<close>

datatype sybil_event =
    SyPreHandshake instant socket_addr
  | SyPeer instant node_id f64
  | SyMint instant nat node_id
  | SyReward node_id
  | SyPenalize node_id
  | SyRaise

fun sybil_step :: "(bytes \<Rightarrow> bytes \<Rightarrow> bytes) \<Rightarrow> sybil \<Rightarrow> sybil_event \<Rightarrow> sybil" where
  "sybil_step keyed s (SyPreHandshake now src) = snd (allow_pre_handshake now src s)"
| "sybil_step keyed s (SyPeer now i cost) = snd (allow_peer now i cost s)"
| "sybil_step keyed s (SyMint now elapsed i) = snd (mint_token keyed now elapsed i s)"
| "sybil_step keyed s (SyReward i) = reward i s"
| "sybil_step keyed s (SyPenalize i) = penalize i s"
| "sybil_step keyed s SyRaise = raise_difficulty s"

text \<open>The requests that pass, when each comes with its time.\<close>

fun admitted_run :: "sybil \<Rightarrow> (instant \<times> socket_addr) list \<Rightarrow> bool list \<times> sybil" where
  "admitted_run s [] = ([], s)"
| "admitted_run s ((now, src) # rs) =
     (let (ok, s1) = allow_pre_handshake now src s; (oks, s2) = admitted_run s1 rs in (ok # oks, s2))"


definition admitted :: "(socket_addr \<Rightarrow> bool) \<Rightarrow> (instant \<times> socket_addr) list \<Rightarrow> bool list \<Rightarrow> nat" where
  "admitted counts rs oks = length (filter (\<lambda>((_, src), ok). ok \<and> counts src) (zip rs oks))"

definition src_prefix :: "socket_addr \<Rightarrow> (u8 \<times> u8 \<times> u8) option" where
  "src_prefix src = (case sa_ip src of IpV4 o0 o1 o2 o3 \<Rightarrow> Some (o0, o1, o2) | IpV6 _ \<Rightarrow> None)"

section \<open>Lemmas on token buckets\<close>

lemmas f64_round_up = f64_round_bounds(1)

lemma as_secs_nonneg [simp]: "0 \<le> as_secs_f64 ns"
  by (simp add: as_secs_f64_def f64_add_def f64_div_def)

lemma as_secs_up: "as_secs_f64 ns \<le> of_nat ns / 1000000000 * (1 + 1 / 2 ^ 52 + 1 / 2 ^ 106) + 1 / 2 ^ 58"
proof -
  define S N where "S = (of_nat (ns div 1000000000) :: rat)" and "N = (of_nat (ns mod 1000000000) :: rat) / 1000000000"
  have "rat_of_nat ns = of_nat (ns div 1000000000 * 1000000000 + ns mod 1000000000)"
    by simp
  then have T: "of_nat ns / 1000000000 = S + N"
    unfolding S_def N_def by (simp only: of_nat_add of_nat_mult of_nat_numeral) (simp add: add_divide_distrib)
  have pos: "0 \<le> S" "0 \<le> N"
    by (simp_all add: S_def N_def)
  have "as_secs_f64 ns = f64_round (f64_round S + f64_round N)"
    by (simp add: as_secs_f64_def S_def N_def f64_add_def f64_div_def)
  also have "\<dots> \<le> (f64_round S + f64_round N) * (1 + 1 / 2 ^ 53) + 1 / 2 ^ 60"
    using pos by (intro f64_round_up) simp
  finally have r: "as_secs_f64 ns \<le> (f64_round S + f64_round N) * (1 + 1 / 2 ^ 53) + 1 / 2 ^ 60" .
  show ?thesis
    unfolding T using r f64_round_up [OF pos(1)] f64_round_up [OF pos(2)] pos by (simp add: field_simps)
qed

definition bucket_ok :: "token_bucket \<Rightarrow> bool" where
  "bucket_ok b =
     (0 \<le> tb_tokens b \<and> tb_tokens b \<le> tb_cap b \<and> 0 \<le> tb_rate_per_s b
      \<and> f64_round (tb_cap b) = tb_cap b)"

lemma bucket_take_kept [simp]:
  "tb_cap (snd (bucket_take now n b)) = tb_cap b"
  "tb_rate_per_s (snd (bucket_take now n b)) = tb_rate_per_s b"
  "tb_last (snd (bucket_take now n b)) = now"
  by (simp_all add: bucket_take_def Let_def)

lemma bucket_take_ok:
  assumes "bucket_ok b" "0 \<le> n"
  shows "bucket_ok (snd (bucket_take now n b))"
proof -
  let ?t = "min (f64_add (tb_tokens b) (f64_mul (as_secs_f64 (now - tb_last b)) (tb_rate_per_s b))) (tb_cap b)"
  have t: "0 \<le> ?t" "?t \<le> tb_cap b"
    using assms by (auto simp: bucket_ok_def f64_add_def f64_mul_def)
  then have "n \<le> ?t \<Longrightarrow> 0 \<le> f64_sub ?t n \<and> f64_sub ?t n \<le> tb_cap b"
    using assms by (auto simp: f64_sub_def bucket_ok_def intro!: f64_round_le)
  with t assms show ?thesis
    by (auto simp: bucket_ok_def bucket_take_def Let_def)
qed

text \<open>
  What a request costs: the tokens left and the request itself are paid for by the tokens before
  and the refill, up to rounding.
\<close>

lemma bucket_take_charge:
  assumes ok: "bucket_ok b" and cap: "tb_cap b \<le> 128" and rate: "tb_rate_per_s b \<le> 64"
    and take: "bucket_take now 1 b = (r, b')"
  shows "(if r then 1 else 0) + tb_tokens b'
    \<le> tb_tokens b + tb_rate_per_s b * (of_nat (now - tb_last b) / 1000000000) * (1 + 1 / 2 ^ 50) + 1 / 2 ^ 43"
proof -
  define T where "T = rat_of_nat (now - tb_last b) / 1000000000"
  define d where "d = as_secs_f64 (now - tb_last b)"
  define p where "p = f64_mul d (tb_rate_per_s b)"
  define s where "s = tb_tokens b + p"
  define t where "t = min (f64_round s) (tb_cap b)"
  have pos: "0 \<le> tb_tokens b" "0 \<le> tb_rate_per_s b" "0 \<le> d" "0 \<le> T"
    using ok by (simp_all add: bucket_ok_def d_def T_def)
  have "d \<le> T * (1 + 1 / 2 ^ 52 + 1 / 2 ^ 106) + 1 / 2 ^ 58"
    unfolding d_def T_def by (rule as_secs_up)
  then have "d * tb_rate_per_s b \<le> (T * (1 + 1 / 2 ^ 52 + 1 / 2 ^ 106) + 1 / 2 ^ 58) * tb_rate_per_s b"
    using pos by (intro mult_right_mono)
  then have "d * tb_rate_per_s b
      \<le> tb_rate_per_s b * T * (1 + 1 / 2 ^ 52 + 1 / 2 ^ 106) + 1 / 2 ^ 52"
    using rate by (simp add: field_simps)
  moreover have "p \<le> d * tb_rate_per_s b * (1 + 1 / 2 ^ 53) + 1 / 2 ^ 60"
    unfolding p_def f64_mul_def using pos by (intro f64_round_up) simp
  moreover have "0 \<le> tb_rate_per_s b * T"
    using pos by simp
  ultimately have p: "p \<le> tb_rate_per_s b * T * (1 + 1 / 2 ^ 50) + 1 / 2 ^ 50"
    by (simp add: field_simps)
  have "0 \<le> p" unfolding p_def f64_mul_def using pos by simp
  then have s0: "0 \<le> s" using pos by (simp add: s_def)
  have t: "t \<le> s + 1 / 2 ^ 45"
  proof (cases "s \<le> tb_cap b")
    case True
    with s0 cap f64_round_up [OF s0] show ?thesis by (simp add: t_def field_simps)
  qed (simp add: t_def)
  have "bucket_take now 1 b =
      (if 1 \<le> t then (True, b\<lparr>tb_tokens := t, tb_last := now, tb_tokens := f64_sub t 1\<rparr>)
       else (False, b\<lparr>tb_tokens := t, tb_last := now\<rparr>))"
    unfolding bucket_take_def Let_def t_def s_def p_def d_def f64_add_def by simp
  then have res: "r = (1 \<le> t)" "tb_tokens b' = (if 1 \<le> t then f64_sub t 1 else t)"
    using take by (auto split: if_splits)
  have sub: "f64_sub t 1 \<le> t - 1 + 1 / 2 ^ 45" if "1 \<le> t"
  proof -
    have "f64_sub t 1 \<le> (t - 1) * (1 + 1 / 2 ^ 53) + 1 / 2 ^ 60"
      unfolding f64_sub_def using that by (intro f64_round_up) simp
    moreover have "t \<le> 128" using cap by (simp add: t_def)
    ultimately show ?thesis by (simp add: field_simps)
  qed
  have "(if r then 1 else 0) + tb_tokens b' \<le> t + 1 / 2 ^ 45"
    using res sub by (auto split: if_splits)
  with t p show ?thesis
    unfolding s_def T_def [symmetric] by (cases r) simp_all
qed

text \<open>However long a bucket was left alone, it pays with no more than its capacity.\<close>

lemma bucket_take_cap:
  assumes ok: "bucket_ok b" and cap: "tb_cap b \<le> 128" and take: "bucket_take now 1 b = (r, b')"
  shows "(if r then 1 else 0) + tb_tokens b' \<le> tb_cap b + 1 / 2 ^ 43"
proof -
  define t where "t = min (f64_add (tb_tokens b) (f64_mul (as_secs_f64 (now - tb_last b)) (tb_rate_per_s b))) (tb_cap b)"
  have t: "t \<le> tb_cap b"
    by (simp add: t_def)
  have "bucket_take now 1 b =
      (if 1 \<le> t then (True, b\<lparr>tb_tokens := t, tb_last := now, tb_tokens := f64_sub t 1\<rparr>)
       else (False, b\<lparr>tb_tokens := t, tb_last := now\<rparr>))"
    unfolding bucket_take_def Let_def t_def by simp
  then have res: "r = (1 \<le> t)" "tb_tokens b' = (if 1 \<le> t then f64_sub t 1 else t)"
    using take by (auto split: if_splits)
  have "f64_sub t 1 \<le> (t - 1) * (1 + 1 / 2 ^ 53) + 1 / 2 ^ 60" if "1 \<le> t"
    unfolding f64_sub_def using that by (intro f64_round_up) simp
  then show ?thesis
    using res t cap by (auto simp: field_simps)
qed


text \<open>
  The account of one entry since \<open>t0\<close>: what it has admitted is covered by its capacity, the refill
  and the rounding errors of \<open>n\<close> requests; a bucket last used before that has admitted nothing.
\<close>

definition refill :: "rat \<Rightarrow> instant \<Rightarrow> instant \<Rightarrow> rat" where
  "refill rate t0 t1 = rate * (of_nat (t1 - t0) / 1000000000) * (1 + 1 / 2 ^ 50)"

definition charged :: "rat \<Rightarrow> rat \<Rightarrow> instant \<Rightarrow> instant \<Rightarrow> nat \<Rightarrow> nat \<Rightarrow> token_bucket option \<Rightarrow> bool" where
  "charged cap rate t0 now n acc e =
     (case e of
        None \<Rightarrow> acc = 0
      | Some b \<Rightarrow> bucket_ok b \<and> tb_cap b = cap \<and> tb_rate_per_s b = rate \<and> tb_last b \<le> now
          \<and> (if tb_last b < t0 then acc = 0
             else of_nat acc + tb_tokens b \<le> cap + refill rate t0 (tb_last b) + of_nat n / 2 ^ 43))"

lemma refill_add:
  assumes "t0 \<le> t" "t \<le> t'"
  shows "refill rate t0 t' = refill rate t0 t + refill rate t t'"
proof -
  have "rat_of_nat (t' - t0) = of_nat (t - t0) + of_nat (t' - t)"
    using assms by (simp flip: of_nat_add)
  then show ?thesis
    by (simp add: refill_def add_divide_distrib distrib_left distrib_right)
qed

lemma refill_mono: "0 \<le> rate \<Longrightarrow> t \<le> t' \<Longrightarrow> refill rate t0 t \<le> refill rate t0 t'"
  unfolding refill_def by (intro mult_right_mono mult_left_mono divide_right_mono) simp_all

lemma charged_mono:
  "charged cap rate t0 now n acc e \<Longrightarrow> now \<le> now' \<Longrightarrow> n \<le> n' \<Longrightarrow> acc' \<le> acc
     \<Longrightarrow> charged cap rate t0 now' n' acc' e"
proof -
  assume a: "charged cap rate t0 now n acc e" "now \<le> now'" "n \<le> n'" "acc' \<le> acc"
  have "rat_of_nat acc' \<le> of_nat acc" "rat_of_nat n / 2 ^ 43 \<le> of_nat n' / 2 ^ 43"
    using a by (simp_all add: divide_right_mono)
  with a(1,2,4) show ?thesis
    unfolding charged_def by (auto split: option.splits)
qed

lemma entry_charged:
  assumes ch: "charged cap rate t0 now n acc e" and le: "now \<le> now'" "t0 \<le> now'"
    and cap: "0 \<le> cap" "cap \<le> 128" "f64_round cap = cap" and rate: "0 \<le> rate" "rate \<le> 64"
    and take: "entry_take cap rate now' 1 e = (r, b')"
  shows "charged cap rate t0 now' (Suc n) (acc + (if r then 1 else 0)) (Some b')"
proof -
  define b where "b = (case e of None \<Rightarrow> bucket_new cap rate now' | Some b \<Rightarrow> b)"
  have b: "bucket_ok b" "tb_cap b = cap" "tb_rate_per_s b = rate" "tb_last b \<le> now'"
      "if tb_last b < t0 then acc = 0
       else of_nat acc + tb_tokens b \<le> cap + refill rate t0 (tb_last b) + of_nat n / 2 ^ 43"
    using ch le cap rate
    by (auto simp: b_def charged_def bucket_new_def bucket_ok_def refill_def split: option.splits)
  have t: "bucket_take now' 1 b = (r, b')"
    using take by (simp add: entry_take_def b_def)
  have n: "rat_of_nat (Suc n) / 2 ^ 43 = of_nat n / 2 ^ 43 + 1 / 2 ^ 43" "0 \<le> rat_of_nat n / 2 ^ 43"
      "rat_of_nat (acc + (if r then 1 else 0)) = of_nat acc + (if r then 1 else 0)"
    by (simp_all add: add_divide_distrib)
  have "of_nat (acc + (if r then 1 else 0)) + tb_tokens b'
      \<le> cap + refill rate t0 now' + of_nat (Suc n) / 2 ^ 43"
  proof (cases "tb_last b < t0")
    case True
    have "0 \<le> refill rate t0 now'"
      using rate by (simp add: refill_def)
    moreover have "(if r then 1 else 0) + tb_tokens b' \<le> cap + 1 / 2 ^ 43" "acc = 0"
      using True b(5) bucket_take_cap [OF b(1) _ t] b(2) cap by simp_all
    ultimately show ?thesis
      using n by linarith
  next
    case False
    have "(if r then 1 else 0) + tb_tokens b' \<le> tb_tokens b + refill rate (tb_last b) now' + 1 / 2 ^ 43"
      using bucket_take_charge [OF b(1) _ _ t] b cap rate by (simp add: refill_def)
    moreover have "refill rate t0 now' = refill rate t0 (tb_last b) + refill rate (tb_last b) now'"
      using b False by (intro refill_add) simp_all
    moreover have "of_nat acc + tb_tokens b \<le> cap + refill rate t0 (tb_last b) + of_nat n / 2 ^ 43"
      using b(5) False by simp
    ultimately show ?thesis
      using n by linarith
  qed
  moreover have "bucket_ok b'" "tb_cap b' = cap" "tb_rate_per_s b' = rate" "tb_last b' = now'"
    using bucket_take_ok [OF b(1), of 1 now'] bucket_take_kept [of now' 1 b] b t by simp_all
  ultimately show ?thesis
    using le unfolding charged_def by simp
qed

lemma charged_bound:
  assumes "charged cap rate t0 now n acc e" "0 \<le> cap" "0 \<le> rate"
  shows "of_nat acc \<le> cap + refill rate t0 now + of_nat n / 2 ^ 43"
proof -
  have pos: "0 \<le> refill rate t0 now" "0 \<le> rat_of_nat n / 2 ^ 43"
    using assms(3) by (simp_all add: refill_def)
  show ?thesis
  proof (cases "acc = 0")
    case True
    then show ?thesis
      using pos assms(2) by simp
  next
    case False
    with assms(1) obtain b where e: "e = Some b" "\<not> tb_last b < t0"
      by (cases e) (auto simp: charged_def split: if_splits)
    with assms(1) have b: "of_nat acc + tb_tokens b \<le> cap + refill rate t0 (tb_last b) + of_nat n / 2 ^ 43"
        "0 \<le> tb_tokens b" "tb_last b \<le> now"
      by (simp_all add: charged_def bucket_ok_def)
    moreover have "refill rate t0 (tb_last b) \<le> refill rate t0 now"
      using assms b by (intro refill_mono)
    ultimately show ?thesis by linarith
  qed
qed

text \<open>Whatever an entry has admitted before, a new period can begin.\<close>

lemma charged_reset: "charged cap rate t0 now n acc e \<Longrightarrow> charged cap rate t1 now 0 0 e"
proof (cases e)
  case (Some b)
  assume "charged cap rate t0 now n acc e"
  with Some have "bucket_ok b" "tb_cap b = cap" "tb_rate_per_s b = rate" "tb_last b \<le> now"
    by (simp_all add: charged_def)
  moreover from this have "tb_tokens b \<le> cap" "0 \<le> refill rate t1 (tb_last b)"
    unfolding refill_def by (auto simp: bucket_ok_def)
  ultimately show ?thesis
    by (simp add: charged_def Some)
qed (simp add: charged_def)


section \<open>Rate limits\<close>

text \<open>
  An account of the limiter: a bucket that every admitted request with a certain property has to
  pass. Its contract is that one request is charged to it; what it admits in a run is then bounded
  by its capacity and its rate.
\<close>

locale rate_account =
  fixes account :: "sybil \<Rightarrow> token_bucket option"
    and counts :: "socket_addr \<Rightarrow> bool"
    and cap rate :: rat
  assumes cap_nonneg: "0 \<le> cap"
    and rate_nonneg: "0 \<le> rate"
    and charge: "charged cap rate t0 now n acc (account s) \<Longrightarrow> now \<le> now' \<Longrightarrow> t0 \<le> now' \<Longrightarrow>
      allow_pre_handshake now' src s = (ok, s') \<Longrightarrow>
      charged cap rate t0 now' (Suc n) (acc + (if ok \<and> counts src then 1 else 0)) (account s')"
begin

lemma run_charged:
  assumes "admitted_run s rs = (oks, s')" "charged cap rate t0 now n acc (account s)"
    "sorted (now # map fst rs)" "\<forall>(t, _) \<in> set rs. t0 \<le> t \<and> t \<le> t1" "now \<le> t1"
  shows "charged cap rate t0 t1 (n + length rs) (acc + admitted counts rs oks) (account s')"
  using assms
proof (induction rs arbitrary: s now n acc oks)
  case Nil
  then show ?case by (auto simp: admitted_def intro: charged_mono)
next
  case (Cons r rs)
  obtain now' src where r: "r = (now', src)" by (cases r)
  obtain ok s1 where a: "allow_pre_handshake now' src s = (ok, s1)"
    by (cases "allow_pre_handshake now' src s")
  obtain oks' s2 where b: "admitted_run s1 rs = (oks', s2)"
    by (cases "admitted_run s1 rs")
  have res: "oks = ok # oks'" and b': "admitted_run s1 rs = (oks', s')"
    using Cons.prems(1) a b r by auto
  have "charged cap rate t0 now' (Suc n) (acc + (if ok \<and> counts src then 1 else 0)) (account s1)"
    using Cons.prems r by (intro charge [OF Cons.prems(2) _ _ a]) auto
  then have "charged cap rate t0 t1 (Suc n + length rs)
      (acc + (if ok \<and> counts src then 1 else 0) + admitted counts rs oks') (account s')"
    using Cons.prems r by (intro Cons.IH [OF b']) auto
  then show ?case
    using res r by (auto simp: admitted_def)
qed

lemma window_bound:
  assumes "admitted_run s before = (oks1, s1)" "account s = None" "admitted_run s1 rs = (oks, s')"
    "sorted (map fst (before @ rs))" "\<forall>(t, _) \<in> set rs. t0 \<le> t \<and> t \<le> t1" "t0 \<le> t1"
  shows "of_nat (admitted counts rs oks) \<le> cap + refill rate t0 t1 + of_nat (length rs) / 2 ^ 43"
proof -
  define now where "now = (if before = [] then 0 else fst (last before))"
  have now: "now \<le> t" if "(t, x) \<in> set rs" for t x
    using that assms(4) last_in_set [of before] by (fastforce simp: now_def sorted_append)
  have "fst r \<le> now" if "r \<in> set before" for r
    using that assms(4) by (cases before rule: rev_cases) (auto simp: now_def sorted_append)
  then have "charged cap rate 0 now (0 + length before) (0 + admitted counts before oks1) (account s1)"
    using assms(2,4) by (intro run_charged [OF assms(1)]) (auto simp: charged_def sorted_append)
  then have c: "charged cap rate t0 now 0 0 (account s1)"
    by (rule charged_reset)
  show ?thesis
  proof (cases "rs = []")
    case True
    then show ?thesis
      using cap_nonneg rate_nonneg by (simp add: admitted_def refill_def)
  next
    case False
    then obtain t x where "(t, x) \<in> set rs"
      by (cases rs) auto
    then have "now \<le> t1"
      using now assms(5) by fastforce
    then have "charged cap rate t0 t1 (0 + length rs) (0 + admitted counts rs oks) (account s')"
      using assms(4,5) now by (intro run_charged [OF assms(3) c]) (auto simp: sorted_append)
    then show ?thesis
      using charged_bound cap_nonneg rate_nonneg by fastforce
  qed
qed

end

lemma allow_pre_handshake_cases:
  assumes "allow_pre_handshake now src s = (ok, s')"
  obtains (ip) r b where "entry_take 20 10 now 1 (sy_ip_buckets s (sa_ip src)) = (r, b)"
    "ok \<Longrightarrow> r" "sy_ip_buckets s' = (sy_ip_buckets s)(sa_ip src \<mapsto> b)"
    "case src_prefix src of None \<Rightarrow> sy_prefix_buckets s' = sy_prefix_buckets s
     | Some p \<Rightarrow> (\<not> ok \<and> sy_prefix_buckets s' = sy_prefix_buckets s)
        \<or> (\<exists>pb. entry_take 80 40 now 1 (sy_prefix_buckets s p) = (ok, pb)
              \<and> sy_prefix_buckets s' = (sy_prefix_buckets s)(p \<mapsto> pb))"
proof -
  obtain r b where rb: "entry_take 20 10 now 1 (sy_ip_buckets s (sa_ip src)) = (r, b)"
    by (cases "entry_take 20 10 now 1 (sy_ip_buckets s (sa_ip src))")
  show thesis
    by (rule ip [OF rb]; use assms rb in \<open>auto simp: allow_pre_handshake_def src_prefix_def Let_def
          split: if_splits ip_addr.splits prod.splits\<close>)
qed

interpretation ip_account: rate_account "\<lambda>s. sy_ip_buckets s ip" "\<lambda>src. sa_ip src = ip" 20 10 for ip
proof
  fix t0 now n acc s now' src ok s'
  assume ch: "charged 20 10 t0 now n acc (sy_ip_buckets s ip)" and le: "now \<le> now'" "t0 \<le> now'"
    and a: "allow_pre_handshake now' src s = (ok, s')"
  from a show "charged 20 10 t0 now' (Suc n) (acc + (if ok \<and> sa_ip src = ip then 1 else 0)) (sy_ip_buckets s' ip)"
  proof (cases rule: allow_pre_handshake_cases)
    case (ip r b)
    show ?thesis
    proof (cases "sa_ip src = ip")
      case True
      with ip entry_charged [OF ch le] have "charged 20 10 t0 now' (Suc n) (acc + (if r then 1 else 0)) (Some b)"
        by simp
      moreover have "sy_ip_buckets s' ip = Some b"
        using ip(3) True by simp
      ultimately show ?thesis
        using ip(2) charged_mono [of 20 10 t0 now' "Suc n" _ "Some b" now' "Suc n"] by auto
    next
      case False
      then show ?thesis
        using charged_mono [OF ch le(1), of "Suc n" acc] ip by simp
    qed
  qed
qed simp_all

interpretation prefix_account: rate_account "\<lambda>s. sy_prefix_buckets s p" "\<lambda>src. src_prefix src = Some p" 80 40 for p
proof
  fix t0 now n acc s now' src ok s'
  assume ch: "charged 80 40 t0 now n acc (sy_prefix_buckets s p)" and le: "now \<le> now'" "t0 \<le> now'"
    and a: "allow_pre_handshake now' src s = (ok, s')"
  have keep: "charged 80 40 t0 now' (Suc n) acc (sy_prefix_buckets s p)"
    using charged_mono [OF ch le(1), of "Suc n" acc] by simp
  from a show "charged 80 40 t0 now' (Suc n) (acc + (if ok \<and> src_prefix src = Some p then 1 else 0))
      (sy_prefix_buckets s' p)"
  proof (cases rule: allow_pre_handshake_cases)
    case (ip r b)
    show ?thesis
    proof (cases "src_prefix src = Some p")
      case True
      with ip(4) keep entry_charged [OF ch le, of ok] show ?thesis by auto
    next
      case False
      with ip(4) keep show ?thesis by (auto split: option.splits)
    qed
  qed
qed simp_all


section \<open>Scores\<close>

definition score_ok :: "score \<Rightarrow> bool" where
  "score_ok sc = (0 \<le> sc_ewma sc \<and> sc_ewma sc \<le> 1 \<and> sc_quarantine sc \<le> 3)"

text \<open>The two updates of the average, as functions.\<close>

definition ewma_up :: "f64 \<Rightarrow> f64" where
  "ewma_up e = f64_add (f64_mul e (f64_round (8 / 10))) (f64_round (2 / 10))"

definition ewma_down :: "f64 \<Rightarrow> f64" where
  "ewma_down e = f64_mul e (f64_round (7 / 10))"

lemma ewma_up_mono: "0 \<le> x \<Longrightarrow> x \<le> y \<Longrightarrow> ewma_up x \<le> ewma_up y"
  unfolding ewma_up_def f64_add_def f64_mul_def
  by (intro f64_round_mono add_right_mono add_nonneg_nonneg mult_right_mono mult_nonneg_nonneg f64_round_nonneg) auto

lemma ewma_down_mono: "0 \<le> x \<Longrightarrow> x \<le> y \<Longrightarrow> ewma_down x \<le> ewma_down y"
  unfolding ewma_down_def f64_mul_def by (intro f64_round_mono mult_right_mono) simp_all

lemma ewma_nonneg [simp]: "0 \<le> x \<Longrightarrow> 0 \<le> ewma_up x" "0 \<le> x \<Longrightarrow> 0 \<le> ewma_down x"
  by (simp_all add: ewma_up_def ewma_down_def f64_add_def f64_mul_def)

text \<open>The constants of the code, and how far a rounded update is from the exact one.\<close>

lemma f64_eight_tenths: "f64_round (8 / 10) = 3602879701896397 / 4503599627370496"
  using f64_round_eqI [of "- 1" "8 / 10" 7205759403792794] by (simp add: power_int_minus_divide)

lemma f64_two_tenths: "f64_round (2 / 10) = 3602879701896397 / 18014398509481984"
  using f64_round_eqI [of "- 3" "2 / 10" 7205759403792794] by (simp add: power_int_minus_divide)

lemma f64_seven_tenths: "f64_round (7 / 10) = 6305039478318694 / 9007199254740992"
  using f64_round_eqI [of "- 1" "7 / 10" 6305039478318694] by (simp add: power_int_minus_divide)

lemma ewma_up_one: "ewma_up 1 = 1"
proof -
  have "f64_round (3602879701896397 / 4503599627370496) = 3602879701896397 / 4503599627370496"
    using f64_round_exact [of _ 3602879701896397 "- 52"] by (simp add: power_int_minus_divide)
  moreover have "f64_round (3602879701896397 / 4503599627370496 + 3602879701896397 / 18014398509481984) = 1"
    using f64_round_eqI [of 0 "3602879701896397 / 4503599627370496 + 3602879701896397 / 18014398509481984" 4503599627370496]
    by (simp add: power_int_minus_divide)
  ultimately show ?thesis
    unfolding ewma_up_def f64_add_def f64_mul_def f64_eight_tenths f64_two_tenths by (simp only: mult_1)
qed

lemma ewma_up_le: "0 \<le> x \<Longrightarrow> x \<le> 1 \<Longrightarrow> ewma_up x \<le> 1"
  using ewma_up_mono [of x 1] by (simp add: ewma_up_one)

lemma ewma_up_ge: "0 \<le> x \<Longrightarrow> 7999 / 10000 * x + 1999 / 10000 \<le> ewma_up x"
proof -
  assume x: "0 \<le> x"
  let ?p = "f64_mul x (f64_round (8 / 10))"
  have "x * (3602879701896397 / 4503599627370496) * (1 - 1 / 2 ^ 53) - 1 / 2 ^ 60 \<le> ?p"
    unfolding f64_mul_def f64_eight_tenths using x by (intro f64_round_bounds) simp
  moreover have "(?p + 3602879701896397 / 18014398509481984) * (1 - 1 / 2 ^ 53) - 1 / 2 ^ 60 \<le> ewma_up x"
    unfolding ewma_up_def f64_add_def f64_two_tenths using x by (intro f64_round_bounds) (simp add: f64_mul_def)
  ultimately show ?thesis
    using x by (simp add: field_simps)
qed

lemma ewma_down_less: "0 \<le> x \<Longrightarrow> ewma_down x \<le> 7001 / 10000 * x + 1 / 10 ^ 9"
proof -
  assume x: "0 \<le> x"
  have "ewma_down x \<le> x * (6305039478318694 / 9007199254740992) * (1 + 1 / 2 ^ 53) + 1 / 2 ^ 60"
    unfolding ewma_down_def f64_mul_def f64_seven_tenths using x by (intro f64_round_bounds) simp
  then show ?thesis
    using x by (simp add: field_simps)
qed

lemma ewma_down_le: "0 \<le> x \<Longrightarrow> x \<le> 1 \<Longrightarrow> ewma_down x \<le> 1"
  using ewma_down_less [of x] by simp


lemma score_reward_eq:
  "score_reward sc = \<lparr>sc_ewma = ewma_up (sc_ewma sc),
     sc_quarantine = (if ewma_up (sc_ewma sc) > f64_round (7 / 10) then 0 else sc_quarantine sc)\<rparr>"
  by (simp add: score_reward_def ewma_up_def Let_def)

lemma score_penalize_eq:
  "score_penalize sc = \<lparr>sc_ewma = ewma_down (sc_ewma sc),
     sc_quarantine = (if ewma_down (sc_ewma sc) < f64_round (2 / 10)
                      then min (sat_add (sc_quarantine sc) 1) 3 else sc_quarantine sc)\<rparr>"
  by (simp add: score_penalize_def ewma_down_def Let_def)

lemma f64_half: "f64_round (5 / 10) = 1 / 2"
  using f64_round_exact [of "1 / 2" 1 "- 1"] by (simp add: power_int_minus_divide)

lemma score_default_ok [simp]: "score_ok score_default"
  unfolding score_ok_def score_default_def f64_half by simp

lemma score_reward_ok: "score_ok sc \<Longrightarrow> score_ok (score_reward sc)"
  by (auto simp: score_ok_def score_reward_eq ewma_up_le)

lemma score_penalize_ok: "score_ok sc \<Longrightarrow> score_ok (score_penalize sc)"
  by (auto simp: score_ok_def score_penalize_eq ewma_down_le)

text \<open>Repeated updates of one peer.\<close>

lemma ewma_up_run: "0 \<le> x \<Longrightarrow> 73 / 100 \<le> (ewma_up ^^ 6) x"
proof -
  assume x: "0 \<le> x"
  define a where "a n = (ewma_up ^^ n) x" for n
  have "0 \<le> a n" for n
    by (induction n) (simp_all add: a_def x)
  then have "7999 / 10000 * a n + 1999 / 10000 \<le> a (Suc n)" for n
    using ewma_up_ge [of "a n"] by (simp add: a_def)
  from this [of 0] this [of 1] this [of 2] this [of 3] this [of 4] this [of 5] x
  have "73 / 100 \<le> a 6"
    by (simp add: a_def eval_nat_numeral)
  then show ?thesis by (simp add: a_def)
qed


lemma ewma_down_run: "0 \<le> x \<Longrightarrow> x \<le> 1 \<Longrightarrow> 5 \<le> n \<Longrightarrow> (ewma_down ^^ n) x \<le> 17 / 100"
proof -
  assume x: "0 \<le> x" "x \<le> 1" and n: "5 \<le> n"
  define a where "a n = (ewma_down ^^ n) x" for n
  have "0 \<le> a n" for n
    by (induction n) (simp_all add: a_def x)
  then have step: "a (Suc n) \<le> 7001 / 10000 * a n + 1 / 10 ^ 9" for n
    using ewma_down_less [of "a n"] by (simp add: a_def)
  from step [of 0] step [of 1] step [of 2] step [of 3] step [of 4] x
  have "a 5 \<le> 17 / 100"
    by (simp add: a_def eval_nat_numeral)
  then have "a (5 + m) \<le> 17 / 100" for m
  proof (induction m)
    case (Suc m)
    with step [of "5 + m"] show ?case by simp
  qed simp
  from this [of "n - 5"] n show ?thesis by (simp add: a_def)
qed

lemma unat_bump: "q \<le> 3 \<Longrightarrow> unat (min (sat_add q 1) 3 :: u8) = min (unat q + 1) 3"
proof -
  assume "q \<le> 3"
  then have q: "unat q \<le> 3" by (simp add: word_le_nat_alt)
  then have "unat (q + 1) = unat q + 1"
    by (simp add: unat_word_ariths)
  with q show ?thesis
    by (auto simp: sat_add_def min_def word_le_nat_alt)
qed

lemma funpow_ewma:
  "sc_ewma ((score_penalize ^^ n) sc) = (ewma_down ^^ n) (sc_ewma sc)"
  "sc_ewma ((score_reward ^^ n) sc) = (ewma_up ^^ n) (sc_ewma sc)"
  by (induction n) (simp_all add: score_penalize_eq score_reward_eq)

lemma funpow_score_ok: "score_ok sc \<Longrightarrow> score_ok ((score_penalize ^^ n) sc)"
  by (induction n) (simp_all add: score_penalize_ok)

lemma penalize_late:
  assumes "score_ok sc" "4 \<le> n"
  shows "unat (sc_quarantine ((score_penalize ^^ Suc n) sc))
    = min (unat (sc_quarantine ((score_penalize ^^ n) sc)) + 1) 3"
proof -
  let ?t = "(score_penalize ^^ n) sc"
  have "(ewma_down ^^ Suc n) (sc_ewma sc) \<le> 17 / 100"
    using assms by (intro ewma_down_run) (simp_all add: score_ok_def)
  then have "ewma_down (sc_ewma ?t) < f64_round (2 / 10)"
    unfolding f64_two_tenths by (simp add: funpow_ewma)
  moreover have "sc_quarantine ?t \<le> 3"
    using funpow_score_ok [OF assms(1), of n] by (simp add: score_ok_def)
  ultimately show ?thesis
    using unat_bump by (simp add: score_penalize_eq)
qed

lemma penalize_six: "score_ok sc \<Longrightarrow> 2 \<le> unat (sc_quarantine ((score_penalize ^^ 6) sc))"
  using penalize_late [of sc 4] penalize_late [of sc 5] by (simp add: eval_nat_numeral)

lemma reward_six: "score_ok sc \<Longrightarrow> sc_quarantine ((score_reward ^^ 6) sc) = 0"
proof -
  assume "score_ok sc"
  then have "73 / 100 \<le> (ewma_up ^^ 6) (sc_ewma sc)"
    by (intro ewma_up_run) (simp add: score_ok_def)
  then have "f64_round (7 / 10) < ewma_up (sc_ewma ((score_reward ^^ 5) sc))"
    unfolding f64_seven_tenths funpow_ewma by (simp add: eval_nat_numeral)
  moreover have "(score_reward ^^ 6) sc = score_reward ((score_reward ^^ 5) sc)"
    by (simp add: eval_nat_numeral)
  ultimately show ?thesis by (simp add: score_reward_eq)
qed

section \<open>Invariant\<close>

definition sybil_ok :: "sybil \<Rightarrow> bool" where
  "sybil_ok s =
     ((\<forall>i b. sy_ip_buckets s i = Some b \<longrightarrow> bucket_ok b)
      \<and> (\<forall>i b. sy_prefix_buckets s i = Some b \<longrightarrow> bucket_ok b)
      \<and> (\<forall>i b. sy_peer_buckets s i = Some b \<longrightarrow> bucket_ok b)
      \<and> (\<forall>i sc. sy_scores s i = Some sc \<longrightarrow> score_ok sc)
      \<and> sy_pow_bits s \<le> 16)"

lemma sybil_new_ok: "sybil_ok (sybil_new c)"
  by (simp add: sybil_ok_def sybil_new_def)

lemma score_of_ok: "sybil_ok s \<Longrightarrow> score_ok (score_of s i)"
  by (auto simp: sybil_ok_def score_of_def split: option.splits)

lemma entry_take_ok:
  assumes "\<And>b. e = Some b \<Longrightarrow> bucket_ok b" "0 \<le> cap" "f64_round cap = cap" "0 \<le> rate" "0 \<le> n"
    "entry_take cap rate now n e = (r, b)"
  shows "bucket_ok b"
proof -
  let ?b = "case e of None \<Rightarrow> bucket_new cap rate now | Some b \<Rightarrow> b"
  have "bucket_ok ?b"
    using assms by (auto simp: bucket_new_def bucket_ok_def split: option.splits)
  then have "bucket_ok (snd (bucket_take now n ?b))"
    using assms(5) by (intro bucket_take_ok)
  with assms(6) show ?thesis by (simp add: entry_take_def)
qed

lemma allow_pre_handshake_kept [simp]:
  "sy_peer_buckets (snd (allow_pre_handshake now src s)) = sy_peer_buckets s"
  "sy_scores (snd (allow_pre_handshake now src s)) = sy_scores s"
  "sy_pow_bits (snd (allow_pre_handshake now src s)) = sy_pow_bits s"
  by (simp_all add: allow_pre_handshake_def Let_def split: prod.splits ip_addr.splits)

lemma allow_pre_handshake_ok:
  assumes "sybil_ok s"
  shows "sybil_ok (snd (allow_pre_handshake now src s))"
proof -
  obtain ok s' where a: "allow_pre_handshake now src s = (ok, s')"
    by (cases "allow_pre_handshake now src s")
  then show ?thesis
  proof (cases rule: allow_pre_handshake_cases)
    case (ip r b)
    have "bucket_ok b"
      using assms by (intro entry_take_ok [OF _ _ _ _ _ ip(1)]) (simp_all add: sybil_ok_def)
    then have "\<forall>i b. sy_ip_buckets s' i = Some b \<longrightarrow> bucket_ok b"
      using assms ip(3) by (simp add: sybil_ok_def)
    moreover have "bucket_ok pb" if "entry_take 80 40 now 1 (sy_prefix_buckets s p) = (ok, pb)" for p pb
      by (rule entry_take_ok [OF _ _ _ _ _ that]; cases p; use assms in \<open>simp add: sybil_ok_def\<close>)
    then have "\<forall>i b. sy_prefix_buckets s' i = Some b \<longrightarrow> bucket_ok b"
      using assms ip(4) by (auto simp: sybil_ok_def split: option.splits if_splits)
    ultimately show ?thesis
      using assms allow_pre_handshake_kept [of now src s] a by (simp add: sybil_ok_def)
  qed
qed

lemma allow_peer_ok:
  assumes "sybil_ok s" "0 \<le> cost"
  shows "sybil_ok (snd (allow_peer now i cost s))"
proof -
  define cap :: f64 where "cap = (if quarantine_of s i > 0 then 4 else 40)"
  obtain r b where t: "entry_take cap (f64_div cap 2) now cost (sy_peer_buckets s i) = (r, b)"
    by (cases "entry_take cap (f64_div cap 2) now cost (sy_peer_buckets s i)")
  have "bucket_ok b"
    using assms by (intro entry_take_ok [OF _ _ _ _ _ t]) (simp_all add: sybil_ok_def cap_def f64_div_def)
  moreover have "snd (allow_peer now i cost s) = s\<lparr>sy_peer_buckets := (sy_peer_buckets s)(i \<mapsto> b)\<rparr>"
    using t by (simp add: allow_peer_def cap_def [symmetric] Let_def)
  ultimately show ?thesis
    using assms by (simp add: sybil_ok_def)
qed

fun sybil_event_ok :: "sybil_event \<Rightarrow> bool" where
  "sybil_event_ok (SyPeer now i cost) = (0 \<le> cost)"
| "sybil_event_ok _ = True"

lemma reward_ok: "sybil_ok s \<Longrightarrow> sybil_ok (reward i s)"
  using score_of_ok [of s i] by (simp add: sybil_ok_def reward_def score_reward_ok)

lemma penalize_ok: "sybil_ok s \<Longrightarrow> sybil_ok (penalize i s)"
  using score_of_ok [of s i] by (simp add: sybil_ok_def penalize_def score_penalize_ok)

interpretation sybil_machine: inv_machine "sybil_step keyed" sybil_ok sybil_event_ok for keyed
proof
  show "sybil_ok (sybil_step keyed s e)" if "sybil_ok s" "sybil_event_ok e" for s e
    using that
    by (cases e) (simp_all add: allow_pre_handshake_ok allow_peer_ok reward_ok penalize_ok,
        simp_all add: sybil_ok_def mint_token_def raise_difficulty_def Let_def)
qed


lemma funpow_score_of:
  "score_of ((penalize i ^^ n) s) i = (score_penalize ^^ n) (score_of s i)"
  "score_of ((reward i ^^ n) s) i = (score_reward ^^ n) (score_of s i)"
  "j \<noteq> i \<Longrightarrow> score_of ((penalize i ^^ n) s) j = score_of s j"
  "j \<noteq> i \<Longrightarrow> score_of ((reward i ^^ n) s) j = score_of s j"
  by (induction n) (simp_all add: penalize_def reward_def score_of_def)

lemma alpha_cap_score:
  "alpha_cap s i = (let q = sc_quarantine (score_of s i) in if q = 0 then 8 else if q = 1 then 3 else 1)"
  by (simp add: alpha_cap_def quarantine_of_def score_of_def score_default_def split: option.splits)

section \<open>Properties\<close>

text \<open>
  C22. The limiter works over every period: whatever was asked before, of the requests that arrive
  between \<open>t0\<close> and \<open>t1\<close>, in the order of the clock, an address gets at most \<open>20\<close> and then \<open>10\<close> per
  second through, and all addresses of one /24 prefix together \<open>80\<close> and then \<open>40\<close> per second, up to
  the rounding errors of the floating-point accounts (a relative \<open>2 ^ -50\<close> of the refill and
  \<open>2 ^ -43\<close> per request). A bucket that was idle saves up no more than its capacity.
\<close>

theorem rate_limit:
  assumes "admitted_run (sybil_new c) before = (oks1, s1)" and "admitted_run s1 rs = (oks, s')"
    and "sorted (map fst (before @ rs))" and "\<forall>(t, _) \<in> set rs. t0 \<le> t \<and> t \<le> t1" and "t0 \<le> t1"
  shows "of_nat (admitted (\<lambda>src. sa_ip src = ip) rs oks)
      \<le> 20 + refill 10 t0 t1 + of_nat (length rs) / 2 ^ 43
    \<and> of_nat (admitted (\<lambda>src. src_prefix src = Some p) rs oks)
      \<le> 80 + refill 40 t0 t1 + of_nat (length rs) / 2 ^ 43"
  using ip_account.window_bound [OF assms(1) _ assms(2-5), of ip]
    prefix_account.window_bound [OF assms(1) _ assms(2-5), of p] by (simp_all add: sybil_new_def)

theorem rate_limit_witness:
  "let s1 = snd (admitted_run (sybil_new demo_crypto) [(5, AddrV4 127 0 0 1 1)])
   in of_nat (admitted (\<lambda>src. sa_ip src = IpV4 127 0 0 1) (replicate 50 (secs 3600, AddrV4 127 0 0 1 1))
      (fst (admitted_run s1 (replicate 50 (secs 3600, AddrV4 127 0 0 1 1)))))
    \<le> 20 + refill 10 (secs 3600) (secs 3600) + of_nat 50 / 2 ^ 43"
proof -
  let ?rs = "replicate 50 (secs 3600, AddrV4 127 0 0 1 1)"
  obtain oks1 s1 where a: "admitted_run (sybil_new demo_crypto) [(5, AddrV4 127 0 0 1 1)] = (oks1, s1)"
    by (cases "admitted_run (sybil_new demo_crypto) [(5, AddrV4 127 0 0 1 1)]")
  obtain oks s' where b: "admitted_run s1 ?rs = (oks, s')"
    by (cases "admitted_run s1 ?rs")
  have "sorted (map fst ([(5, AddrV4 127 0 0 1 1)] @ ?rs))"
    by (simp add: secs_def)
  then show ?thesis
    using rate_limit [OF a b, of "secs 3600" "secs 3600" "IpV4 127 0 0 1"] a b by (simp add: Let_def del: admitted_run.simps)
qed

text \<open>
  In every run every token bucket holds between zero and its capacity, every score lies between
  0 and 1 with a quarantine of at most 3, and the difficulty is at most 16 bits.
\<close>

theorem sybil_bounds:
  assumes "list_all sybil_event_ok es"
  shows "sybil_ok (foldl (sybil_step keyed) (sybil_new c) es)"
  using sybil_new_ok assms by (rule sybil_machine.run_inv)

theorem sybil_bounds_witness:
  "sybil_ok (foldl (sybil_step (\<lambda>k m. blake3 demo_crypto (k @ m))) (sybil_new demo_crypto)
     [SyPreHandshake 3 (AddrV4 10 0 0 1 9), SyPeer 4 (NodeId [7]) 2, SyPenalize (NodeId [7]), SyRaise])"
  by (rule sybil_bounds) simp

text \<open>
  Quarantine: whatever its score, a peer that fails six times in a row is asked alone, a peer
  that answers six times in a row has its full share of parallel requests, and no other peer is
  affected.
\<close>

theorem quarantine_cycle:
  assumes "sybil_ok s"
  shows "alpha_cap ((penalize i ^^ 6) s) i = 1 \<and> alpha_cap ((reward i ^^ 6) s) i = 8
    \<and> (j \<noteq> i \<longrightarrow> alpha_cap ((penalize i ^^ 6) s) j = alpha_cap s j
          \<and> alpha_cap ((reward i ^^ 6) s) j = alpha_cap s j)"
proof -
  have "score_ok (score_of s i)"
    using assms by (rule score_of_ok)
  then have "2 \<le> unat (sc_quarantine ((score_penalize ^^ 6) (score_of s i)))"
      "sc_quarantine ((score_reward ^^ 6) (score_of s i)) = 0"
    by (simp_all only: penalize_six reward_six)
  then show ?thesis
    unfolding alpha_cap_score funpow_score_of Let_def by (auto simp: funpow_score_of)
qed

theorem quarantine_cycle_witness:
  "alpha_cap ((penalize (NodeId [1]) ^^ 6) (sybil_new demo_crypto)) (NodeId [1]) = 1
   \<and> alpha_cap ((reward (NodeId [1]) ^^ 6) (sybil_new demo_crypto)) (NodeId [1]) = 8"
  using quarantine_cycle [OF sybil_new_ok] by simp

text \<open>
  An admission token is accepted for ten minutes after it was minted and not after that; minting
  a token for one peer leaves the tokens of the others alone.
\<close>

theorem admission_token:
  assumes "\<forall>k m. length (keyed k m) = 32" and "mint_token keyed now elapsed i s = (tok, s')"
  shows "(check_token t i tok s' \<longleftrightarrow> t - now \<le> secs 600)
    \<and> (j \<noteq> i \<longrightarrow> check_token t j tok' s' = check_token t j tok' s)"
proof -
  have "length tok = 32"
    using assms by (auto simp: mint_token_def Let_def)
  then show ?thesis
    using assms(2) by (auto simp: mint_token_def check_token_def Let_def)
qed

theorem admission_token_witness:
  "check_token (secs 600) (NodeId [1])
     (fst (mint_token (\<lambda>k m. replicate 32 7) 0 0 (NodeId [1]) (sybil_new demo_crypto)))
     (snd (mint_token (\<lambda>k m. replicate 32 7) 0 0 (NodeId [1]) (sybil_new demo_crypto)))"
  using admission_token [of "\<lambda>k m. replicate 32 7" 0 0 "NodeId [1]" "sybil_new demo_crypto"] by simp

end
