(* ===== verification/Shard_State.thy ===== *)
theory Shard_State
  imports Routing Codec Lookup Timers Nat_Relay Wg Erasure Metrics Sybil Rust_Text
begin

text \<open>
  \<^verbatim>\<open>src/shard.rs\<close>, first part: the state of a shard, what it reads from its environment, and how it
  sends. The state \<open>shard_ctx\<close> is \<^verbatim>\<open>ShardCtx\<close>, with the effects a shard has on the world: the
  datagrams it hands to the socket and the replies it gives to its callers, in their order. The
  clocks hold the readings of the current event.
\<close>

section \<open>Configuration, commands and replies\<close>

record node_config =
  cf_listen :: socket_addr
  cf_shard_count :: u32
  cf_bootstrap :: "socket_addr list"
  cf_plaintext :: bool
  cf_query_blind :: bool
  cf_two_hop_relay :: bool
  cf_peerstore_dir :: "string option"

definition node_config_default :: node_config where
  "node_config_default =
     \<lparr>cf_listen = AddrV4 0 0 0 0 0, cf_shard_count = 1, cf_bootstrap = [], cf_plaintext = True,
      cf_query_blind = True, cf_two_hop_relay = False, cf_peerstore_dir = None\<rparr>"

datatype reply =
    ReplyKey key
  | ReplyValue "bytes option"
  | ReplyRecord "stored_record option"
  | ReplyProviders "(node_id \<times> bytes) list"
  | ReplyPeers "peer_info list"
  | ReplyOk
  | ReplyErr string

text \<open>A caller is known by the number of its reply channel.\<close>

type_synonym channel = nat

datatype shard_cmd =
    CmdBootstrap "socket_addr list"
  | CmdPut bytes u64 channel
  | CmdGet key channel
  | CmdPutMutable stored_record channel
  | CmdAnnounce key bytes channel
  | CmdFindProviders key channel
  | CmdInjectPeer peer_info
  | CmdShutdown

record pending_lookup =
  pl_lookup :: lookup
  pl_reply :: "channel option"

section \<open>Environment\<close>

text \<open>
  What the shard does not define itself: the cryptographic library, the checksum, the textual form
  of addresses, the WireGuard tunnel, the Reed-Solomon code, the Protobuf codecs, the order in which
  a hash map visits its keys, and whether the socket accepts a datagram.
\<close>

record 't shard_env =
  en_crypto :: crypto
  en_crc :: "bytes \<Rightarrow> u32"
  en_text :: addr_text
  en_tunn :: "'t tunn_ops"
  en_rs :: rs_ops
  pb_ping :: "proto_ping prost"
  pb_pong :: "proto_pong prost"
  pb_negotiate_resp :: "proto_negotiate_resp prost"
  pb_find_node_req :: "proto_find_node_req prost"
  pb_find_node_resp :: "proto_find_node_resp prost"
  pb_find_value_req :: "proto_find_value_req prost"
  pb_find_value_resp :: "proto_find_value_resp prost"
  pb_store_req :: "proto_store_req prost"
  pb_store_resp :: "proto_store_resp prost"
  pb_announce_req :: "proto_announce_req prost"
  pb_announce_resp :: "proto_announce_resp prost"
  pb_record :: "proto_record prost"
  pb_error :: "proto_error prost"
  pb_punch :: "proto_punch prost"
  pb_relay :: "proto_relay prost"
  it_lookups :: "(u32 \<rightharpoonup> pending_lookup) \<Rightarrow> u32 list"
  it_punches :: "(node_id \<rightharpoonup> punch_attempt) \<Rightarrow> node_id list"
  it_sessions :: "(u32 \<rightharpoonup> 't session) \<Rightarrow> u32 list"
  en_send_ok :: "socket_addr \<Rightarrow> bytes \<Rightarrow> bool"

section \<open>State\<close>

record 't shard_ctx =
  sx_id :: u32
  sx_identity :: identity
  sx_cfg :: node_config
  sx_local :: socket_addr
  sx_pool :: buffer_pool
  sx_table :: routing_table
  sx_store :: store
  sx_peers :: peerstore
  sx_disk :: disk
  sx_wg :: "'t wg_engine"
  sx_sybil :: sybil
  sx_relay :: relay_state
  sx_metrics :: shard_metrics
  sx_lookups :: "u32 \<rightharpoonup> pending_lookup"
  sx_next_corr :: u32
  sx_endpoints :: "node_id \<rightharpoonup> endpoint_hint"
  sx_timers :: timing_wheel
  sx_keys_by_addr :: "socket_addr \<rightharpoonup> bytes"
  sx_pending_wg :: "socket_addr \<rightharpoonup> bytes list"
  sx_mapped :: "socket_addr option"
  sx_punches :: "node_id \<rightharpoonup> punch_attempt"
  sx_via_relay :: "node_id \<rightharpoonup> socket_addr"
  sx_out :: "(socket_addr \<times> bytes) list"
  sx_replies :: "(channel \<times> reply) list"
  sx_now :: instant
  sx_unix :: u64
  sx_unix_ms :: u64

definition self_id :: "'t shard_env \<Rightarrow> 't shard_ctx \<Rightarrow> node_id" where
  "self_id env ctx = identity_node_id (en_crypto env) (sx_identity ctx)"

text \<open>\<open>bump\<close> is \<^verbatim>\<open>ShardMetrics::incr\<close> or \<^verbatim>\<open>add\<close> on the counter that \<open>f\<close> updates.\<close>

definition bump :: "(shard_metrics \<Rightarrow> shard_metrics) \<Rightarrow> 't shard_ctx \<Rightarrow> 't shard_ctx" where
  "bump f ctx = ctx\<lparr>sx_metrics := f (sx_metrics ctx)\<rparr>"

definition send_reply :: "channel \<Rightarrow> reply \<Rightarrow> 't shard_ctx \<Rightarrow> 't shard_ctx" where
  "send_reply ch r ctx = ctx\<lparr>sx_replies := sx_replies ctx @ [(ch, r)]\<rparr>"

definition next_corr :: "'t shard_ctx \<Rightarrow> u32 \<times> 't shard_ctx" where
  "next_corr ctx =
     (let c = sx_next_corr ctx; n = c + 1
      in (c, ctx\<lparr>sx_next_corr := if n = 0 then 1 else n\<rparr>))"

text \<open>The calls into the routing table, the peer store and the timers.\<close>

definition table_insert :: "peer_info \<Rightarrow> 't shard_ctx \<Rightarrow> 't shard_ctx" where
  "table_insert info ctx = ctx\<lparr>sx_table := snd (rt_insert (sx_now ctx) info (sx_table ctx))\<rparr>"

definition peers_upsert :: "'t shard_env \<Rightarrow> peer_info \<Rightarrow> 't shard_ctx \<Rightarrow> 't shard_ctx" where
  "peers_upsert env info ctx = ctx\<lparr>sx_peers := ps_upsert (en_text env) info (sx_peers ctx)\<rparr>"

definition wg_add_peer ::
    "'t shard_env \<Rightarrow> bytes \<Rightarrow> node_id option \<Rightarrow> socket_addr option \<Rightarrow> 't shard_ctx \<Rightarrow> 't shard_ctx" where
  "wg_add_peer env x i addr ctx = ctx\<lparr>sx_wg := snd (add_peer (en_tunn env) x i addr (sx_wg ctx))\<rparr>"

definition schedule_at :: "instant \<Rightarrow> timer_kind \<Rightarrow> 't shard_ctx \<Rightarrow> 't shard_ctx" where
  "schedule_at t kind ctx = ctx\<lparr>sx_timers := schedule t kind (sx_timers ctx)\<rparr>"

section \<open>Addresses\<close>

text \<open>The ASCII bytes of \<^verbatim>\<open>udp://\<close>.\<close>

definition udp_scheme :: bytes where
  "udp_scheme = [117, 100, 112, 58, 47, 47]"

definition print_multiaddr :: "addr_text \<Rightarrow> socket_addr \<Rightarrow> bytes" where
  "print_multiaddr t a = udp_scheme @ at_print t a"

definition parse_multiaddr :: "addr_text \<Rightarrow> bytes \<Rightarrow> socket_addr option" where
  "parse_multiaddr t raw =
     (if \<not> utf8_ok raw then None
      else at_parse t (if take 6 raw = udp_scheme then drop 6 raw else raw))"

definition encode_addrs :: "addr_text \<Rightarrow> socket_addr list \<Rightarrow> proto_addr list" where
  "encode_addrs t addrs = map (\<lambda>a. Addr (print_multiaddr t a)) addrs"

definition peer_to_proto :: "addr_text \<Rightarrow> peer_info \<Rightarrow> proto_peer" where
  "peer_to_proto t p =
     \<lparr>pp_peer_id = nid (pi_id p), pp_addrs = encode_addrs t (pi_addrs p), pp_rtt_ms = rtt_ms p,
      pp_x25519 = (case x25519 p of Some x \<Rightarrow> x | None \<Rightarrow> [])\<rparr>"

definition peers_to_proto :: "addr_text \<Rightarrow> peer_info list \<Rightarrow> proto_peer list" where
  "peers_to_proto t peers = map (peer_to_proto t) (take MAX_FIND_NODE_PEERS peers)"

definition peer_from_proto :: "addr_text \<Rightarrow> proto_peer \<Rightarrow> peer_info option" where
  "peer_from_proto t p =
     (case node_id_from_bytes (pp_peer_id p) of
        None \<Rightarrow> None
      | Some i \<Rightarrow>
          (case List.map_filter (\<lambda>a. parse_multiaddr t (multiaddr a)) (pp_addrs p) of
             [] \<Rightarrow> None
           | addr # addrs \<Rightarrow>
               let info = foldl push_addr (peer_info_new i addr) addrs
               in Some (if length (pp_x25519 p) = 32 then info\<lparr>x25519 := Some (pp_x25519 p)\<rparr> else info)))"

definition peers_from_proto :: "addr_text \<Rightarrow> proto_peer list \<Rightarrow> peer_info list" where
  "peers_from_proto t peers = List.map_filter (peer_from_proto t) peers"

definition peer_id_for :: "'t shard_ctx \<Rightarrow> socket_addr \<Rightarrow> node_id option" where
  "peer_id_for ctx dest =
     map_option pe_id (find (\<lambda>e. dest \<in> set (pi_addrs (pe_info e))) (all_peers (sx_table ctx)))"

definition our_candidates :: "'t shard_ctx \<Rightarrow> socket_addr list" where
  "our_candidates ctx = candidates (sx_local ctx) (sx_mapped ctx)"

section \<open>Sending\<close>

definition io_send :: "'t shard_env \<Rightarrow> bytes \<Rightarrow> socket_addr \<Rightarrow> 't shard_ctx \<Rightarrow> bool \<times> 't shard_ctx" where
  "io_send env bs dest ctx =
     (if en_send_ok env dest bs then (True, ctx\<lparr>sx_out := sx_out ctx @ [(dest, bs)]\<rparr>) else (False, ctx))"

definition send_plain :: "'t shard_env \<Rightarrow> socket_addr \<Rightarrow> bytes \<Rightarrow> 't shard_ctx \<Rightarrow> 't shard_ctx" where
  "send_plain env dest app ctx =
     (let (ok, ctx1) = io_send env app dest ctx
      in if ok
         then bump (\<lambda>m. m\<lparr>m_tx_packets := metric_incr (m_tx_packets m),
                         m_tx_bytes := metric_add (m_tx_bytes m) (of_nat (length app))\<rparr>) ctx1
         else ctx1)"

text \<open>
  The pattern of every message: take a buffer from the pool, encode into it, send what was
  written, and give the buffer back. The first result is what \<^verbatim>\<open>encode_message\<close> returned.
\<close>

definition send_message ::
    "'m prost \<Rightarrow> header \<Rightarrow> 'm \<Rightarrow> (bytes \<Rightarrow> 't shard_ctx \<Rightarrow> 't shard_ctx) \<Rightarrow> 't shard_ctx
      \<Rightarrow> nat option \<times> 't shard_ctx" where
  "send_message c h body send ctx =
     (let (buf, pool1) = pool_take (sx_pool ctx);
          (n, out) = encode_message c h body (vec_data buf);
          ctx1 = ctx\<lparr>sx_pool := pool1\<rparr>;
          ctx2 = (case n of Some len \<Rightarrow> send (take len out) ctx1 | None \<Rightarrow> ctx1)
      in (n, ctx2\<lparr>sx_pool := pool_recycle (buf\<lparr>vec_data := out\<rparr>) (sx_pool ctx2)\<rparr>))"

definition count_relay :: "bytes \<Rightarrow> 't shard_ctx \<Rightarrow> 't shard_ctx" where
  "count_relay bs = bump (\<lambda>m. m\<lparr>m_relay_bytes := metric_add (m_relay_bytes m) (of_nat (length bs))\<rparr>)"

definition send_relay_frame ::
    "'t shard_env \<Rightarrow> socket_addr \<Rightarrow> node_id \<Rightarrow> bytes \<Rightarrow> 't shard_ctx \<Rightarrow> 't shard_ctx" where
  "send_relay_frame env hop dest app ctx =
     (if hop = sx_local ctx then ctx
      else let cands = List.map_filter
                 (\<lambda>e. map_option (\<lambda>a. (pe_id e, a)) (primary_addr (pe_info e))) (all_peers (sx_table ctx));
               hop' = (case pick_relay (self_id env ctx) dest cands of Some a \<Rightarrow> a | None \<Rightarrow> hop);
               (corr, ctx1) = next_corr ctx
           in snd (send_message (pb_relay env) (header_request Relay Coordination corr)
                \<lparr>rl_dest_id = nid dest, rl_from_id = nid (self_id env ctx), rl_payload = app\<rparr>
                (\<lambda>bs c. count_relay bs (send_plain env hop' bs c)) ctx1))"

definition pending_push :: "socket_addr \<Rightarrow> bytes list \<Rightarrow> 't shard_ctx \<Rightarrow> 't shard_ctx" where
  "pending_push dest apps ctx =
     ctx\<lparr>sx_pending_wg := (sx_pending_wg ctx)(dest \<mapsto>
       (case sx_pending_wg ctx dest of Some q \<Rightarrow> q | None \<Rightarrow> []) @ apps)\<rparr>"

definition is_initiation :: "bytes \<Rightarrow> bool" where
  "is_initiation bs = (case parse_wg_header bs of Some h \<Rightarrow> wh_ty h = WG_TYPE_INITIATION | None \<Rightarrow> False)"

definition count_tx :: "'t shard_ctx \<Rightarrow> 't shard_ctx" where
  "count_tx = bump (\<lambda>m. m\<lparr>m_tx_packets := metric_incr (m_tx_packets m)\<rparr>)"

text \<open>
  The encrypted branch of \<^verbatim>\<open>send_app\<close>: a message that only started a handshake, or could not be
  encrypted, waits in \<^verbatim>\<open>pending_wg\<close>.
\<close>

definition send_wg :: "'t shard_env \<Rightarrow> socket_addr \<Rightarrow> bytes \<Rightarrow> bytes \<Rightarrow> 't shard_ctx \<Rightarrow> 't shard_ctx" where
  "send_wg env dest pk app ctx =
     (let (out, pool1) = pool_take (sx_pool ctx);
          (r, wg1, bs) = encapsulate_to (en_tunn env) dest pk None (wrap_rpc app) (vec_data out) (sx_wg ctx);
          ctx1 = ctx\<lparr>sx_pool := pool1, sx_wg := wg1\<rparr>;
          (ctx3, bs3) =
            (case r of
               Some n \<Rightarrow>
                 let ctx2 = (if is_initiation (take n bs) then pending_push dest [app] ctx1 else ctx1)
                 in (count_tx (snd (io_send env (take n bs) dest ctx2)), bs)
             | None \<Rightarrow>
                 let ctx2 = pending_push dest [app] ctx1;
                     (r2, wg2, bs2) = encapsulate_to (en_tunn env) dest pk None [] bs (sx_wg ctx2);
                     ctx2' = ctx2\<lparr>sx_wg := wg2\<rparr>
                 in (case r2 of
                       Some n \<Rightarrow> count_tx (snd (io_send env (take n bs2) dest ctx2'))
                     | None \<Rightarrow> ctx2', bs2))
      in ctx3\<lparr>sx_pool := pool_recycle (out\<lparr>vec_data := bs3\<rparr>) (sx_pool ctx3)\<rparr>)"

definition relay_hop :: "'t shard_ctx \<Rightarrow> socket_addr \<Rightarrow> (node_id \<times> socket_addr) option" where
  "relay_hop ctx dest =
     (case peer_id_for ctx dest of
        None \<Rightarrow> None
      | Some i \<Rightarrow> map_option (\<lambda>hop. (i, hop)) (sx_via_relay ctx i))"

definition send_app ::
    "'t shard_env \<Rightarrow> socket_addr \<Rightarrow> bytes option \<Rightarrow> bytes \<Rightarrow> 't shard_ctx \<Rightarrow> 't shard_ctx" where
  "send_app env dest x app ctx =
     (if length app > PMTU_FLOOR then ctx
      else case relay_hop ctx dest of
          Some (i, hop) \<Rightarrow> send_relay_frame env hop i app ctx
        | None \<Rightarrow>
            let ctx1 = ctx\<lparr>sx_relay := (sx_relay ctx)\<lparr>rs_budget :=
                         on_egress (of_nat (length app)) (rs_budget (sx_relay ctx))\<rparr>\<rparr>;
                k = (case x of Some pk \<Rightarrow> Some pk | None \<Rightarrow> sx_keys_by_addr ctx1 dest)
            in case k of
                 None \<Rightarrow> send_plain env dest app ctx1
               | Some pk \<Rightarrow> if cf_plaintext (sx_cfg ctx1) then send_plain env dest app ctx1
                           else send_wg env dest pk app ctx1)"

end
