(* ===== verification/Shard.thy ===== *)
theory Shard
  imports Shard_State
begin

text \<open>
  \<^verbatim>\<open>src/shard.rs\<close>, second part: the handlers of commands, datagrams and timers, and the event loop
  that composes them. Every handler is a function on the state; the two loops that depend on
  foreign code (nested relay frames, draining a tunnel) are partial functions, so that not
  returning is the result \<open>None\<close>.
\<close>

section \<open>Introductions\<close>

definition intro_ping :: "'t shard_env \<Rightarrow> 't shard_ctx \<Rightarrow> proto_ping" where
  "intro_ping env ctx =
     \<lparr>ping_now_unix_ms = sx_unix_ms ctx,
      ping_x25519 = wg_public (en_crypto env) (sx_identity ctx),
      ping_ed25519 = verifying_key (sx_identity ctx),
      ping_binding_sig = binding_signature (en_crypto env) (sx_identity ctx)\<rparr>"

definition intro_pong :: "'t shard_env \<Rightarrow> socket_addr \<Rightarrow> 't shard_ctx \<Rightarrow> proto_pong" where
  "intro_pong env src ctx =
     \<lparr>pong_now_unix_ms = sx_unix_ms ctx,
      pong_x25519 = wg_public (en_crypto env) (sx_identity ctx),
      pong_ed25519 = verifying_key (sx_identity ctx),
      pong_binding_sig = binding_signature (en_crypto env) (sx_identity ctx),
      pong_observed = Some (Addr (print_multiaddr (en_text env) src))\<rparr>"

definition ping :: "'t shard_env \<Rightarrow> socket_addr \<Rightarrow> 't shard_ctx \<Rightarrow> 't shard_ctx" where
  "ping env dest ctx =
     (let (corr, ctx1) = next_corr ctx
      in snd (send_message (pb_ping env) (header_request Ping Control corr) (intro_ping env ctx1)
                (send_plain env dest) ctx1))"

definition note_peer_keys ::
    "'t shard_env \<Rightarrow> socket_addr \<Rightarrow> bytes \<Rightarrow> bytes \<Rightarrow> bytes \<Rightarrow> 't shard_ctx \<Rightarrow> node_id option \<times> 't shard_ctx" where
  "note_peer_keys env src x ed sig ctx =
     (if length x \<noteq> 32 \<or> length ed \<noteq> 32 \<or> sig = [] then (None, ctx)
      else if \<not> verify_binding (en_crypto env) ed x sig then (None, ctx)
      else let i = node_id_from_pubkey (en_crypto env) ed;
               ctx1 = ctx\<lparr>sx_keys_by_addr := (sx_keys_by_addr ctx)(src \<mapsto> x)\<rparr>;
               ctx2 = wg_add_peer env x (Some i) (Some src) ctx1;
               info = (peer_info_new i src)\<lparr>x25519 := Some x\<rparr>;
               ctx3 = peers_upsert env info (table_insert info ctx2)
           in (Some i, ctx3))"

text \<open>The bytes from which \<^verbatim>\<open>learn_addr\<close> makes up an identifier for an address.\<close>

definition addr_seed :: "socket_addr \<Rightarrow> bytes" where
  "addr_seed src =
     (case sa_ip src of
        IpV4 a b c d \<Rightarrow> [a, b, c, d] @ replicate 26 0
      | IpV6 o6 \<Rightarrow> o6 @ replicate 14 0) @ to_be_bytes (sa_port src)"

definition learn_addr :: "'t shard_env \<Rightarrow> socket_addr \<Rightarrow> node_id option \<Rightarrow> 't shard_ctx \<Rightarrow> 't shard_ctx" where
  "learn_addr env src known ctx =
     (case known of
        Some i \<Rightarrow>
          let info = push_addr (case rt_get (sx_table ctx) i of Some e \<Rightarrow> pe_info e
                                | None \<Rightarrow> peer_info_new i src) src;
              ctx1 = peers_upsert env info (table_insert info ctx);
              ctx2 = ctx1\<lparr>sx_endpoints := (sx_endpoints ctx1)(i \<mapsto>
                        \<lparr>eh_declared = src, eh_observed = Some src, eh_last_ok = sx_now ctx1\<rparr>)\<rparr>;
              ctx3 = ctx2\<lparr>sx_sybil := reward i (sx_sybil ctx2)\<rparr>
          in ctx3\<lparr>sx_table := touch_ok (sx_now ctx3) i 80000 (sx_table ctx3)\<rparr>
      | None \<Rightarrow>
          let i = NodeId (blake3 (en_crypto env) (addr_seed src));
              info = peer_info_new i src
          in peers_upsert env info (table_insert info ctx))"

section \<open>Requests to peers\<close>

definition send_store_rpc :: "'t shard_env \<Rightarrow> stored_record \<Rightarrow> 't shard_ctx \<Rightarrow> 't shard_ctx" where
  "send_store_rpc env r ctx =
     (let peers = closest (sx_table ctx) (sr_key r) K_DEFAULT;
          encoded = record_encode (pb_record env) r
      in foldl (\<lambda>ctx p. case primary_addr p of None \<Rightarrow> ctx | Some dest \<Rightarrow>
            (let (corr, ctx1) = next_corr ctx
             in snd (send_message (pb_store_req env) (header_request StoreReq Coordination corr)
                  \<lparr>sq_record = encoded, sq_admission_token = [], sq_cost_stamp = []\<rparr>
                  (send_app env dest (x25519 p)) ctx1))) ctx peers)"

definition replicate_store :: "'t shard_env \<Rightarrow> bytes \<Rightarrow> key \<Rightarrow> u64 \<Rightarrow> 't shard_ctx \<Rightarrow> 't shard_ctx" where
  "replicate_store env value k ttl ctx =
     send_store_rpc env
       \<lparr>sr_key = k, sr_value = value, sr_sequence = 0, sr_ttl_secs = ttl, sr_not_before_unix = 0,
        sr_owner_pubkey = [], sr_signature = [], sr_kind = KIND_IMMUTABLE, sr_namespace = [],
        sr_salt = [], sr_stored_unix = sx_unix ctx, sr_cache = False\<rparr> ctx"

definition announce_rpc :: "'t shard_env \<Rightarrow> key \<Rightarrow> bytes \<Rightarrow> 't shard_ctx \<Rightarrow> 't shard_ctx" where
  "announce_rpc env k meta ctx =
     foldl (\<lambda>ctx p. case primary_addr p of None \<Rightarrow> ctx | Some dest \<Rightarrow>
         (let (corr, ctx1) = next_corr ctx
          in snd (send_message (pb_announce_req env) (header_request AnnounceProviderReq Coordination corr)
               \<lparr>aq_key = kbytes k,
                aq_self_descriptor = Some \<lparr>prov_peer_id = nid (self_id env ctx1), prov_meta = meta\<rparr>,
                aq_record = [], aq_admission_token = [], aq_cost_stamp = []\<rparr>
               (send_app env dest (x25519 p)) ctx1)))
       ctx (closest (sx_table ctx) k K_DEFAULT)"

definition reply_peers ::
    "'t shard_env \<Rightarrow> socket_addr \<Rightarrow> u32 \<Rightarrow> peer_info list \<Rightarrow> 't shard_ctx \<Rightarrow> 't shard_ctx" where
  "reply_peers env dest corr peers ctx =
     snd (send_message (pb_find_node_resp env) (header_response FindNodeResp Coordination corr)
       \<lparr>fnr_peers = peers_to_proto (en_text env) peers\<rparr> (send_app env dest None) ctx)"

definition send_error ::
    "'t shard_env \<Rightarrow> socket_addr \<Rightarrow> u32 \<Rightarrow> u32 \<Rightarrow> string \<Rightarrow> 't shard_ctx \<Rightarrow> 't shard_ctx" where
  "send_error env dest corr code reason ctx =
     snd (send_message (pb_error env) (header_response ErrorMsg Control corr)
       \<lparr>er_code = code, er_reason = reason, er_retry_after_ms = 50\<rparr> (send_app env dest None) ctx)"

section \<open>Lookups\<close>

definition send_probe ::
    "'t shard_env \<Rightarrow> socket_addr \<Rightarrow> bytes option \<Rightarrow> key \<Rightarrow> 't shard_ctx \<Rightarrow> 't shard_ctx" where
  "send_probe env dest x probe ctx =
     (let (corr, ctx1) = next_corr ctx;
          h = header_request FindValueReq Hints corr;
          h' = h\<lparr>h_flags := h_flags h OR FLAG_PROBE\<rparr>
      in snd (send_message (pb_find_value_req env) h'
           \<lparr>fvq_key = kbytes probe, fvq_provider_limit = 1\<rparr> (send_app env dest x) ctx1))"

text \<open>The request of a lookup to one peer, with what \<^verbatim>\<open>encode_message\<close> returned.\<close>

definition send_find ::
    "'t shard_env \<Rightarrow> lookup \<Rightarrow> socket_addr \<Rightarrow> bytes option \<Rightarrow> u32 \<Rightarrow> 't shard_ctx \<Rightarrow> nat option \<times> 't shard_ctx" where
  "send_find env l dest x corr ctx =
     (case lk_kind l of
        FindNode \<Rightarrow>
          send_message (pb_find_node_req env) (header_request FindNodeReq Coordination corr)
            \<lparr>fnq_target_id = kbytes (lk_target l), fnq_limit = of_nat K_DEFAULT\<rparr> (send_app env dest x) ctx
      | FindValue \<Rightarrow>
          send_message (pb_find_value_req env) (header_request FindValueReq Coordination corr)
            \<lparr>fvq_key = kbytes (lk_target l), fvq_provider_limit = 16\<rparr> (send_app env dest x) ctx)"

text \<open>One peer of the batch that \<^verbatim>\<open>dispatch_lookup_batch\<close> sends.\<close>

definition dispatch_one :: "'t shard_env \<Rightarrow> lookup \<times> 't shard_ctx \<Rightarrow> peer_info \<Rightarrow> lookup \<times> 't shard_ctx" where
  "dispatch_one env s p =
     (let (l, ctx) = s; (corr, ctx1) = next_corr ctx
      in case primary_addr p of
           None \<Rightarrow> (l, ctx1)
         | Some dest \<Rightarrow>
             let (n, ctx2) = send_find env l dest (x25519 p) corr ctx1;
                 l2 = (if n \<noteq> None then note_sent (sx_now ctx2) (pi_id p) corr l else l)
             in (l2, if lk_privacy l2 = Blind
                     then foldl (\<lambda>ctx probe. send_probe env dest (x25519 p) probe ctx) ctx2 (lk_probe_targets l2)
                     else ctx2))"

definition dispatch_lookup_batch ::
    "'t shard_env \<Rightarrow> lookup \<Rightarrow> 't shard_ctx \<Rightarrow> lookup \<times> 't shard_ctx" where
  "dispatch_lookup_batch env l ctx =
     (let (batch, l1) = next_batch (sx_now ctx) l in foldl (dispatch_one env) (l1, ctx) batch)"

definition lookup_reply :: "lookup_kind \<Rightarrow> lookup \<Rightarrow> reply" where
  "lookup_reply kind l =
     (case kind of
        FindNode \<Rightarrow> ReplyPeers (finish_peers l)
      | FindValue \<Rightarrow>
          (case lk_found_record l of
             Some r \<Rightarrow> ReplyRecord (Some r)
           | None \<Rightarrow> if lk_providers l \<noteq> [] then ReplyProviders (lk_providers l) else ReplyValue None))"

definition finish_lookup ::
    "lookup_kind \<Rightarrow> lookup \<Rightarrow> channel option \<Rightarrow> 't shard_ctx \<Rightarrow> 't shard_ctx" where
  "finish_lookup kind l reply ctx =
     (case reply of None \<Rightarrow> ctx | Some ch \<Rightarrow> send_reply ch (lookup_reply kind l) ctx)"

definition start_lookup ::
    "'t shard_env \<Rightarrow> lookup_kind \<Rightarrow> key \<Rightarrow> channel option \<Rightarrow> 't shard_ctx \<Rightarrow> 't shard_ctx" where
  "start_lookup env kind target reply ctx =
     (let privacy = (if cf_query_blind (sx_cfg ctx) then Blind else PrivNone);
          seeds = closest (sx_table ctx) target ALPHA_DEFAULT;
          (l, ctx1) = dispatch_lookup_batch env (lookup_new (sx_now ctx) kind target seeds privacy) ctx
      in if lk_done l then finish_lookup kind l reply ctx1
         else ctx1\<lparr>sx_lookups := (sx_lookups ctx1)(sx_next_corr ctx1 \<mapsto> \<lparr>pl_lookup = l, pl_reply = reply\<rparr>)\<rparr>)"

definition has_corr :: "u32 \<Rightarrow> pending_lookup \<Rightarrow> bool" where
  "has_corr corr p = list_ex (\<lambda>(_, c, _). c = corr) (lk_in_flight (pl_lookup p))"

definition find_lookup :: "'t shard_env \<Rightarrow> u32 \<Rightarrow> 't shard_ctx \<Rightarrow> u32 option" where
  "find_lookup env corr ctx =
     find (\<lambda>i. case sx_lookups ctx i of Some p \<Rightarrow> has_corr corr p | None \<Rightarrow> False)
       (it_lookups env (sx_lookups ctx))"

text \<open>\<^verbatim>\<open>find_lookup_mut\<close> and what the caller does with the lookup it finds.\<close>

definition update_lookup ::
    "'t shard_env \<Rightarrow> u32 \<Rightarrow> (lookup \<Rightarrow> lookup) \<Rightarrow> 't shard_ctx \<Rightarrow> 't shard_ctx" where
  "update_lookup env corr f ctx =
     (case find_lookup env corr ctx of
        None \<Rightarrow> ctx
      | Some i \<Rightarrow> ctx\<lparr>sx_lookups := (sx_lookups ctx)(i :=
           map_option (\<lambda>p. p\<lparr>pl_lookup := f (pl_lookup p)\<rparr>) (sx_lookups ctx i))\<rparr>)"

definition sweep_one :: "'t shard_env \<Rightarrow> 't shard_ctx \<Rightarrow> u32 \<Rightarrow> 't shard_ctx" where
  "sweep_one env ctx i =
     (case sx_lookups ctx i of
        None \<Rightarrow> ctx
      | Some pend \<Rightarrow>
          let ctx1 = ctx\<lparr>sx_lookups := (sx_lookups ctx)(i := None)\<rparr>;
              (l, ctx2) = dispatch_lookup_batch env (pl_lookup pend) ctx1
          in if lk_done l
             then finish_lookup (lk_kind l) l (pl_reply pend)
                    (if lk_found_record l \<noteq> None
                     then bump (\<lambda>m. m\<lparr>m_lookup_ok := metric_incr (m_lookup_ok m)\<rparr>) ctx2 else ctx2)
             else ctx2\<lparr>sx_lookups := (sx_lookups ctx2)(i \<mapsto> pend\<lparr>pl_lookup := l\<rparr>)\<rparr>)"

definition sweep_lookups :: "'t shard_env \<Rightarrow> 't shard_ctx \<Rightarrow> 't shard_ctx" where
  "sweep_lookups env ctx = foldl (sweep_one env) ctx (it_lookups env (sx_lookups ctx))"

definition complete_closer ::
    "'t shard_env \<Rightarrow> u32 \<Rightarrow> socket_addr \<Rightarrow> peer_info list \<Rightarrow> 't shard_ctx \<Rightarrow> 't shard_ctx" where
  "complete_closer env corr src peers ctx =
     (let who = (case find (\<lambda>e. primary_addr (pe_info e) = Some src) (all_peers (sx_table ctx)) of
            Some e \<Rightarrow> pe_id e | None \<Rightarrow> NodeId (replicate 32 0))
      in sweep_lookups env (update_lookup env corr (on_closer who peers 50000) ctx))"


section \<open>Hole punching\<close>

definition send_punch_msg ::
    "'t shard_env \<Rightarrow> socket_addr \<Rightarrow> node_id \<Rightarrow> socket_addr list \<Rightarrow> 't shard_ctx \<Rightarrow> 't shard_ctx" where
  "send_punch_msg env hop target cands ctx =
     (let (corr, ctx1) = next_corr ctx
      in snd (send_message (pb_punch env) (header_request Punch Control corr)
           \<lparr>pu_target_id = nid target, pu_from_id = nid (self_id env ctx1),
            pu_candidates = encode_addrs (en_text env) cands\<rparr>
           (send_plain env hop) ctx1))"

definition burst_punch :: "'t shard_env \<Rightarrow> node_id \<Rightarrow> 't shard_ctx \<Rightarrow> 't shard_ctx" where
  "burst_punch env i ctx =
     (case sx_punches ctx i of
        None \<Rightarrow> ctx
      | Some p \<Rightarrow>
          let ctx1 = foldl (\<lambda>ctx dest. ping env dest ctx) ctx (pa_candidates p);
              ctx2 = (case sx_punches ctx1 i of
                  None \<Rightarrow> ctx1
                | Some q \<Rightarrow> ctx1\<lparr>sx_punches := (sx_punches ctx1)(i \<mapsto>
                     q\<lparr>pa_bursts_done := sat_add (pa_bursts_done q) 1,
                       pa_next_burst := punch_deadlines (sx_now ctx1) ! 0\<rparr>)\<rparr>)
          in bump (\<lambda>m. m\<lparr>m_punch_ok := metric_incr (m_punch_ok m)\<rparr>) ctx2)"

text \<open>A new attempt, with the windows that \<^verbatim>\<open>punch_deadlines\<close> gives.\<close>

definition punch_attempt_new :: "instant \<Rightarrow> node_id \<Rightarrow> socket_addr list \<Rightarrow> socket_addr \<Rightarrow> punch_attempt" where
  "punch_attempt_new now i cands rendezvous =
     \<lparr>pa_peer = i, pa_candidates = cands, pa_rendezvous = rendezvous, pa_bursts_done = 0,
      pa_next_burst = now, pa_relay_at = punch_deadlines now ! 1 + millis 250, pa_replied = False\<rparr>"

definition endpoint_fresh :: "node_id \<Rightarrow> 't shard_ctx \<Rightarrow> bool" where
  "endpoint_fresh i ctx = (case sx_endpoints ctx i of Some e \<Rightarrow> hint_fresh (sx_now ctx) e | None \<Rightarrow> False)"

definition start_punch :: "'t shard_env \<Rightarrow> socket_addr \<Rightarrow> 't shard_ctx \<Rightarrow> peer_info \<Rightarrow> 't shard_ctx" where
  "start_punch env rendezvous ctx peer =
     (if pi_id peer = self_id env ctx then ctx
      else if endpoint_fresh (pi_id peer) ctx then ctx
      else if sx_punches ctx (pi_id peer) \<noteq> None \<or> sx_via_relay ctx (pi_id peer) \<noteq> None then ctx
      else if pi_addrs peer = [] then ctx
      else let ctx1 = ctx\<lparr>sx_punches := (sx_punches ctx)(pi_id peer \<mapsto>
                  punch_attempt_new (sx_now ctx) (pi_id peer) (pi_addrs peer) rendezvous)\<rparr>;
               ctx2 = send_punch_msg env rendezvous (pi_id peer) (our_candidates ctx1) ctx1;
               ctx3 = burst_punch env (pi_id peer) ctx2
           in schedule_at (punch_deadlines (sx_now ctx) ! 0) PunchTimer ctx3)"

text \<open>\<^verbatim>\<open>on_punch\<close> when this node is the target, with the decoded candidates.\<close>

definition punch_us ::
    "'t shard_env \<Rightarrow> socket_addr \<Rightarrow> node_id \<Rightarrow> socket_addr list \<Rightarrow> 't shard_ctx \<Rightarrow> 't shard_ctx" where
  "punch_us env src who cands ctx =
     (let info = foldl push_addr (case rt_get (sx_table ctx) who of Some e \<Rightarrow> pe_info e
                                  | None \<Rightarrow> peer_info_new who (hd cands)) cands;
          ctx1 = table_insert info ctx;
          attempt = (case sx_punches ctx1 who of Some a \<Rightarrow> a
                     | None \<Rightarrow> punch_attempt_new (sx_now ctx1) who cands src);
          ctx2 = ctx1\<lparr>sx_punches := (sx_punches ctx1)(who \<mapsto>
                    attempt\<lparr>pa_candidates := cands, pa_rendezvous := src, pa_replied := True\<rparr>)\<rparr>;
          ctx3 = (if pa_replied attempt then ctx2 else send_punch_msg env src who (our_candidates ctx2) ctx2);
          ctx4 = burst_punch env who ctx3
      in schedule_at (punch_deadlines (sx_now ctx1) ! 0) PunchTimer ctx4)"

definition on_punch :: "'t shard_env \<Rightarrow> socket_addr \<Rightarrow> bytes \<Rightarrow> 't shard_ctx \<Rightarrow> 't shard_ctx" where
  "on_punch env src pkt ctx =
     (case decode_body (pb_punch env) pkt of None \<Rightarrow> ctx
      | Some p \<Rightarrow> (case node_id_from_bytes (pu_target_id p) of None \<Rightarrow> ctx
      | Some target \<Rightarrow> (case node_id_from_bytes (pu_from_id p) of None \<Rightarrow> ctx
      | Some who \<Rightarrow>
          if target = self_id env ctx
          then let cands = List.map_filter (\<lambda>a. parse_multiaddr (en_text env) (multiaddr a)) (pu_candidates p)
               in if cands = [] then ctx else punch_us env src who cands ctx
          else (case Option.bind (rt_get (sx_table ctx) target) (\<lambda>e. primary_addr (pe_info e)) of
                  None \<Rightarrow> ctx
                | Some dest \<Rightarrow>
                    let (corr, ctx1) = next_corr ctx
                    in snd (send_message (pb_punch env) (header_request Punch Control corr) p
                         (\<lambda>bs c. count_relay bs (send_plain env dest bs c)) ctx1)))))"

text \<open>The body of the loop of \<^verbatim>\<open>on_punch_timer\<close>: the flag says whether the timer is set again.\<close>

definition punch_timer_one ::
    "'t shard_env \<Rightarrow> bool \<times> 't shard_ctx \<Rightarrow> node_id \<Rightarrow> bool \<times> 't shard_ctx" where
  "punch_timer_one env s i =
     (let (again, ctx) = s
      in if endpoint_fresh i ctx
         then (again, ctx\<lparr>sx_punches := (sx_punches ctx)(i := None),
                          sx_via_relay := (sx_via_relay ctx)(i := None)\<rparr>)
         else case sx_punches ctx i of
             None \<Rightarrow> (again, ctx)
           | Some p \<Rightarrow>
               let burst = pa_bursts_done p < 2 \<and> pa_next_burst p \<le> sx_now ctx;
                   ctx1 = (if burst then burst_punch env i ctx else ctx);
                   again1 = (again \<or> burst)
               in case sx_punches ctx1 i of
                    None \<Rightarrow> (again1, ctx1)
                  | Some q \<Rightarrow>
                      if pa_bursts_done q \<ge> 2 \<and> pa_relay_at q \<le> sx_now ctx1
                      then let ctx2 = ctx1\<lparr>sx_punches := (sx_punches ctx1)(i := None)\<rparr>
                           in (again1, if rs_enabled (sx_relay ctx2) \<or> rt_get (sx_table ctx2) i \<noteq> None
                                then ctx2\<lparr>sx_via_relay := (sx_via_relay ctx2)(i \<mapsto> pa_rendezvous q)\<rparr>
                                else ctx2)
                      else (True, ctx1))"

definition on_punch_timer :: "'t shard_env \<Rightarrow> 't shard_ctx \<Rightarrow> 't shard_ctx" where
  "on_punch_timer env ctx =
     (let (again, ctx1) = foldl (punch_timer_one env) (False, ctx) (it_punches env (sx_punches ctx))
      in if again then schedule_at (sx_now ctx1 + millis 250) PunchTimer ctx1 else ctx1)"

section \<open>Messages\<close>

definition on_ping :: "'t shard_env \<Rightarrow> socket_addr \<Rightarrow> header \<Rightarrow> bytes \<Rightarrow> 't shard_ctx \<Rightarrow> 't shard_ctx" where
  "on_ping env src h pkt ctx =
     (let (i, ctx1) = (case decode_body (pb_ping env) pkt of None \<Rightarrow> (None, ctx)
                       | Some p \<Rightarrow> note_peer_keys env src (ping_x25519 p) (ping_ed25519 p) (ping_binding_sig p) ctx);
          ctx2 = learn_addr env src i ctx1
      in snd (send_message (pb_pong env) (header_response Pong Control (h_correlation h))
           (intro_pong env src ctx2) (send_plain env src) ctx2))"

definition on_pong :: "'t shard_env \<Rightarrow> socket_addr \<Rightarrow> bytes \<Rightarrow> 't shard_ctx \<Rightarrow> 't shard_ctx" where
  "on_pong env src pkt ctx =
     (let pong = decode_body (pb_pong env) pkt;
          obs = Option.bind (Option.bind pong pong_observed) (\<lambda>a. parse_multiaddr (en_text env) (multiaddr a));
          ctx1 = (case obs of Some a \<Rightarrow> ctx\<lparr>sx_mapped := Some a\<rparr> | None \<Rightarrow> ctx);
          (i, ctx2) = (case pong of None \<Rightarrow> (None, ctx1)
                       | Some p \<Rightarrow> note_peer_keys env src (pong_x25519 p) (pong_ed25519 p) (pong_binding_sig p) ctx1);
          ctx3 = learn_addr env src i ctx2
      in case i of
           None \<Rightarrow> ctx3
         | Some j \<Rightarrow> ctx3\<lparr>sx_via_relay := (sx_via_relay ctx3)(j := None),
                          sx_punches := (sx_punches ctx3)(j := None)\<rparr>)"

definition on_negotiate :: "'t shard_env \<Rightarrow> socket_addr \<Rightarrow> header \<Rightarrow> 't shard_ctx \<Rightarrow> 't shard_ctx" where
  "on_negotiate env src h ctx =
     snd (send_message (pb_negotiate_resp env) (header_response NegotiateResp Control (h_correlation h))
       \<lparr>ng_agreed = Some default_capabilities\<rparr> (send_app env src None) ctx)"

definition on_find_node :: "'t shard_env \<Rightarrow> socket_addr \<Rightarrow> header \<Rightarrow> bytes \<Rightarrow> 't shard_ctx \<Rightarrow> 't shard_ctx" where
  "on_find_node env src h pkt ctx =
     (case decode_body (pb_find_node_req env) pkt of
        None \<Rightarrow> ctx
      | Some req \<Rightarrow>
          let target = (case key_from_bytes (fnq_target_id req) of Some k \<Rightarrow> k | None \<Rightarrow> Key (replicate 32 0));
              limit = min (max (unat (fnq_limit req)) 1) MAX_FIND_NODE_PEERS
          in reply_peers env src (h_correlation h) (closest (sx_table ctx) target limit) ctx)"

definition on_find_node_resp ::
    "'t shard_env \<Rightarrow> socket_addr \<Rightarrow> header \<Rightarrow> bytes \<Rightarrow> 't shard_ctx \<Rightarrow> 't shard_ctx" where
  "on_find_node_resp env src h pkt ctx =
     (case decode_body (pb_find_node_resp env) pkt of
        None \<Rightarrow> ctx
      | Some resp \<Rightarrow>
          let peers = peers_from_proto (en_text env) (fnr_peers resp);
              ctx1 = foldl (\<lambda>ctx p. start_punch env src (peers_upsert env p (table_insert p ctx)) p) ctx peers;
              ctx2 = learn_addr env src (case peers of [] \<Rightarrow> None | p # _ \<Rightarrow> Some (pi_id p)) ctx1
          in complete_closer env (h_correlation h) src peers ctx2)"

definition provider_to_proto :: "provider_entry \<Rightarrow> proto_provider" where
  "provider_to_proto e = \<lparr>prov_peer_id = nid (pv_peer_id e), prov_meta = pv_meta e\<rparr>"

text \<open>The body of the answer to \<^verbatim>\<open>FIND_VALUE\<close>.\<close>

definition find_value_body ::
    "'t shard_env \<Rightarrow> bool \<Rightarrow> key \<Rightarrow> u32 \<Rightarrow> 't shard_ctx \<Rightarrow> proto_find_value_resp" where
  "find_value_body env probe k limit ctx =
     (let closer = peers_to_proto (en_text env) (closest (sx_table ctx) k MAX_CLOSER_PEERS);
          prov = store_providers (sx_unix ctx) (sx_store ctx) k (min (unat limit) MAX_PROVIDERS_PER_CHUNK)
      in case (if probe then None else store_get (sx_unix ctx) (sx_store ctx) k) of
           Some r \<Rightarrow> \<lparr>fvr_result = Some (FvRecord (record_encode (pb_record env) r)), fvr_closer_peers = closer\<rparr>
         | None \<Rightarrow>
             if prov = [] then \<lparr>fvr_result = None, fvr_closer_peers = closer\<rparr>
             else \<lparr>fvr_result = Some (FvProviders (map provider_to_proto prov)), fvr_closer_peers = closer\<rparr>)"

definition on_find_value :: "'t shard_env \<Rightarrow> socket_addr \<Rightarrow> header \<Rightarrow> bytes \<Rightarrow> 't shard_ctx \<Rightarrow> 't shard_ctx" where
  "on_find_value env src h pkt ctx =
     (case decode_body (pb_find_value_req env) pkt of None \<Rightarrow> ctx
      | Some req \<Rightarrow> (case key_from_bytes (fvq_key req) of None \<Rightarrow> ctx
      | Some k \<Rightarrow>
          snd (send_message (pb_find_value_resp env)
            (header_response FindValueResp Coordination (h_correlation h))
            (find_value_body env (is_probe h) k (fvq_provider_limit req) ctx)
            (send_app env src None) ctx)))"

definition on_find_value_resp ::
    "'t shard_env \<Rightarrow> socket_addr \<Rightarrow> header \<Rightarrow> bytes \<Rightarrow> 't shard_ctx \<Rightarrow> 't shard_ctx" where
  "on_find_value_resp env src h pkt ctx =
     (case decode_body (pb_find_value_resp env) pkt of
        None \<Rightarrow> ctx
      | Some resp \<Rightarrow>
          let closer = peers_from_proto (en_text env) (fvr_closer_peers resp);
              zero = NodeId (replicate 32 0);
              ctx1 = foldl (\<lambda>ctx p. start_punch env src (table_insert p ctx) p) ctx closer;
              ctx2 =
                (case fvr_result resp of
                   Some (FvRecord bs) \<Rightarrow>
                     (case Option.bind (pb_decode (pb_record env) bs) (record_from_proto (sx_unix ctx1)) of
                        None \<Rightarrow> ctx1
                      | Some r \<Rightarrow>
                          if authentic (en_crypto env) r
                          then update_lookup env (h_correlation h) (on_record zero r)
                                 (if is_probe h then ctx1
                                  else ctx1\<lparr>sx_store := cache_hit (sx_unix ctx1) r (sx_store ctx1)\<rparr>)
                          else ctx1)
                 | Some (FvProviders ps) \<Rightarrow>
                     update_lookup env (h_correlation h)
                       (on_providers zero (List.map_filter
                          (\<lambda>x. map_option (\<lambda>i. (i, prov_meta x)) (node_id_from_bytes (prov_peer_id x))) ps) closer) ctx1
                 | None \<Rightarrow> complete_closer env (h_correlation h) src closer ctx1)
          in sweep_lookups env ctx2)"


text \<open>The strings of the errors of \<^verbatim>\<open>put_record\<close>.\<close>

fun store_error_text :: "store_error \<Rightarrow> string" where
  "store_error_text TooLarge = ''too large''"
| "store_error_text HashMismatch = ''hash mismatch''"
| "store_error_text BadSignature = ''bad signature''"
| "store_error_text StaleSequence = ''stale sequence''"
| "store_error_text BadTombstone = ''bad tombstone''"
| "store_error_text UnknownKind = ''unknown kind''"

text \<open>
  What a store request does to the state, with the code and the reason of the answer. The result
  of the cost stamp check is not used, as in the code.
\<close>

definition store_request ::
    "'t shard_env \<Rightarrow> bool \<Rightarrow> bytes \<Rightarrow> 't shard_ctx \<Rightarrow> (u32 \<times> string) \<times> 't shard_ctx" where
  "store_request env probe bs ctx =
     (case pb_decode (pb_record env) bs of
        None \<Rightarrow> ((STORE_CODE_INVALID, ''decode''), ctx)
      | Some pr \<Rightarrow>
          (case record_from_proto (sx_unix ctx) pr of
             None \<Rightarrow> ((STORE_CODE_INVALID, ''record''), ctx)
           | Some r \<Rightarrow>
               (case put_record (en_crypto env) (pb_record env) r probe (sx_store ctx) of
                  (Inr _, st) \<Rightarrow>
                    ((STORE_CODE_OK, ''''),
                     bump (\<lambda>m. m\<lparr>m_store_ok := metric_incr (m_store_ok m)\<rparr>) (ctx\<lparr>sx_store := st\<rparr>))
                | (Inl e, st) \<Rightarrow>
                    ((STORE_CODE_INVALID, store_error_text e),
                     bump (\<lambda>m. m\<lparr>m_store_reject := metric_incr (m_store_reject m)\<rparr>) (ctx\<lparr>sx_store := st\<rparr>)))))"

definition pre_handshake :: "socket_addr \<Rightarrow> 't shard_ctx \<Rightarrow> bool \<times> 't shard_ctx" where
  "pre_handshake src ctx =
     (let (ok, sy) = allow_pre_handshake (sx_now ctx) src (sx_sybil ctx) in (ok, ctx\<lparr>sx_sybil := sy\<rparr>))"

definition on_store :: "'t shard_env \<Rightarrow> socket_addr \<Rightarrow> header \<Rightarrow> bytes \<Rightarrow> 't shard_ctx \<Rightarrow> 't shard_ctx" where
  "on_store env src h pkt ctx =
     (case decode_body (pb_store_req env) pkt of
        None \<Rightarrow> ctx
      | Some req \<Rightarrow>
          let (ok, ctx1) = pre_handshake src ctx
          in if \<not> ok then send_error env src (h_correlation h) ERROR_RATE_LIMITED ''rate'' ctx1
             else let ((code, reason), ctx2) = store_request env (is_probe h) (sq_record req) ctx1
                  in snd (send_message (pb_store_resp env)
                       (header_response StoreResp Coordination (h_correlation h))
                       \<lparr>sp_code = code, sp_reason = reason\<rparr> (send_app env src None) ctx2))"

definition on_announce :: "'t shard_env \<Rightarrow> socket_addr \<Rightarrow> header \<Rightarrow> bytes \<Rightarrow> 't shard_ctx \<Rightarrow> 't shard_ctx" where
  "on_announce env src h pkt ctx =
     (case decode_body (pb_announce_req env) pkt of
        None \<Rightarrow> ctx
      | Some req \<Rightarrow>
          let (ok, ctx1) = pre_handshake src ctx
          in if \<not> ok then ctx1
             else case key_from_bytes (aq_key req) of
                 None \<Rightarrow> ctx1
               | Some k \<Rightarrow>
                   let ctx2 = (case aq_self_descriptor req of
                         None \<Rightarrow> ctx1
                       | Some p \<Rightarrow> (case node_id_from_bytes (prov_peer_id p) of
                             None \<Rightarrow> ctx1
                           | Some i \<Rightarrow> ctx1\<lparr>sx_store :=
                               announce_provider (sx_unix ctx1) k i (prov_meta p) (sx_store ctx1)\<rparr>))
                   in snd (send_message (pb_announce_resp env)
                        (header_response AnnounceProviderResp Coordination (h_correlation h))
                        \<lparr>ap_code = ANNOUNCE_CODE_OK, ap_reason = ''''\<rparr> (send_app env src None) ctx2))"

text \<open>
  \<^verbatim>\<open>on_relay\<close>: a frame for this node is unpacked and handled in turn (\<open>RelayDeliver\<close>, with the
  payload); any other one is forwarded or dropped.
\<close>

datatype 't relay_outcome = RelayDone "'t shard_ctx" | RelayDeliver bytes "'t shard_ctx"

definition relay_frame :: "'t shard_env \<Rightarrow> proto_relay \<Rightarrow> node_id \<Rightarrow> 't shard_ctx \<Rightarrow> 't shard_ctx" where
  "relay_frame env r dest ctx =
     (let (ok, rs) = relay_forward (length (rl_payload r)) False (sx_relay ctx);
          ctx1 = ctx\<lparr>sx_relay := rs\<rparr>
      in if \<not> ok then ctx1
         else case Option.bind (rt_get (sx_table ctx1) dest) (\<lambda>e. primary_addr (pe_info e)) of
             None \<Rightarrow> ctx1
           | Some hop \<Rightarrow>
               let (corr, ctx2) = next_corr ctx1
               in snd (send_message (pb_relay env) (header_request Relay Coordination corr) r
                    (\<lambda>bs c. count_relay bs (send_plain env hop bs c)) ctx2))"

definition on_relay :: "'t shard_env \<Rightarrow> socket_addr \<Rightarrow> bytes \<Rightarrow> 't shard_ctx \<Rightarrow> 't relay_outcome" where
  "on_relay env src pkt ctx =
     (case decode_body (pb_relay env) pkt of None \<Rightarrow> RelayDone ctx
      | Some r \<Rightarrow> (case node_id_from_bytes (rl_dest_id r) of None \<Rightarrow> RelayDone ctx
      | Some dest \<Rightarrow> (case node_id_from_bytes (rl_from_id r) of None \<Rightarrow> RelayDone ctx
      | Some who \<Rightarrow>
          if dest = self_id env ctx
          then RelayDeliver (rl_payload r) (ctx\<lparr>sx_via_relay := (sx_via_relay ctx)(who \<mapsto> src)\<rparr>)
          else RelayDone (relay_frame env r dest ctx))))"

text \<open>The messages that are handled without another call of \<^verbatim>\<open>handle_app\<close>.\<close>

definition handle_message ::
    "'t shard_env \<Rightarrow> socket_addr \<Rightarrow> header \<Rightarrow> bytes \<Rightarrow> bool \<Rightarrow> 't shard_ctx \<Rightarrow> 't shard_ctx" where
  "handle_message env src h pkt authenticated ctx =
     (case h_ty h of
        Ping \<Rightarrow> on_ping env src h pkt ctx
      | Pong \<Rightarrow> on_pong env src pkt ctx
      | NegotiateReq \<Rightarrow> on_negotiate env src h ctx
      | FindNodeReq \<Rightarrow> on_find_node env src h pkt ctx
      | FindNodeResp \<Rightarrow> on_find_node_resp env src h pkt ctx
      | FindValueReq \<Rightarrow> on_find_value env src h pkt ctx
      | FindValueResp \<Rightarrow> on_find_value_resp env src h pkt ctx
      | StoreReq \<Rightarrow> on_store env src h pkt ctx
      | AnnounceProviderReq \<Rightarrow> on_announce env src h pkt ctx
      | Punch \<Rightarrow> on_punch env src pkt ctx
      | ErrorMsg \<Rightarrow> ctx
      | _ \<Rightarrow> if \<not> is_response h \<and> authenticated
            then send_error env src (h_correlation h) ERROR_UNSUPPORTED ''type'' ctx else ctx)"

partial_function (option) handle_app ::
    "'t shard_env \<Rightarrow> socket_addr \<Rightarrow> bytes \<Rightarrow> bool \<Rightarrow> 't shard_ctx \<Rightarrow> 't shard_ctx option" where
  "handle_app env src pkt authenticated ctx =
     (case header_decode pkt of
        None \<Rightarrow> Some (bump (\<lambda>m. m\<lparr>m_drops_malformed := metric_incr (m_drops_malformed m)\<rparr>) ctx)
      | Some h \<Rightarrow>
          if h_ty h = Relay
          then (case on_relay env src pkt ctx of
                  RelayDone ctx1 \<Rightarrow> Some ctx1
                | RelayDeliver payload ctx1 \<Rightarrow> handle_app env src payload False ctx1)
          else Some (handle_message env src h pkt authenticated ctx))"

section \<open>Encrypted datagrams\<close>

text \<open>A call of \<^verbatim>\<open>decapsulate\<close> on a buffer of the pool.\<close>

definition wg_decap ::
    "'t shard_env \<Rightarrow> socket_addr \<Rightarrow> bytes \<Rightarrow> 't shard_ctx \<Rightarrow> decap \<times> vec_u8 \<times> 't shard_ctx" where
  "wg_decap env src pkt ctx =
     (let (scratch, pool1) = pool_take (sx_pool ctx);
          (r, wg1, bs) = decapsulate (en_tunn env) (en_crypto env) (it_sessions env (wg_sessions (sx_wg ctx)))
                           src pkt (vec_data scratch) (sx_wg ctx)
      in (r, scratch\<lparr>vec_data := bs\<rparr>, ctx\<lparr>sx_pool := pool1, sx_wg := wg1\<rparr>))"

definition recycle :: "vec_u8 \<Rightarrow> 't shard_ctx \<Rightarrow> 't shard_ctx" where
  "recycle buf ctx = ctx\<lparr>sx_pool := pool_recycle buf (sx_pool ctx)\<rparr>"

definition count_decap :: "'t shard_ctx \<Rightarrow> 't shard_ctx" where
  "count_decap = bump (\<lambda>m. m\<lparr>m_wg_decap_ok := metric_incr (m_wg_decap_ok m)\<rparr>)"

partial_function (option) drain_wg_session ::
    "'t shard_env \<Rightarrow> socket_addr \<Rightarrow> 't shard_ctx \<Rightarrow> 't shard_ctx option" where
  "drain_wg_session env src ctx =
     (case wg_decap env src [] ctx of
        (r, scratch, ctx1) \<Rightarrow>
          (case r of
             Network len \<Rightarrow>
               drain_wg_session env src
                 (recycle scratch (snd (io_send env (take len (vec_data scratch)) src ctx1)))
           | Plaintext len \<Rightarrow>
               Option.bind (handle_app env src (unwrap_rpc (take len (vec_data scratch))) True
                              (recycle scratch (count_decap ctx1)))
                 (drain_wg_session env src)
           | _ \<Rightarrow> Some (recycle scratch ctx1)))"

text \<open>The loop of \<^verbatim>\<open>flush_pending_wg\<close>: what could not be sent is left over.\<close>

fun flush_queue ::
    "'t shard_env \<Rightarrow> socket_addr \<Rightarrow> bytes \<Rightarrow> bytes list \<Rightarrow> 't shard_ctx \<Rightarrow> bytes list \<times> 't shard_ctx" where
  "flush_queue env dest pk [] ctx = ([], ctx)"
| "flush_queue env dest pk (app # queue) ctx =
     (let (out, pool1) = pool_take (sx_pool ctx);
          (r, wg1, bs) = encapsulate_to (en_tunn env) dest pk None (wrap_rpc app) (vec_data out) (sx_wg ctx);
          ctx1 = ctx\<lparr>sx_pool := pool1, sx_wg := wg1\<rparr>;
          out' = out\<lparr>vec_data := bs\<rparr>
      in case r of
           Some n \<Rightarrow>
             let ctx2 = snd (io_send env (take n bs) dest ctx1)
             in if is_initiation (take n bs) then (app # queue, recycle out' ctx2)
                else flush_queue env dest pk queue (recycle out' (count_tx ctx2))
         | None \<Rightarrow> (app # queue, recycle out' ctx1))"

definition flush_pending_wg :: "'t shard_env \<Rightarrow> socket_addr \<Rightarrow> 't shard_ctx \<Rightarrow> 't shard_ctx" where
  "flush_pending_wg env dest ctx =
     (case sx_pending_wg ctx dest of
        None \<Rightarrow> ctx
      | Some queue \<Rightarrow>
          let ctx1 = ctx\<lparr>sx_pending_wg := (sx_pending_wg ctx)(dest := None)\<rparr>
          in case sx_keys_by_addr ctx1 dest of
               None \<Rightarrow> foldl (\<lambda>c app. send_plain env dest app c) ctx1 queue
             | Some pk \<Rightarrow>
                 let (leftover, ctx2) = flush_queue env dest pk queue ctx1
                 in if leftover \<noteq> [] then pending_push dest leftover ctx2 else ctx2)"

definition handle_datagram ::
    "'t shard_env \<Rightarrow> socket_addr \<Rightarrow> bytes \<Rightarrow> 't shard_ctx \<Rightarrow> 't shard_ctx option" where
  "handle_datagram env src pkt ctx =
     (if looks_like_wg pkt
      then let (ok, ctx1) = pre_handshake src ctx
           in if \<not> ok
              then Some (bump (\<lambda>m. m\<lparr>m_drops_rate := metric_incr (m_drops_rate m)\<rparr>) ctx1)
              else (case wg_decap env src pkt ctx1 of
                      (r, scratch, ctx2) \<Rightarrow>
                        (case r of
                           Plaintext len \<Rightarrow>
                             Option.bind (handle_app env src (unwrap_rpc (take len (vec_data scratch))) True
                                            (recycle scratch (count_decap ctx2)))
                               (\<lambda>ctx3. map_option (flush_pending_wg env src) (drain_wg_session env src ctx3))
                         | Network len \<Rightarrow>
                             map_option (flush_pending_wg env src)
                               (drain_wg_session env src
                                 (recycle scratch (snd (io_send env (take len (vec_data scratch)) src ctx2))))
                         | Cookie c \<Rightarrow>
                             Some (recycle scratch (snd (io_send env c src
                               (bump (\<lambda>m. m\<lparr>m_cookies := metric_incr (m_cookies m)\<rparr>) ctx2))))
                         | Drop \<Rightarrow>
                             Some (recycle scratch
                               (bump (\<lambda>m. m\<lparr>m_wg_decap_fail := metric_incr (m_wg_decap_fail m)\<rparr>) ctx2))))
      else handle_app env src pkt False ctx)"


section \<open>Commands\<close>

text \<open>A number in decimal digits, as \<^verbatim>\<open>format!\<close> prints it.\<close>

fun decimal :: "nat \<Rightarrow> bytes" where
  "decimal n = (if n < 10 then [] else decimal (n div 10)) @ [of_nat (48 + n mod 10)]"

declare decimal.simps [simp del]

text \<open>The ASCII bytes of \<^verbatim>\<open>rs-10-4:\<close>.\<close>

definition erasure_meta :: "nat \<Rightarrow> bytes" where
  "erasure_meta n = [114, 115, 45, 49, 48, 45, 52, 58] @ decimal n"

definition cmd_put :: "'t shard_env \<Rightarrow> bytes \<Rightarrow> u64 \<Rightarrow> channel \<Rightarrow> 't shard_ctx \<Rightarrow> 't shard_ctx" where
  "cmd_put env value ttl ch ctx =
     (if should_erasure (length value) \<and> erasure_encode (en_rs env) value \<noteq> None
      then let k = hash_value (en_crypto env) value
           in send_reply ch (ReplyKey k) (ctx\<lparr>sx_store := announce_provider (sx_unix ctx) k (self_id env ctx)
                (erasure_meta (length value)) (sx_store ctx)\<rparr>)
      else case put_immutable_ttl (en_crypto env) (pb_record env) (sx_unix ctx) value ttl (sx_store ctx) of
          (Inr k, st) \<Rightarrow>
            send_reply ch (ReplyKey k) (replicate_store env value k ttl
              (bump (\<lambda>m. m\<lparr>m_store_ok := metric_incr (m_store_ok m)\<rparr>) (ctx\<lparr>sx_store := st\<rparr>)))
        | (Inl e, st) \<Rightarrow>
            send_reply ch (ReplyErr ''store failed'')
              (bump (\<lambda>m. m\<lparr>m_store_reject := metric_incr (m_store_reject m)\<rparr>) (ctx\<lparr>sx_store := st\<rparr>)))"

definition cmd_get :: "'t shard_env \<Rightarrow> key \<Rightarrow> channel \<Rightarrow> 't shard_ctx \<Rightarrow> 't shard_ctx" where
  "cmd_get env k ch ctx =
     (let ctx1 = bump (\<lambda>m. m\<lparr>m_lookups := metric_incr (m_lookups m)\<rparr>) ctx
      in case store_get (sx_unix ctx1) (sx_store ctx1) k of
           Some r \<Rightarrow> send_reply ch (ReplyRecord (Some r))
                      (bump (\<lambda>m. m\<lparr>m_lookup_ok := metric_incr (m_lookup_ok m)\<rparr>) ctx1)
         | None \<Rightarrow> start_lookup env FindValue k (Some ch) ctx1)"

definition cmd_put_mutable :: "'t shard_env \<Rightarrow> stored_record \<Rightarrow> channel \<Rightarrow> 't shard_ctx \<Rightarrow> 't shard_ctx" where
  "cmd_put_mutable env r ch ctx =
     (case put_record (en_crypto env) (pb_record env) r False (sx_store ctx) of
        (Inr _, st) \<Rightarrow>
          send_reply ch (ReplyKey (sr_key r)) (send_store_rpc env r
            (bump (\<lambda>m. m\<lparr>m_store_ok := metric_incr (m_store_ok m)\<rparr>) (ctx\<lparr>sx_store := st\<rparr>)))
      | (Inl e, st) \<Rightarrow>
          send_reply ch (ReplyErr ''mutable rejected'')
            (bump (\<lambda>m. m\<lparr>m_store_reject := metric_incr (m_store_reject m)\<rparr>) (ctx\<lparr>sx_store := st\<rparr>)))"

definition cmd_announce :: "'t shard_env \<Rightarrow> key \<Rightarrow> bytes \<Rightarrow> channel \<Rightarrow> 't shard_ctx \<Rightarrow> 't shard_ctx" where
  "cmd_announce env k meta ch ctx =
     send_reply ch ReplyOk (announce_rpc env k meta
       (ctx\<lparr>sx_store := announce_provider (sx_unix ctx) k (self_id env ctx) meta (sx_store ctx)\<rparr>))"

definition cmd_find_providers :: "'t shard_env \<Rightarrow> key \<Rightarrow> channel \<Rightarrow> 't shard_ctx \<Rightarrow> 't shard_ctx" where
  "cmd_find_providers env k ch ctx =
     (let found = store_providers (sx_unix ctx) (sx_store ctx) k MAX_PROVIDERS_PER_CHUNK
      in if found \<noteq> []
         then send_reply ch (ReplyProviders (map (\<lambda>e. (pv_peer_id e, pv_meta e)) found)) ctx
         else start_lookup env FindValue k (Some ch) ctx)"

definition cmd_inject_peer :: "'t shard_env \<Rightarrow> peer_info \<Rightarrow> 't shard_ctx \<Rightarrow> 't shard_ctx" where
  "cmd_inject_peer env info ctx =
     (let ctx1 = (case x25519 info of
            None \<Rightarrow> ctx
          | Some x \<Rightarrow>
              let c = wg_add_peer env x (Some (pi_id info)) (primary_addr info) ctx
              in case primary_addr info of
                   None \<Rightarrow> c
                 | Some addr \<Rightarrow> c\<lparr>sx_keys_by_addr := (sx_keys_by_addr c)(addr \<mapsto> x)\<rparr>)
      in peers_upsert env info (table_insert info ctx1))"

fun handle_cmd :: "'t shard_env \<Rightarrow> shard_cmd \<Rightarrow> 't shard_ctx \<Rightarrow> 't shard_ctx" where
  "handle_cmd env (CmdBootstrap seeds) ctx = foldl (\<lambda>c addr. ping env addr c) ctx seeds"
| "handle_cmd env (CmdInjectPeer info) ctx = cmd_inject_peer env info ctx"
| "handle_cmd env (CmdPut value ttl ch) ctx = cmd_put env value ttl ch ctx"
| "handle_cmd env (CmdGet k ch) ctx = cmd_get env k ch ctx"
| "handle_cmd env (CmdPutMutable r ch) ctx = cmd_put_mutable env r ch ctx"
| "handle_cmd env (CmdAnnounce k meta ch) ctx = cmd_announce env k meta ch ctx"
| "handle_cmd env (CmdFindProviders k ch) ctx = cmd_find_providers env k ch ctx"
| "handle_cmd env CmdShutdown ctx = ctx"

section \<open>Timers\<close>

text \<open>
  All keepalive packets are written into one buffer before the first of them is sent, as in the
  code: \<open>tick_keepalive\<close> returns their lengths and the buffer as the last session left it.
\<close>

definition wg_keepalive :: "'t shard_env \<Rightarrow> 't shard_ctx \<Rightarrow> 't shard_ctx" where
  "wg_keepalive env ctx =
     (let (out, pool1) = pool_take (sx_pool ctx);
          (pkts, wg1, bs) = tick_keepalive (en_tunn env) (it_sessions env (wg_sessions (sx_wg ctx)))
                              (vec_data out) (sx_wg ctx);
          ctx1 = ctx\<lparr>sx_pool := pool1, sx_wg := wg1\<rparr>
      in recycle (out\<lparr>vec_data := bs\<rparr>)
           (foldl (\<lambda>c (n, dest). snd (io_send env (take n bs) dest c)) ctx1 pkts))"

definition timer_keepalive :: "'t shard_env \<Rightarrow> 't shard_ctx \<Rightarrow> 't shard_ctx" where
  "timer_keepalive env ctx =
     (let addrs = List.map_filter (\<lambda>e. primary_addr (pe_info e)) (all_peers (sx_table ctx));
          ctx1 = foldl (\<lambda>c addr. ping env addr c) ctx addrs;
          ctx2 = (if cf_plaintext (sx_cfg ctx1) then ctx1 else wg_keepalive env ctx1)
      in schedule_at (sx_now ctx + KEEPALIVE) Keepalive ctx2)"

definition flush_stores :: "'t shard_env \<Rightarrow> 't shard_ctx \<Rightarrow> 't shard_ctx" where
  "flush_stores env ctx =
     (let (st, ps) = flush_wal (sx_store ctx) (sx_peers ctx);
          (ps', d) = ps_flush (en_crc env) ps (sx_disk ctx)
      in ctx\<lparr>sx_store := st, sx_peers := ps', sx_disk := d\<rparr>)"

text \<open>The first loop of the lookup tick: the timeouts of every pending lookup.\<close>

definition lookup_timeouts ::
    "instant \<Rightarrow> u32 list \<Rightarrow> (u32 \<rightharpoonup> pending_lookup) \<Rightarrow> node_id list \<times> (u32 \<rightharpoonup> pending_lookup)" where
  "lookup_timeouts now ids m =
     foldl (\<lambda>(timed, m) i. case m i of
         None \<Rightarrow> (timed, m)
       | Some p \<Rightarrow> (let (dead, l) = on_timeouts now (pl_lookup p)
                    in (timed @ dead, m(i \<mapsto> p\<lparr>pl_lookup := l\<rparr>)))) ([], m) ids"

definition penalize_peer :: "'t shard_ctx \<Rightarrow> node_id \<Rightarrow> 't shard_ctx" where
  "penalize_peer ctx i =
     ctx\<lparr>sx_table := mark_fail i (sx_table ctx), sx_sybil := penalize i (sx_sybil ctx)\<rparr>"

definition timer_lookup_tick :: "'t shard_env \<Rightarrow> 't shard_ctx \<Rightarrow> 't shard_ctx" where
  "timer_lookup_tick env ctx =
     (let (timed, m) = lookup_timeouts (sx_now ctx) (it_lookups env (sx_lookups ctx)) (sx_lookups ctx);
          ctx1 = foldl penalize_peer (ctx\<lparr>sx_lookups := m\<rparr>) timed
      in schedule_at (sx_now ctx + millis 50) LookupTick (sweep_lookups env ctx1))"

fun on_timer :: "'t shard_env \<Rightarrow> timer_kind \<Rightarrow> 't shard_ctx \<Rightarrow> 't shard_ctx" where
  "on_timer env Keepalive ctx = timer_keepalive env ctx"
| "on_timer env PeerstoreFlush ctx =
     schedule_at (sx_now ctx + millis 100) PeerstoreFlush (flush_stores env ctx)"
| "on_timer env Gc ctx =
     schedule_at (sx_now ctx + secs 30) Gc (ctx\<lparr>sx_store := store_gc (sx_unix ctx) (sx_store ctx)\<rparr>)"
| "on_timer env LookupTick ctx = timer_lookup_tick env ctx"
| "on_timer env PunchTimer ctx = on_punch_timer env ctx"

section \<open>The event loop\<close>

record clocks =
  ck_now :: instant
  ck_unix :: u64
  ck_unix_ms :: u64

definition set_clocks :: "clocks \<Rightarrow> 't shard_ctx \<Rightarrow> 't shard_ctx" where
  "set_clocks c ctx = ctx\<lparr>sx_now := ck_now c, sx_unix := ck_unix c, sx_unix_ms := ck_unix_ms c\<rparr>"

text \<open>The 32 receive buffers that the loop takes from the pool.\<close>

fun take_bufs :: "nat \<Rightarrow> buffer_pool \<Rightarrow> vec_u8 list \<times> buffer_pool" where
  "take_bufs 0 p = ([], p)"
| "take_bufs (Suc n) p = (let (b, p1) = pool_take p; (bs, p2) = take_bufs n p1 in (b # bs, p2))"

text \<open>
  The start of \<^verbatim>\<open>run_shard\<close>, for a socket bound to \<open>addr\<close> and the files \<open>d\<close> of the shard's
  directory: the receive buffers and the state.
\<close>

definition shard_new ::
    "'t shard_env \<Rightarrow> u32 \<Rightarrow> identity \<Rightarrow> node_config \<Rightarrow> socket_addr \<Rightarrow> disk \<Rightarrow> clocks \<Rightarrow> vec_u8 list \<times> 't shard_ctx" where
  "shard_new env i ident cfg addr d c =
     (let wg = (wg_new (en_crypto env) (wg_secret ident) (ucast i))\<lparr>wg_pow_bits := 0\<rparr>;
          (ps, d1) = (case cf_peerstore_dir cfg of
             Some dir \<Rightarrow> ps_open (en_crc env) (en_text env) dir d | None \<Rightarrow> (ps_memory, d));
          st = (case cf_peerstore_dir cfg of
             Some dir \<Rightarrow> store_open (en_crc env) (en_crypto env) (pb_record env) (ck_unix c) dir d1
           | None \<Rightarrow> store_new);
          (bufs, pool) = take_bufs 32 pool_new;
          wheel = schedule (ck_now c + millis 50) LookupTick (schedule (ck_now c + secs 30) Gc
             (schedule (ck_now c + millis 100) PeerstoreFlush
               (schedule (ck_now c + KEEPALIVE) Keepalive wheel_new)))
      in (bufs,
          \<lparr>sx_id = i, sx_identity = ident, sx_cfg = cfg, sx_local = addr, sx_pool = pool,
           sx_table = rt_new (identity_node_id (en_crypto env) ident), sx_store = st, sx_peers = ps,
           sx_disk = d1, sx_wg = wg, sx_sybil = sybil_new (en_crypto env),
           sx_relay = relay_new (cf_two_hop_relay cfg), sx_metrics = metrics_new,
           sx_lookups = Map.empty, sx_next_corr = 1, sx_endpoints = Map.empty, sx_timers = wheel,
           sx_keys_by_addr = Map.empty, sx_pending_wg = Map.empty, sx_mapped = None,
           sx_punches = Map.empty, sx_via_relay = Map.empty, sx_out = [], sx_replies = [],
           sx_now = ck_now c, sx_unix = ck_unix c, sx_unix_ms = ck_unix_ms c\<rparr>))"

definition receive :: "'t shard_env \<Rightarrow> 't shard_ctx \<Rightarrow> socket_addr \<times> bytes \<Rightarrow> 't shard_ctx option" where
  "receive env ctx d =
     handle_datagram env (fst d) (snd d)
       (bump (\<lambda>m. m\<lparr>m_rx_packets := metric_incr (m_rx_packets m),
                   m_rx_bytes := metric_add (m_rx_bytes m) (of_nat (length (snd d)))\<rparr>) ctx)"

fun receive_batch :: "'t shard_env \<Rightarrow> 't shard_ctx \<Rightarrow> (socket_addr \<times> bytes) list \<Rightarrow> 't shard_ctx option" where
  "receive_batch env ctx [] = Some ctx"
| "receive_batch env ctx (d # ds) = Option.bind (receive env ctx d) (\<lambda>ctx1. receive_batch env ctx1 ds)"

text \<open>The drained commands, up to a shutdown; the flag is the new value of \<^verbatim>\<open>running\<close>.\<close>

fun run_cmds :: "'t shard_env \<Rightarrow> shard_cmd list \<Rightarrow> 't shard_ctx \<Rightarrow> bool \<times> 't shard_ctx" where
  "run_cmds env [] ctx = (True, ctx)"
| "run_cmds env (cmd # cmds) ctx =
     (if cmd = CmdShutdown then (False, ctx) else run_cmds env cmds (handle_cmd env cmd ctx))"

definition run_timers :: "'t shard_env \<Rightarrow> 't shard_ctx \<Rightarrow> 't shard_ctx" where
  "run_timers env ctx =
     (let (kinds, wheel) = pop_due (sx_now ctx) (sx_timers ctx)
      in foldl (\<lambda>c kind. on_timer env kind c) (ctx\<lparr>sx_timers := wheel\<rparr>) kinds)"

text \<open>
  One turn of the loop: the clocks, the datagrams that the socket had ready, and the commands in
  the queue. The result has the new value of \<^verbatim>\<open>running\<close> and the rest of the queue.
\<close>

definition shard_turn ::
    "'t shard_env \<Rightarrow> clocks \<Rightarrow> (socket_addr \<times> bytes) list \<Rightarrow> shard_cmd list \<Rightarrow> 't shard_ctx
      \<Rightarrow> (bool \<times> shard_cmd list \<times> 't shard_ctx) option" where
  "shard_turn env c batch rx ctx =
     (case receive_batch env (set_clocks c ctx) batch of
        None \<Rightarrow> None
      | Some ctx1 \<Rightarrow>
          let (cmds, rx') = drain_cmds DRAIN_BATCH rx; (run, ctx2) = run_cmds env cmds ctx1
          in Some (run, rx', run_timers env ctx2))"

definition shard_stop :: "'t shard_env \<Rightarrow> vec_u8 list \<Rightarrow> 't shard_ctx \<Rightarrow> 't shard_ctx" where
  "shard_stop env bufs ctx = flush_stores env (foldl (\<lambda>c b. recycle b c) ctx bufs)"

definition owns_key :: "node_id \<Rightarrow> key \<Rightarrow> u32 \<Rightarrow> u32 \<Rightarrow> bool" where
  "owns_key i k shard shard_count = (shard_id i k shard_count = shard)"

section \<open>Runs\<close>

text \<open>
  The events of a shard one by one, each at its own time: a datagram, a command, a timer. A turn of
  the loop is a sequence of such events.
\<close>

datatype shard_event = EvDatagram socket_addr bytes | EvCommand shard_cmd | EvTimer timer_kind | EvTimers

fun shard_step :: "'t shard_env \<Rightarrow> 't shard_ctx \<Rightarrow> clocks \<times> shard_event \<Rightarrow> 't shard_ctx option" where
  "shard_step env ctx (c, EvDatagram src pkt) = receive env (set_clocks c ctx) (src, pkt)"
| "shard_step env ctx (c, EvCommand cmd) = Some (handle_cmd env cmd (set_clocks c ctx))"
| "shard_step env ctx (c, EvTimer kind) = Some (on_timer env kind (set_clocks c ctx))"
| "shard_step env ctx (c, EvTimers) = Some (run_timers env (set_clocks c ctx))"

fun shard_run :: "'t shard_env \<Rightarrow> 't shard_ctx \<Rightarrow> (clocks \<times> shard_event) list \<Rightarrow> 't shard_ctx option" where
  "shard_run env ctx [] = Some ctx"
| "shard_run env ctx (e # es) = Option.bind (shard_step env ctx e) (\<lambda>ctx1. shard_run env ctx1 es)"

end
