(* ===== verification/Shard_Inv.thy ===== *)
theory Shard_Inv
  imports Shard
begin

text \<open>
  What every handler of a shard keeps. The state changes only through a small number of updates;
  the locales below name them, level by level (sending, handling messages, lookups and commands),
  and show once that whatever is kept by these updates is kept by every handler, by every event,
  and along every run. The properties of a shard are interpretations of them.
\<close>

section \<open>Buffers\<close>

text \<open>A tunnel gets its buffer as a slice, whose length it cannot change.\<close>

definition tunn_len :: "'t tunn_ops \<Rightarrow> bool" where
  "tunn_len ops =
     ((\<forall>t ip d out. length (snd (snd (tn_decapsulate ops t ip d out))) = length out)
      \<and> (\<forall>t p out. length (snd (snd (tn_encapsulate ops t p out))) = length out)
      \<and> (\<forall>t out. length (snd (snd (tn_update_timers ops t out))) = length out))"

lemma encapsulate_to_len:
  assumes "tunn_len ops" "encapsulate_to ops dest x i p out w = (r, w', bs)"
  shows "length bs = length out"
proof -
  have "length bs' = length out" if "tn_encapsulate ops t p out = (r', t', bs')" for r' t t' bs'
    using assms(1) that unfolding tunn_len_def by (metis snd_conv)
  then show ?thesis
    using assms(2) by (auto simp: encapsulate_to_def Let_def split: option.splits prod.splits)
qed

lemma drive_decap_len: "tunn_len ops \<Longrightarrow> drive_decap ops t ip d out = (r, t', bs) \<Longrightarrow> length bs = length out"
  unfolding tunn_len_def drive_decap_def by (auto split: prod.splits) (metis snd_conv)

lemma drain_loop_len:
  "tunn_len ops \<Longrightarrow> drain_loop ops src keys out w = (r, w', bs) \<Longrightarrow> length bs = length out"
proof (induction keys arbitrary: out w)
  case Nil
  then show ?case by simp
next
  case (Cons k keys)
  then show ?case
    by (auto simp: Let_def split: option.splits prod.splits if_splits dest: drive_decap_len)
qed

lemma try_sessions_len:
  "tunn_len ops \<Longrightarrow> try_sessions ops src d keys out w = (r, w', bs) \<Longrightarrow> length bs = length out"
proof (induction keys arbitrary: out w)
  case Nil
  then show ?case by simp
next
  case (Cons k keys)
  then show ?case
    by (auto simp: Let_def split: option.splits prod.splits if_splits dest: drive_decap_len)
qed

lemma decapsulate_len:
  assumes "tunn_len ops" "decapsulate ops c keys src d out w = (r, w', bs)" "\<And>x. r \<noteq> Cookie x"
  shows "length bs = length out"
  using assms
  by (auto simp: decapsulate_def Let_def split: option.splits prod.splits if_splits
      dest: drive_decap_len drain_loop_len try_sessions_len)

lemma drive_decap_no_cookie: "drive_decap ops t ip d out = (r, t', bs) \<Longrightarrow> r \<noteq> Cookie x"
  by (auto simp: drive_decap_def split: prod.splits tunn_result.splits)

lemma drain_loop_no_cookie: "drain_loop ops src keys out w = (r, w', bs) \<Longrightarrow> r \<noteq> Cookie x"
proof (induction keys arbitrary: out w)
  case Nil
  then show ?case by auto
next
  case (Cons k keys)
  then show ?case
    by (auto simp: Let_def split: option.splits prod.splits if_splits dest: drive_decap_no_cookie)
qed

lemma try_sessions_no_cookie: "try_sessions ops src d keys out w = (r, w', bs) \<Longrightarrow> r \<noteq> Cookie x"
proof (induction keys arbitrary: out w)
  case Nil
  then show ?case by auto
next
  case (Cons k keys)
  then show ?case
    by (auto simp: Let_def split: option.splits prod.splits if_splits dest: drive_decap_no_cookie)
qed

lemma decapsulate_cookie: "decapsulate ops c keys src d out w = (Cookie x, w', bs) \<Longrightarrow> length x \<le> 17"
  by (auto simp: decapsulate_def cookie_reply_def Let_def split: option.splits prod.splits if_splits
      dest: drive_decap_no_cookie drain_loop_no_cookie try_sessions_no_cookie)

lemma tick_keepalive_len:
  "tunn_len ops \<Longrightarrow> tick_keepalive ops keys out w = (pkts, w', bs) \<Longrightarrow> length bs = length out"
proof (induction keys arbitrary: out w pkts w' bs)
  case Nil
  then show ?case by simp
next
  case (Cons k keys)
  have "length b = length out" if "tn_update_timers ops t out = (r, t', b)" for t r t' b
    using Cons.prems(1) that unfolding tunn_len_def by (metis snd_conv)
  with Cons show ?case
    by (auto split: option.splits prod.splits)
qed

lemma pool_take_len: "pool_take p = (buf, p') \<Longrightarrow> length (vec_data buf) = BUFFER_SIZE"
  by (auto simp: pool_take_def vec_resize_def vec_clear_def vec_zeroed_def split: if_splits)

lemma encode_message_len: "encode_message c h body out = (Some n, bs) \<Longrightarrow> length (take n bs) \<le> PMTU_FLOOR"
  by (auto simp: encode_message_def header_encode_def Let_def split: if_splits prod.splits option.splits)


section \<open>Sending\<close>

text \<open>
  What fits into a buffer, as long as the tunnel keeps to the buffer it was given. \<open>D\<close> is what is
  required of a datagram that goes out, \<open>A\<close> of a message that waits for a session.
\<close>

definition fits :: "'t shard_env \<Rightarrow> bytes \<Rightarrow> bool" where
  "fits env bs = (tunn_len (en_tunn env) \<longrightarrow> length bs \<le> BUFFER_SIZE)"

lemma foldl_keeps:
  "P a \<Longrightarrow> (\<And>a x. P a \<Longrightarrow> x \<in> set xs \<Longrightarrow> P (f a x)) \<Longrightarrow> P (foldl f a xs)"
  by (induction xs arbitrary: a) auto

locale ctx_send =
  fixes env :: "'t shard_env"
    and D :: "bytes \<Rightarrow> bool"
    and A :: "bytes \<Rightarrow> bool"
    and I :: "'t shard_ctx \<Rightarrow> bool"
  assumes size: "fits env bs \<Longrightarrow> D bs"
    and small: "length app \<le> PMTU_FLOOR \<Longrightarrow> A app"
    and plain: "A app \<Longrightarrow> D app"
    and take_buf: "I ctx \<Longrightarrow> I (ctx\<lparr>sx_pool := snd (pool_take (sx_pool ctx))\<rparr>)"
    and give_buf: "I ctx \<Longrightarrow> I (ctx\<lparr>sx_pool := pool_recycle b (sx_pool ctx)\<rparr>)"
    and metrics: "I ctx \<Longrightarrow> I (ctx\<lparr>sx_metrics := m\<rparr>)"
    and corr: "I ctx \<Longrightarrow> I (ctx\<lparr>sx_next_corr := n\<rparr>)"
    and out: "I ctx \<Longrightarrow> D bs \<Longrightarrow> I (ctx\<lparr>sx_out := sx_out ctx @ [(dest, bs)]\<rparr>)"
    and relay: "I ctx \<Longrightarrow> I (ctx\<lparr>sx_relay := relay_step (sx_relay ctx) re\<rparr>)"
    and wg: "I ctx \<Longrightarrow> I (ctx\<lparr>sx_wg := wg_step (en_tunn env) (en_crypto env) (sx_wg ctx) we\<rparr>)"
    and pending: "I ctx \<Longrightarrow> list_all A apps \<Longrightarrow> I (pending_push dest apps ctx)"
begin

lemma bump_inv: "I ctx \<Longrightarrow> I (bump f ctx)"
  by (simp add: bump_def metrics)

lemma count_inv: "I ctx \<Longrightarrow> I (count_tx ctx)" "I ctx \<Longrightarrow> I (count_relay bs ctx)" "I ctx \<Longrightarrow> I (count_decap ctx)"
  by (simp_all add: count_tx_def count_relay_def count_decap_def bump_inv)

lemma next_corr_inv: "I ctx \<Longrightarrow> I (snd (next_corr ctx))"
  by (simp add: next_corr_def Let_def corr)

lemma recycle_inv: "I ctx \<Longrightarrow> I (recycle b ctx)"
  by (simp add: recycle_def give_buf)

lemma io_send_inv: "I ctx \<Longrightarrow> D bs \<Longrightarrow> I (snd (io_send env bs dest ctx))"
  by (simp add: io_send_def out)

lemma send_plain_inv: "I ctx \<Longrightarrow> D bs \<Longrightarrow> I (send_plain env dest bs ctx)"
  using io_send_inv [of ctx bs dest] by (auto simp: send_plain_def Let_def intro: bump_inv split: prod.splits)

lemma pmtu_buffer: "length bs \<le> PMTU_FLOOR \<Longrightarrow> D bs"
  by (rule size) (simp add: fits_def PMTU_FLOOR_def BUFFER_SIZE_def)

lemma fits_take: "fits env bs \<Longrightarrow> D (take n bs)"
  by (rule size) (auto simp: fits_def)

lemma send_message_inv:
  assumes "I ctx" and send: "\<And>bs c. I c \<Longrightarrow> length bs \<le> PMTU_FLOOR \<Longrightarrow> I (send bs c)"
  shows "I (snd (send_message c h body send ctx))"
proof -
  obtain buf p where p: "pool_take (sx_pool ctx) = (buf, p)" by (cases "pool_take (sx_pool ctx)")
  obtain n bs where e: "encode_message c h body (vec_data buf) = (n, bs)"
    by (cases "encode_message c h body (vec_data buf)")
  have "I (ctx\<lparr>sx_pool := p\<rparr>)"
    using take_buf [OF assms(1)] p by simp
  then have "I (case n of Some len \<Rightarrow> send (take len bs) (ctx\<lparr>sx_pool := p\<rparr>) | None \<Rightarrow> ctx\<lparr>sx_pool := p\<rparr>)"
    using e by (auto split: option.splits intro: send encode_message_len)
  then show ?thesis
    by (simp add: send_message_def p e give_buf Let_def)
qed

lemma send_relay_frame_inv: "I ctx \<Longrightarrow> I (send_relay_frame env hop dest app ctx)"
  using next_corr_inv [of ctx]
  by (auto simp: send_relay_frame_def Let_def split: prod.splits
      intro!: send_message_inv count_inv send_plain_inv pmtu_buffer)

lemma encapsulate_step:
  assumes "I ctx" "fits env out" "encapsulate_to (en_tunn env) dest pk i p out (sx_wg ctx) = (r, w, bs)"
  shows "I (ctx\<lparr>sx_wg := w\<rparr>)" "fits env bs"
  using wg [OF assms(1), of "WgEncapTo dest pk i p out"] assms encapsulate_to_len [OF _ assms(3)]
  by (simp_all add: fits_def)

lemma fits_buffer: "pool_take p = (buf, p') \<Longrightarrow> fits env (vec_data buf)"
  by (simp add: fits_def pool_take_len)

lemma send_wg_inv:
  assumes "I ctx" "length app \<le> PMTU_FLOOR"
  shows "I (send_wg env dest pk app ctx)"
proof -
  obtain buf p where p: "pool_take (sx_pool ctx) = (buf, p)" by (cases "pool_take (sx_pool ctx)")
  let ?c0 = "ctx\<lparr>sx_pool := p\<rparr>"
  obtain r w bs where e: "encapsulate_to (en_tunn env) dest pk None (wrap_rpc app) (vec_data buf) (sx_wg ctx) = (r, w, bs)"
    by (cases "encapsulate_to (en_tunn env) dest pk None (wrap_rpc app) (vec_data buf) (sx_wg ctx)")
  let ?c1 = "ctx\<lparr>sx_pool := p, sx_wg := w\<rparr>"
  have "I ?c0"
    using take_buf [OF assms(1)] p by simp
  then have 1: "I ?c1" and len: "fits env bs"
    using encapsulate_step [of ?c0 "vec_data buf" dest pk None "wrap_rpc app" r w bs] e fits_buffer [OF p] by simp_all
  then have 2: "I (pending_push dest [app] ?c1)"
    using pending small [OF assms(2)] by simp
  show ?thesis
  proof (cases r)
    case (Some n)
    have "I (count_tx (snd (io_send env (take n bs) dest
        (if is_initiation (take n bs) then pending_push dest [app] ?c1 else ?c1))))"
      using 1 2 len by (auto intro!: count_inv io_send_inv fits_take)
    with Some show ?thesis
      by (simp add: send_wg_def p e Let_def give_buf)
  next
    case None
    let ?c2 = "pending_push dest [app] ?c1"
    obtain r2 w2 bs2 where e2: "encapsulate_to (en_tunn env) dest pk None [] bs (sx_wg ?c2) = (r2, w2, bs2)"
      by (cases "encapsulate_to (en_tunn env) dest pk None [] bs (sx_wg ?c2)")
    have "I (?c2\<lparr>sx_wg := w2\<rparr>)" "fits env bs2"
      using encapsulate_step [OF 2 len e2] by simp_all
    then have "I (case r2 of Some n \<Rightarrow> count_tx (snd (io_send env (take n bs2) dest (?c2\<lparr>sx_wg := w2\<rparr>)))
        | None \<Rightarrow> ?c2\<lparr>sx_wg := w2\<rparr>)"
      by (auto split: option.splits intro!: count_inv io_send_inv fits_take)
    with None e2 show ?thesis
      by (simp add: send_wg_def p e Let_def give_buf)
  qed
qed

lemma send_app_inv:
  assumes "I ctx"
  shows "I (send_app env dest x app ctx)"
proof -
  let ?c = "ctx\<lparr>sx_relay := (sx_relay ctx)\<lparr>rs_budget := on_egress (of_nat (length app)) (rs_budget (sx_relay ctx))\<rparr>\<rparr>"
  have c: "I ?c"
    using relay [OF assms, of "RlEgress (of_nat (length app))"] by simp
  have "I (send_plain env dest app ?c)" "I (send_wg env dest pk app ?c)" if "length app \<le> PMTU_FLOOR" for pk
    using c that by (auto intro: send_plain_inv send_wg_inv pmtu_buffer)
  then show ?thesis
    using assms unfolding send_app_def Let_def
    by (auto simp: send_relay_frame_inv split: option.splits)
qed

lemma request_inv:
  "I ctx \<Longrightarrow> I (snd (send_message c h body (send_app env dest x) ctx))"
  "I ctx \<Longrightarrow> I (snd (send_message c h body (send_plain env dest) ctx))"
  "I ctx \<Longrightarrow> I (snd (send_message c h body (\<lambda>bs c. count_relay bs (send_plain env dest bs c)) ctx))"
  by (auto intro!: send_message_inv send_app_inv send_plain_inv count_inv pmtu_buffer)

lemmas foldl_inv = foldl_keeps [where P = I]

lemma ping_inv: "I ctx \<Longrightarrow> I (ping env dest ctx)"
  using next_corr_inv [of ctx] by (auto simp: ping_def Let_def split: prod.splits intro: request_inv)

lemma send_store_rpc_inv: "I ctx \<Longrightarrow> I (send_store_rpc env r ctx)"
  unfolding send_store_rpc_def Let_def
  by (rule foldl_inv) (auto split: option.splits prod.splits intro!: request_inv dest: next_corr_inv)

lemma replicate_store_inv: "I ctx \<Longrightarrow> I (replicate_store env value k ttl ctx)"
  by (simp add: replicate_store_def send_store_rpc_inv)

lemma announce_rpc_inv: "I ctx \<Longrightarrow> I (announce_rpc env k meta ctx)"
  unfolding announce_rpc_def Let_def
  by (rule foldl_inv) (auto split: option.splits prod.splits intro!: request_inv dest: next_corr_inv)

lemma reply_peers_inv: "I ctx \<Longrightarrow> I (reply_peers env dest n peers ctx)"
  by (simp add: reply_peers_def request_inv)

lemma send_error_inv: "I ctx \<Longrightarrow> I (send_error env dest n code reason ctx)"
  by (simp add: send_error_def request_inv)

lemma send_probe_inv: "I ctx \<Longrightarrow> I (send_probe env dest x probe ctx)"
  using next_corr_inv [of ctx] by (auto simp: send_probe_def Let_def split: prod.splits intro: request_inv)

lemma send_punch_msg_inv: "I ctx \<Longrightarrow> I (send_punch_msg env hop target cands ctx)"
  using next_corr_inv [of ctx] by (auto simp: send_punch_msg_def Let_def split: prod.splits intro: request_inv)

lemma send_find_inv: "I ctx \<Longrightarrow> I (snd (send_find env l dest x n ctx))"
  by (auto simp: send_find_def split: lookup_kind.splits intro: request_inv)

lemma dispatch_one_inv: "I (snd s) \<Longrightarrow> I (snd (dispatch_one env s p))"
  using next_corr_inv [of "snd s"] send_find_inv [of "snd (next_corr (snd s))" "fst s"]
  by (auto simp: dispatch_one_def split_beta Let_def split: option.splits intro!: foldl_inv send_probe_inv)

lemma dispatch_batch_inv: "I ctx \<Longrightarrow> I (snd (dispatch_lookup_batch env l ctx))"
proof -
  have "I (snd s) \<Longrightarrow> I (snd (foldl (dispatch_one env) s ps))" for s ps
    by (induction ps arbitrary: s) (simp_all add: dispatch_one_inv)
  then show "I ctx \<Longrightarrow> I (snd (dispatch_lookup_batch env l ctx))"
    by (simp add: dispatch_lookup_batch_def split_beta)
qed

end


text \<open>
  The part of the state that sending does not change: \<open>settled\<close> blanks out the rest (\<open>w\<close> stands for
  the engine).
\<close>

definition settled :: "'t wg_engine \<Rightarrow> 't shard_ctx \<Rightarrow> 't shard_ctx" where
  "settled w ctx = ctx\<lparr>sx_pool := pool_new, sx_metrics := metrics_new, sx_next_corr := 0, sx_out := [],
     sx_relay := relay_new False, sx_wg := w, sx_pending_wg := Map.empty\<rparr>"

interpretation sent: ctx_send env "\<lambda>_. True" "\<lambda>_. True" "\<lambda>ctx. settled w ctx = c" for env w c
  by unfold_locales (simp_all add: settled_def pending_push_def)

lemma settled_fields:
  assumes "settled w a = settled w b"
  shows "sx_id a = sx_id b" "sx_identity a = sx_identity b" "sx_cfg a = sx_cfg b" "sx_local a = sx_local b"
    "sx_table a = sx_table b" "sx_store a = sx_store b" "sx_peers a = sx_peers b" "sx_disk a = sx_disk b"
    "sx_sybil a = sx_sybil b" "sx_lookups a = sx_lookups b" "sx_endpoints a = sx_endpoints b"
    "sx_timers a = sx_timers b" "sx_keys_by_addr a = sx_keys_by_addr b" "sx_mapped a = sx_mapped b"
    "sx_punches a = sx_punches b" "sx_via_relay a = sx_via_relay b" "sx_replies a = sx_replies b"
    "sx_now a = sx_now b" "sx_unix a = sx_unix b" "sx_unix_ms a = sx_unix_ms b"
  using assms by (cases a, cases b, simp add: settled_def)+

section \<open>Handling messages\<close>

text \<open>What the handlers change apart from the keys that are bound to addresses.\<close>

locale ctx_parts = ctx_send env D A I for env :: "'t shard_env" and D and A and I +
  assumes table: "I ctx \<Longrightarrow> not_evict op \<Longrightarrow> I (ctx\<lparr>sx_table := rt_step (sx_table ctx) op\<rparr>)"
    and peers: "I ctx \<Longrightarrow> I (ctx\<lparr>sx_peers := ps_upsert (en_text env) info (sx_peers ctx)\<rparr>)"
    and endpoints: "I ctx \<Longrightarrow> I (ctx\<lparr>sx_endpoints := ep\<rparr>)"
    and mapped: "I ctx \<Longrightarrow> I (ctx\<lparr>sx_mapped := ma\<rparr>)"
    and punches: "I ctx \<Longrightarrow> I (ctx\<lparr>sx_punches := pu\<rparr>)"
    and via_relay: "I ctx \<Longrightarrow> I (ctx\<lparr>sx_via_relay := vr\<rparr>)"
    and timers: "I ctx \<Longrightarrow> I (ctx\<lparr>sx_timers := schedule t kind (sx_timers ctx)\<rparr>)"
    and limiter: "I ctx \<Longrightarrow> I (ctx\<lparr>sx_sybil := snd (allow_pre_handshake now src (sx_sybil ctx))\<rparr>)"
    and rewards: "I ctx \<Longrightarrow> I (ctx\<lparr>sx_sybil := reward i (sx_sybil ctx)\<rparr>)"
    and penalties: "I ctx \<Longrightarrow> I (ctx\<lparr>sx_sybil := penalize i (sx_sybil ctx)\<rparr>)"
    and stores: "I ctx \<Longrightarrow> (\<And>now r. so = StCacheHit now r \<Longrightarrow> authentic (en_crypto env) r) \<Longrightarrow>
      I (ctx\<lparr>sx_store := store_step (en_crypto env) (pb_record env) (sx_store ctx) so\<rparr>)"
    and taken: "I ctx \<Longrightarrow> I (ctx\<lparr>sx_pending_wg := (sx_pending_wg ctx)(dest := None)\<rparr>)"
    and queued: "I ctx \<Longrightarrow> sx_pending_wg ctx dest = Some q \<Longrightarrow> list_all A q"
begin

lemma table_insert_inv: "I ctx \<Longrightarrow> I (table_insert info ctx)"
  using table [of ctx "RtInsert (sx_now ctx) info"] by (simp add: table_insert_def)

lemma touch_inv: "I ctx \<Longrightarrow> I (ctx\<lparr>sx_table := touch_ok now i us (sx_table ctx)\<rparr>)"
  using table [of ctx "RtTouch now i us"] by simp

lemma upsert_inv: "I ctx \<Longrightarrow> I (peers_upsert env info ctx)"
  by (simp add: peers_upsert_def peers)

lemma add_peer_inv: "I ctx \<Longrightarrow> I (wg_add_peer env x i a ctx)"
  using wg [of ctx "WgAdd x i a"] by (simp add: wg_add_peer_def)

lemma schedule_inv: "I ctx \<Longrightarrow> I (schedule_at t kind ctx)"
  by (simp add: schedule_at_def timers)

lemma announce_inv: "I ctx \<Longrightarrow> I (ctx\<lparr>sx_store := announce_provider now k i meta (sx_store ctx)\<rparr>)"
  using stores [of ctx "StAnnounce now k i meta"] by simp

lemma put_record_inv:
  "I ctx \<Longrightarrow> put_record (en_crypto env) (pb_record env) r probe (sx_store ctx) = (res, st) \<Longrightarrow> I (ctx\<lparr>sx_store := st\<rparr>)"
  using stores [of ctx "StPutRecord r probe"] by simp

lemma learn_addr_inv: "I ctx \<Longrightarrow> I (learn_addr env src known ctx)"
  unfolding learn_addr_def Let_def
  by (cases known; simp only: option.case; intro touch_inv rewards endpoints upsert_inv table_insert_inv)

lemma burst_punch_inv: "I ctx \<Longrightarrow> I (burst_punch env i ctx)"
proof -
  assume "I ctx"
  then have "I (foldl (\<lambda>c d. ping env d c) ctx ds)" for ds
    by (rule foldl_inv) (simp add: ping_inv)
  then show ?thesis
    using \<open>I ctx\<close> by (auto simp: burst_punch_def Let_def split: option.splits intro!: bump_inv punches)
qed

lemma start_punch_inv: "I ctx \<Longrightarrow> I (start_punch env rendezvous ctx peer)"
  by (auto simp: start_punch_def Let_def intro!: schedule_inv burst_punch_inv send_punch_msg_inv punches)

lemma punch_us_inv: "I ctx \<Longrightarrow> I (punch_us env src who cands ctx)"
  by (auto simp: punch_us_def Let_def intro!: schedule_inv burst_punch_inv send_punch_msg_inv punches table_insert_inv)

lemma on_punch_inv: "I ctx \<Longrightarrow> I (on_punch env src pkt ctx)"
  using next_corr_inv [of ctx]
  by (auto simp: on_punch_def Let_def punch_us_inv split_beta split: option.splits intro!: request_inv)

lemma punch_timer_one_inv: "I (snd s) \<Longrightarrow> I (snd (punch_timer_one env s i))"
  using burst_punch_inv [of "snd s" i]
  by (auto simp: punch_timer_one_def Let_def split_beta split: option.splits intro!: via_relay punches)

lemma on_punch_timer_inv: "I ctx \<Longrightarrow> I (on_punch_timer env ctx)"
proof -
  assume "I ctx"
  moreover have "I (snd s) \<Longrightarrow> I (snd (foldl (punch_timer_one env) s is))" for s "is"
    by (induction "is" arbitrary: s) (simp_all add: punch_timer_one_inv)
  ultimately show ?thesis
    by (simp add: on_punch_timer_def split_beta Let_def schedule_inv)
qed

lemma on_negotiate_inv: "I ctx \<Longrightarrow> I (on_negotiate env src h ctx)"
  by (simp add: on_negotiate_def request_inv)

lemma on_find_node_inv: "I ctx \<Longrightarrow> I (on_find_node env src h pkt ctx)"
  by (auto simp: on_find_node_def Let_def reply_peers_inv split: option.splits)

lemma on_find_value_inv: "I ctx \<Longrightarrow> I (on_find_value env src h pkt ctx)"
  by (auto simp: on_find_value_def request_inv split: option.splits)

lemma pre_handshake_inv: "I ctx \<Longrightarrow> I (snd (pre_handshake src ctx))"
  using limiter [of ctx "sx_now ctx" src] by (simp add: pre_handshake_def split_beta)

lemma store_request_inv: "I ctx \<Longrightarrow> I (snd (store_request env probe bs ctx))"
  by (auto simp: store_request_def split: option.splits prod.splits sum.splits intro!: bump_inv dest: put_record_inv)

lemma on_store_inv: "I ctx \<Longrightarrow> I (on_store env src h pkt ctx)"
  using pre_handshake_inv [of ctx src]
  by (auto simp: on_store_def Let_def split_beta send_error_inv split: option.splits intro!: request_inv store_request_inv)

lemma on_announce_inv: "I ctx \<Longrightarrow> I (on_announce env src h pkt ctx)"
  using pre_handshake_inv [of ctx src]
  by (auto simp: on_announce_def Let_def split_beta split: option.splits intro!: request_inv announce_inv)

lemma relay_frame_inv:
  assumes "I ctx"
  shows "I (relay_frame env r dest ctx)"
proof -
  have "I (ctx\<lparr>sx_relay := snd (relay_forward n False (sx_relay ctx))\<rparr>)" for n
    using relay [OF assms, of "RlForward n False"] by simp
  then show ?thesis
    unfolding relay_frame_def Let_def split_beta
    by (auto split: option.splits intro!: request_inv next_corr_inv)
qed

lemma on_relay_inv:
  assumes "I ctx"
  shows "case on_relay env src pkt ctx of RelayDone c \<Rightarrow> I c | RelayDeliver p c \<Rightarrow> I c"
  using assms by (auto simp: on_relay_def relay_frame_inv via_relay split: option.splits)

end


text \<open>\<open>K\<close> says which WireGuard keys may be bound to an address: at least the verified ones.\<close>

locale ctx_handle = ctx_parts env D A I for env :: "'t shard_env" and D and A and I +
  fixes K :: "bytes \<Rightarrow> bool"
  assumes verified: "verify_binding (en_crypto env) ed x sig \<Longrightarrow> length x = 32 \<Longrightarrow> K x"
    and keys: "I ctx \<Longrightarrow> K x \<Longrightarrow> I (ctx\<lparr>sx_keys_by_addr := (sx_keys_by_addr ctx)(src \<mapsto> x)\<rparr>)"
begin

lemma note_peer_keys_inv:
  assumes "I ctx"
  shows "I (snd (note_peer_keys env src x ed sig ctx))"
proof (cases "length x \<noteq> 32 \<or> length ed \<noteq> 32 \<or> sig = [] \<or> \<not> verify_binding (en_crypto env) ed x sig")
  case True
  with assms show ?thesis by (auto simp: note_peer_keys_def)
next
  case False
  then have "K x" using verified by auto
  with assms have "I (ctx\<lparr>sx_keys_by_addr := (sx_keys_by_addr ctx)(src \<mapsto> x)\<rparr>)"
    by (rule keys)
  with False show ?thesis
    by (simp add: note_peer_keys_def Let_def upsert_inv table_insert_inv add_peer_inv)
qed

lemma on_ping_inv: "I ctx \<Longrightarrow> I (on_ping env src h pkt ctx)"
  using note_peer_keys_inv [of ctx src]
  by (auto simp: on_ping_def Let_def split_beta split: option.splits intro!: request_inv learn_addr_inv)

lemma on_pong_inv: "I ctx \<Longrightarrow> I (on_pong env src pkt ctx)"
  unfolding on_pong_def Let_def split_beta
  by (auto split: option.splits intro!: via_relay punches learn_addr_inv note_peer_keys_inv mapped)

end


section \<open>Encrypted datagrams\<close>

context ctx_parts
begin

lemma wg_decap_inv:
  assumes "I ctx" "wg_decap env src pkt ctx = (r, scratch, ctx1)"
  shows "I ctx1"
    and "r = Network n \<Longrightarrow> D (take n (vec_data scratch))"
    and "r = Cookie c \<Longrightarrow> D c"
proof -
  obtain buf p where p: "pool_take (sx_pool ctx) = (buf, p)" by (cases "pool_take (sx_pool ctx)")
  let ?ks = "it_sessions env (wg_sessions (sx_wg ctx))"
  obtain r' w bs where d: "decapsulate (en_tunn env) (en_crypto env) ?ks src pkt (vec_data buf) (sx_wg ctx) = (r', w, bs)"
    by (cases "decapsulate (en_tunn env) (en_crypto env) ?ks src pkt (vec_data buf) (sx_wg ctx)")
  have res: "r' = r" "scratch = buf\<lparr>vec_data := bs\<rparr>" "ctx1 = ctx\<lparr>sx_pool := p, sx_wg := w\<rparr>"
    using assms(2) by (simp_all add: wg_decap_def p d)
  have "I (ctx\<lparr>sx_pool := p\<rparr>)"
    using take_buf [OF assms(1)] p by simp
  from wg [OF this, of "WgDecap ?ks src pkt (vec_data buf)"] show "I ctx1"
    using d res by simp
  show "D (take n (vec_data scratch))" if "r = Network n"
    using decapsulate_len [OF _ d] that res pool_take_len [OF p] by (intro fits_take) (simp add: fits_def)
  show "D c" if "r = Cookie c"
    using decapsulate_cookie [of _ _ _ _ _ _ _ c] d that res
    by (intro pmtu_buffer) (fastforce simp: PMTU_FLOOR_def)
qed

lemma flush_queue_inv:
  assumes "I ctx" "list_all A q"
  shows "I (snd (flush_queue env dest pk q ctx)) \<and> list_all A (fst (flush_queue env dest pk q ctx))"
  using assms
proof (induction q arbitrary: ctx)
  case Nil
  then show ?case by simp
next
  case (Cons app q)
  obtain buf p where p: "pool_take (sx_pool ctx) = (buf, p)" by (cases "pool_take (sx_pool ctx)")
  let ?c0 = "ctx\<lparr>sx_pool := p\<rparr>"
  obtain r w bs where e: "encapsulate_to (en_tunn env) dest pk None (wrap_rpc app) (vec_data buf) (sx_wg ctx) = (r, w, bs)"
    by (cases "encapsulate_to (en_tunn env) dest pk None (wrap_rpc app) (vec_data buf) (sx_wg ctx)")
  let ?c1 = "ctx\<lparr>sx_pool := p, sx_wg := w\<rparr>"
  have "I ?c0"
    using take_buf [OF Cons.prems(1)] p by simp
  then have c1: "I ?c1" and len: "fits env bs"
    using encapsulate_step [of ?c0 "vec_data buf" dest pk None "wrap_rpc app" r w bs] e fits_buffer [OF p] by simp_all
  have c2: "I (snd (io_send env (take n bs) dest ?c1))" for n
    using c1 len by (intro io_send_inv fits_take)
  show ?case
    using Cons.IH [OF recycle_inv [OF count_inv(1) [OF c2]]] Cons.prems(2) c1 c2
    by (auto simp: p e Let_def recycle_inv split: option.splits)
qed

lemma flush_pending_inv:
  assumes "I ctx"
  shows "I (flush_pending_wg env dest ctx)"
proof (cases "sx_pending_wg ctx dest")
  case None
  with assms show ?thesis by (simp add: flush_pending_wg_def)
next
  case (Some q)
  let ?c = "ctx\<lparr>sx_pending_wg := (sx_pending_wg ctx)(dest := None)\<rparr>"
  have c: "I ?c" using assms by (rule taken)
  have q: "list_all A q"
    using queued [OF assms Some] .
  then have "I (foldl (\<lambda>c app. send_plain env dest app c) ?c q)"
    using c by (intro foldl_inv) (auto simp: list_all_iff intro!: send_plain_inv plain)
  moreover have "I (snd (flush_queue env dest pk q ?c))"
      "list_all A (fst (flush_queue env dest pk q ?c))" for pk
    using flush_queue_inv [OF c q, of dest pk] by simp_all
  ultimately show ?thesis
    using c Some by (auto simp: flush_pending_wg_def Let_def split_beta split: option.splits intro!: pending)
qed

lemma wg_keepalive_inv:
  assumes "I ctx"
  shows "I (wg_keepalive env ctx)"
proof -
  obtain buf p where p: "pool_take (sx_pool ctx) = (buf, p)" by (cases "pool_take (sx_pool ctx)")
  let ?ks = "it_sessions env (wg_sessions (sx_wg ctx))"
  obtain pkts w bs where t: "tick_keepalive (en_tunn env) ?ks (vec_data buf) (sx_wg ctx) = (pkts, w, bs)"
    by (cases "tick_keepalive (en_tunn env) ?ks (vec_data buf) (sx_wg ctx)")
  have "I (ctx\<lparr>sx_pool := p\<rparr>)"
    using take_buf [OF assms] p by simp
  from wg [OF this, of "WgTick ?ks (vec_data buf)"] have "I (ctx\<lparr>sx_pool := p, sx_wg := w\<rparr>)"
    using t by simp
  moreover have "fits env bs"
    using tick_keepalive_len [OF _ t] pool_take_len [OF p] by (simp add: fits_def)
  ultimately have "I (foldl (\<lambda>c (n, dest). snd (io_send env (take n bs) dest c)) (ctx\<lparr>sx_pool := p, sx_wg := w\<rparr>) pkts)"
    by (intro foldl_inv) (auto intro!: io_send_inv fits_take)
  then show ?thesis
    by (simp add: wg_keepalive_def p t Let_def recycle_inv)
qed

lemma keepalive_inv:
  assumes "I ctx"
  shows "I (timer_keepalive env ctx)"
proof -
  have "I (foldl (\<lambda>c addr. ping env addr c) ctx addrs)" for addrs
    using assms by (rule foldl_inv) (simp add: ping_inv)
  then show ?thesis
    by (simp add: timer_keepalive_def Let_def schedule_inv wg_keepalive_inv)
qed

lemma penalize_inv:
  assumes "I ctx"
  shows "I (penalize_peer ctx i)"
  using penalties [OF table [OF assms, of "RtFail i"], of i] by (simp add: penalize_peer_def)

end

text \<open>
  The ways into the handlers of messages: relayed frames, sessions and datagrams, for an invariant
  that the handler of a single message keeps.
\<close>

locale ctx_drive = ctx_handle env D A I K for env :: "'t shard_env" and D and A and I and K +
  assumes message: "I ctx \<Longrightarrow> I (handle_message env src h pkt authenticated ctx)"
begin

lemma handle_app_inv:
  assumes "handle_app env src pkt authenticated ctx = Some ctx'" "I ctx"
  shows "I ctx'"
proof -
  have "e = env \<longrightarrow> I ctx \<longrightarrow> I ctx'" if "handle_app e src pkt authenticated ctx = Some ctx'" for e
    using that
  proof (rule handle_app.raw_induct [where P = "\<lambda>e src pkt a ctx ctx'. e = env \<longrightarrow> I ctx \<longrightarrow> I ctx'", rotated])
    fix f e src pkt a and ctx ctx' :: "'t shard_ctx"
    assume ih: "\<And>e src pkt a ctx ctx'. f e src pkt a ctx = Some ctx' \<Longrightarrow> e = env \<longrightarrow> I ctx \<longrightarrow> I ctx'"
      and eq: "(case header_decode pkt of
        None \<Rightarrow> Some (bump (\<lambda>m. m\<lparr>m_drops_malformed := metric_incr (m_drops_malformed m)\<rparr>) ctx)
      | Some h \<Rightarrow>
          if h_ty h = Relay
          then (case on_relay e src pkt ctx of
                  RelayDone ctx1 \<Rightarrow> Some ctx1
                | RelayDeliver payload ctx1 \<Rightarrow> f e src payload False ctx1)
          else Some (handle_message e src h pkt a ctx)) = Some ctx'"
    show "e = env \<longrightarrow> I ctx \<longrightarrow> I ctx'"
    proof (intro impI)
      assume e: "e = env" and i: "I ctx"
      show "I ctx'"
        using eq e ih on_relay_inv [OF i, of src pkt] bump_inv [OF i] message [OF i]
        by (auto split: option.splits if_splits relay_outcome.splits)
    qed
  qed
  with assms show ?thesis by simp
qed

lemma drain_inv:
  assumes "drain_wg_session env src ctx = Some ctx'" "I ctx"
  shows "I ctx'"
proof -
  have "e = env \<longrightarrow> I ctx \<longrightarrow> I ctx'" if "drain_wg_session e src ctx = Some ctx'" for e
    using that
  proof (rule drain_wg_session.raw_induct [where P = "\<lambda>e src ctx ctx'. e = env \<longrightarrow> I ctx \<longrightarrow> I ctx'", rotated])
    fix f e src and ctx ctx' :: "'t shard_ctx"
    assume ih: "\<And>e src ctx ctx'. f e src ctx = Some ctx' \<Longrightarrow> e = env \<longrightarrow> I ctx \<longrightarrow> I ctx'"
      and eq: "(case wg_decap e src [] ctx of
        (r, scratch, ctx1) \<Rightarrow>
          (case r of
             Plaintext len \<Rightarrow>
               Option.bind (handle_app e src (unwrap_rpc (take len (vec_data scratch))) True
                              (recycle scratch (count_decap ctx1)))
                 (f e src)
           | Network len \<Rightarrow>
               f e src (recycle scratch (snd (io_send e (take len (vec_data scratch)) src ctx1)))
           | _ \<Rightarrow> Some (recycle scratch ctx1))) = Some ctx'"
    show "e = env \<longrightarrow> I ctx \<longrightarrow> I ctx'"
    proof (intro impI)
      assume e: "e = env" and i: "I ctx"
      obtain r scratch ctx1 where w: "wg_decap env src [] ctx = (r, scratch, ctx1)"
        by (cases "wg_decap env src [] ctx")
      have 1: "I (recycle scratch ctx1)" "I (recycle scratch (count_decap ctx1))"
        using wg_decap_inv(1) [OF i w] by (simp_all add: recycle_inv count_inv)
      have 2: "I (recycle scratch (snd (io_send env (take n (vec_data scratch)) src ctx1)))" if "r = Network n" for n
        using wg_decap_inv [OF i w] that by (intro recycle_inv io_send_inv)
      show "I ctx'"
        using eq e w ih 1 2 handle_app_inv [OF _ 1(2)]
        by (auto split: decap.splits bind_splits)
    qed
  qed
  with assms show ?thesis by simp
qed

lemma handle_datagram_inv:
  assumes "handle_datagram env src pkt ctx = Some ctx'" "I ctx"
  shows "I ctx'"
proof (cases "looks_like_wg pkt")
  case False
  with assms show ?thesis by (simp add: handle_datagram_def handle_app_inv)
next
  case True
  obtain ok ctx1 where pre: "pre_handshake src ctx = (ok, ctx1)" by (cases "pre_handshake src ctx")
  have i1: "I ctx1" using pre_handshake_inv [OF assms(2), of src] pre by simp
  obtain r scratch ctx2 where w: "wg_decap env src pkt ctx1 = (r, scratch, ctx2)"
    by (cases "wg_decap env src pkt ctx1")
  note d = wg_decap_inv [OF i1 w]
  have 1: "I (recycle scratch (count_decap ctx2))"
    using d(1) by (simp add: recycle_inv count_inv)
  have 2: "I (recycle scratch (snd (io_send env (take n (vec_data scratch)) src ctx2)))" if "r = Network n" for n
    using d that by (intro recycle_inv io_send_inv)
  have 3: "I (recycle scratch (snd (io_send env c src (bump f ctx2))))" if "r = Cookie c" for c f
    using d that by (intro recycle_inv io_send_inv bump_inv)
  show ?thesis
    using assms(1) True pre w i1 d(1) 1 2 3 handle_app_inv [OF _ 1] drain_inv
    by (auto simp: handle_datagram_def Let_def bump_inv recycle_inv flush_pending_inv
        split: if_splits decap.splits bind_splits)
qed

lemma receive_inv: "receive env ctx d = Some ctx' \<Longrightarrow> I ctx \<Longrightarrow> I ctx'"
  by (auto simp: receive_def intro: handle_datagram_inv bump_inv)

lemma receive_batch_inv: "receive_batch env ctx ds = Some ctx' \<Longrightarrow> I ctx \<Longrightarrow> I ctx'"
  by (induction ds arbitrary: ctx) (auto split: bind_splits intro: receive_inv)

end

section \<open>Lookups, commands and runs\<close>

text \<open>
  What holds of a lookup whatever its seeds were (the routing table may offer a contact twice): the
  bounds on its parallelism, the order of its shortlist, and its budget.
\<close>

definition lookup_fine :: "lookup \<Rightarrow> bool" where
  "lookup_fine l =
     (ALPHA_MIN \<le> lk_alpha l \<and> lk_alpha l \<le> ALPHA_MAX \<and> length (lk_in_flight l) \<le> 8
      \<and> sorted (map (peer_rank (lk_target l)) (lk_shortlist l))
      \<and> lk_k l = K_DEFAULT \<and> lk_budget l = millis 1500)"

lemma lookup_fine_new: "lookup_fine (lookup_new now kind target seeds privacy)"
  by (simp add: lookup_fine_def lookup_new_def alpha_consts)

lemma lookup_fine_next: "lookup_fine l \<Longrightarrow> lookup_fine (snd (next_batch now l))"
  by (simp add: lookup_fine_def next_batch_def Let_def)

lemma lookup_fine_sent: "lookup_fine l \<Longrightarrow> lookup_fine (note_sent now i n l)"
  by (auto simp: lookup_fine_def note_sent_def try_push_def)

lemma lookup_fine_timeouts: "lookup_fine l \<Longrightarrow> lookup_fine (snd (on_timeouts now l))"
  by (auto simp: lookup_fine_def on_timeouts_def Let_def retry_once_simps alpha_consts intro: le_trans [OF length_filter_le])

lemma lookup_fine_closer: "lookup_fine l \<Longrightarrow> lookup_fine (on_closer who peers us l)"
  by (auto simp: lookup_fine_def on_closer_def drop_in_flight_def Let_def alpha_consts intro: le_trans [OF length_filter_le])

lemma lookup_fine_record: "lookup_fine l \<Longrightarrow> lookup_fine (on_record who r l)"
  by (auto simp: lookup_fine_def on_record_def drop_in_flight_def intro: le_trans [OF length_filter_le])

lemma lookup_fine_providers: "lookup_fine l \<Longrightarrow> lookup_fine (on_providers who ps closer l)"
  unfolding on_providers_def Let_def
  by (rule lookup_fine_closer) (auto simp: lookup_fine_def drop_in_flight_def intro: le_trans [OF length_filter_le])

lemma dispatch_one_lookup:
  "fst (dispatch_one env s p) = fst s \<or> (\<exists>now n. fst (dispatch_one env s p) = note_sent now (pi_id p) n (fst s))"
  by (auto simp: dispatch_one_def split_beta Let_def split: option.splits)

lemma lookup_fine_dispatch:
  assumes "lookup_fine l"
  shows "lookup_fine (fst (dispatch_lookup_batch env l ctx))"
proof -
  have "lookup_fine (fst (dispatch_one env s p))" if "lookup_fine (fst s)" for s p
    using dispatch_one_lookup [of env s p] lookup_fine_sent [OF that] that by auto
  then have "lookup_fine (fst (foldl (dispatch_one env) s ps))" if "lookup_fine (fst s)" for s ps
    using that by (induction ps arbitrary: s) simp_all
  then show ?thesis
    using lookup_fine_next [OF assms] by (simp add: dispatch_lookup_batch_def split_beta)
qed

definition lookups_fine :: "(u32 \<rightharpoonup> pending_lookup) \<Rightarrow> bool" where
  "lookups_fine m = (\<forall>i p. m i = Some p \<longrightarrow> lookup_fine (pl_lookup p))"

lemma lookups_fineD: "lookups_fine m \<Longrightarrow> m i = Some p \<Longrightarrow> lookup_fine (pl_lookup p)"
  by (simp add: lookups_fine_def)

lemma lookups_fine_upd:
  "lookups_fine m \<Longrightarrow> lookup_fine (pl_lookup p) \<Longrightarrow> lookups_fine (m(i \<mapsto> p))"
  "lookups_fine m \<Longrightarrow> lookups_fine (m(i := None))"
  "lookups_fine m \<Longrightarrow> (\<And>l. lookup_fine l \<Longrightarrow> lookup_fine (f l)) \<Longrightarrow>
   lookups_fine (m(i := map_option (\<lambda>p. p\<lparr>pl_lookup := f (pl_lookup p)\<rparr>) (m i)))"
  by (auto simp: lookups_fine_def)

lemma lookup_timeouts_fine:
  assumes "lookups_fine m"
  shows "lookups_fine (snd (lookup_timeouts now ids m))"
  unfolding lookup_timeouts_def
proof (rule foldl_keeps [where P = "\<lambda>s. lookups_fine (snd s)"])
  show "lookups_fine (snd ([], m))"
    using assms by simp
qed (auto simp: split_beta Let_def split: option.splits
    intro!: lookups_fine_upd lookup_fine_timeouts dest: lookups_fineD)

fun command_ok :: "(bytes \<Rightarrow> bool) \<Rightarrow> shard_cmd \<Rightarrow> bool" where
  "command_ok K (CmdInjectPeer info) = (\<forall>x. x25519 info = Some x \<longrightarrow> K x)"
| "command_ok K _ = True"

fun event_ok :: "(bytes \<Rightarrow> bool) \<Rightarrow> shard_event \<Rightarrow> bool" where
  "event_ok K (EvCommand cmd) = command_ok K cmd"
| "event_ok K _ = True"

locale ctx_lookups = ctx_parts env D A I for env :: "'t shard_env" and D and A and I +
  assumes lookups: "I ctx \<Longrightarrow> lookups_fine m \<Longrightarrow> I (ctx\<lparr>sx_lookups := m\<rparr>)"
    and fine: "I ctx \<Longrightarrow> lookups_fine (sx_lookups ctx)"
    and replies: "I ctx \<Longrightarrow> I (ctx\<lparr>sx_replies := sx_replies ctx @ rs\<rparr>)"
    and flush: "I ctx \<Longrightarrow> I (flush_stores env ctx)"
begin

lemma reply_inv: "I ctx \<Longrightarrow> I (send_reply ch r ctx)"
  by (simp add: send_reply_def replies)

lemma finish_inv: "I ctx \<Longrightarrow> I (finish_lookup kind l reply ctx)"
  by (auto simp: finish_lookup_def reply_inv split: option.splits)

lemma put_lookup_inv: "I ctx \<Longrightarrow> lookup_fine (pl_lookup p) \<Longrightarrow> I (ctx\<lparr>sx_lookups := (sx_lookups ctx)(i \<mapsto> p)\<rparr>)"
  by (rule lookups) (auto intro!: lookups_fine_upd fine)

lemma drop_lookup_inv: "I ctx \<Longrightarrow> I (ctx\<lparr>sx_lookups := (sx_lookups ctx)(i := None)\<rparr>)"
  by (rule lookups) (auto intro!: lookups_fine_upd fine)

lemma start_lookup_inv: "I ctx \<Longrightarrow> I (start_lookup env kind target reply ctx)"
  using dispatch_batch_inv [of ctx] lookup_fine_dispatch [OF lookup_fine_new]
  by (auto simp: start_lookup_def Let_def split_beta intro!: finish_inv put_lookup_inv)

lemma update_lookup_inv:
  assumes "I ctx" "\<And>l. lookup_fine l \<Longrightarrow> lookup_fine (f l)"
  shows "I (update_lookup env n f ctx)"
  unfolding update_lookup_def
  using assms fine [OF assms(1)]
  by (auto split: option.splits intro!: lookups lookups_fine_upd dest: lookups_fineD)

lemma sweep_one_inv:
  assumes "I ctx"
  shows "I (sweep_one env ctx i)"
proof (cases "sx_lookups ctx i")
  case None
  with assms show ?thesis by (simp add: sweep_one_def)
next
  case (Some p)
  let ?c = "ctx\<lparr>sx_lookups := (sx_lookups ctx)(i := None)\<rparr>"
  obtain l ctx2 where d: "dispatch_lookup_batch env (pl_lookup p) ?c = (l, ctx2)"
    by (cases "dispatch_lookup_batch env (pl_lookup p) ?c")
  have "I ctx2"
    using dispatch_batch_inv [OF drop_lookup_inv [OF assms], of "pl_lookup p" i] d by simp
  moreover have "lookup_fine l"
    using lookup_fine_dispatch [OF lookups_fineD [OF fine [OF assms] Some], of env ?c] d by simp
  ultimately show ?thesis
    using Some d put_lookup_inv [of ctx2 "p\<lparr>pl_lookup := l\<rparr>" i]
    by (simp add: sweep_one_def Let_def finish_inv bump_inv)
qed

lemma sweep_inv: "I ctx \<Longrightarrow> I (sweep_lookups env ctx)"
  unfolding sweep_lookups_def by (rule foldl_inv) (simp_all add: sweep_one_inv)

lemma complete_closer_inv: "I ctx \<Longrightarrow> I (complete_closer env n src peers ctx)"
  by (simp add: complete_closer_def Let_def sweep_inv update_lookup_inv lookup_fine_closer)

lemma on_find_node_resp_inv:
  assumes "I ctx"
  shows "I (on_find_node_resp env src h pkt ctx)"
proof -
  have "I (foldl (\<lambda>ctx p. start_punch env src (peers_upsert env p (table_insert p ctx)) p) ctx ps)" for ps
    using assms by (rule foldl_inv) (simp add: start_punch_inv upsert_inv table_insert_inv)
  with assms show ?thesis
    by (auto simp: on_find_node_resp_def Let_def complete_closer_inv learn_addr_inv split: option.splits)
qed

lemma cache_inv:
  "I ctx \<Longrightarrow> authentic (en_crypto env) r \<Longrightarrow> I (ctx\<lparr>sx_store := cache_hit now r (sx_store ctx)\<rparr>)"
  using stores [of ctx "StCacheHit now r"] by simp

lemma on_find_value_resp_inv:
  assumes "I ctx"
  shows "I (on_find_value_resp env src h pkt ctx)"
proof -
  have "I (foldl (\<lambda>ctx p. start_punch env src (table_insert p ctx) p) ctx ps)" for ps
    using assms by (rule foldl_inv) (simp add: start_punch_inv table_insert_inv)
  with assms show ?thesis
    unfolding on_find_value_resp_def Let_def
    by (auto split: option.splits find_value_result.splits
        intro!: sweep_inv update_lookup_inv complete_closer_inv cache_inv lookup_fine_record lookup_fine_providers)
qed

lemma cmd_put_inv: "I ctx \<Longrightarrow> I (cmd_put env value ttl ch ctx)"
  using stores [of ctx "StPutImmutable (sx_unix ctx) value ttl"]
  by (auto simp: cmd_put_def Let_def split: prod.splits sum.splits
      intro!: reply_inv announce_inv replicate_store_inv bump_inv)

lemma cmd_get_inv: "I ctx \<Longrightarrow> I (cmd_get env k ch ctx)"
  by (auto simp: cmd_get_def Let_def split: option.splits intro!: reply_inv bump_inv start_lookup_inv)

lemma cmd_put_mutable_inv: "I ctx \<Longrightarrow> I (cmd_put_mutable env r ch ctx)"
  by (auto simp: cmd_put_mutable_def split: prod.splits sum.splits
      intro!: reply_inv send_store_rpc_inv bump_inv dest: put_record_inv)

lemma cmd_announce_inv: "I ctx \<Longrightarrow> I (cmd_announce env k meta ch ctx)"
  by (simp add: cmd_announce_def reply_inv announce_rpc_inv announce_inv)

lemma cmd_find_providers_inv: "I ctx \<Longrightarrow> I (cmd_find_providers env k ch ctx)"
  by (simp add: cmd_find_providers_def Let_def reply_inv start_lookup_inv)

lemma lookup_tick_inv:
  assumes "I ctx"
  shows "I (timer_lookup_tick env ctx)"
proof -
  let ?t = "lookup_timeouts (sx_now ctx) (it_lookups env (sx_lookups ctx)) (sx_lookups ctx)"
  have "I (ctx\<lparr>sx_lookups := snd ?t\<rparr>)"
    using assms by (rule lookups) (rule lookup_timeouts_fine [OF fine [OF assms]])
  then have "I (foldl penalize_peer (ctx\<lparr>sx_lookups := snd ?t\<rparr>) (fst ?t))"
    by (rule foldl_inv) (simp add: penalize_inv)
  then show ?thesis
    by (simp add: timer_lookup_tick_def split_beta Let_def schedule_inv sweep_inv)
qed

lemma on_timer_inv: "I ctx \<Longrightarrow> I (on_timer env kind ctx)"
  using stores [of ctx "StGc (sx_unix ctx)"]
  by (cases kind) (simp_all add: keepalive_inv lookup_tick_inv on_punch_timer_inv schedule_inv flush)

lemma stop_inv: "I ctx \<Longrightarrow> I (shard_stop env bufs ctx)"
  unfolding shard_stop_def by (intro flush foldl_inv) (simp_all add: recycle_inv)

end

locale ctx_run = ctx_handle env D A I K + ctx_lookups env D A I
  for env :: "'t shard_env" and D and A and I and K
begin

lemmas updates = size small plain take_buf give_buf metrics corr out relay wg pending verified table peers keys endpoints
  mapped punches via_relay timers limiter rewards penalties stores taken queued lookups fine replies flush

lemma handle_message_inv: "I ctx \<Longrightarrow> I (handle_message env src h pkt authenticated ctx)"
  by (auto simp: handle_message_def on_ping_inv on_pong_inv on_negotiate_inv on_find_node_inv
      on_find_node_resp_inv on_find_value_inv on_find_value_resp_inv on_store_inv on_announce_inv
      on_punch_inv send_error_inv split: message_type.splits)

end

sublocale ctx_run \<subseteq> ctx_drive env D A I K
  by unfold_locales (rule handle_message_inv)

context ctx_run
begin

lemma cmd_inject_peer_inv:
  "I ctx \<Longrightarrow> command_ok K (CmdInjectPeer info) \<Longrightarrow> I (cmd_inject_peer env info ctx)"
  by (auto simp: cmd_inject_peer_def Let_def split: option.splits
      intro!: upsert_inv table_insert_inv keys add_peer_inv)

lemma handle_cmd_inv: "I ctx \<Longrightarrow> command_ok K cmd \<Longrightarrow> I (handle_cmd env cmd ctx)"
  by (cases cmd) (simp_all add: cmd_put_inv cmd_get_inv cmd_put_mutable_inv cmd_announce_inv
      cmd_find_providers_inv cmd_inject_peer_inv foldl_inv ping_inv)

lemma run_cmds_inv: "list_all (command_ok K) cmds \<Longrightarrow> I ctx \<Longrightarrow> I (snd (run_cmds env cmds ctx))"
  by (induction cmds arbitrary: ctx) (auto intro: handle_cmd_inv)

end

text \<open>An invariant that depends neither on the time nor on a timer to be pending holds along every run.\<close>

locale ctx_steps = ctx_run env D A I K for env :: "'t shard_env" and D and A and I and K +
  assumes clock: "I ctx \<Longrightarrow> I (set_clocks ck ctx)"
    and popped: "I ctx \<Longrightarrow> I (ctx\<lparr>sx_timers := snd (pop_due now (sx_timers ctx))\<rparr>)"
begin

lemma run_timers_inv:
  assumes "I ctx"
  shows "I (run_timers env ctx)"
proof -
  have "I (ctx\<lparr>sx_timers := snd (pop_due (sx_now ctx) (sx_timers ctx))\<rparr>)"
    using popped [OF assms] .
  then show ?thesis
    unfolding run_timers_def split_beta Let_def by (rule foldl_inv) (simp add: on_timer_inv)
qed

lemma step_inv:
  "shard_step env ctx e = Some ctx' \<Longrightarrow> event_ok K (snd e) \<Longrightarrow> I ctx \<Longrightarrow> I ctx'"
  by (cases "(env, ctx, e)" rule: shard_step.cases)
    (auto intro: receive_inv clock handle_cmd_inv on_timer_inv run_timers_inv)

lemma run_inv:
  "shard_run env ctx es = Some ctx' \<Longrightarrow> list_all (event_ok K \<circ> snd) es \<Longrightarrow> I ctx \<Longrightarrow> I ctx'"
  by (induction es arbitrary: ctx) (auto split: bind_splits intro: step_inv)

end

end
