(* ===== verification/Demo.thy ===== *)
theory Demo
  imports Shard_State
begin

text \<open>
  One concrete choice for the code the program only calls: codecs for all messages, a tunnel that
  passes packets through, and an order of iteration. It satisfies the assumptions made about that
  code, and the examples of the later theories run on it.
\<close>

section \<open>Codecs\<close>

definition opt_bytes :: "bytes option \<Rightarrow> bytes" where
  "opt_bytes x = (case x of None \<Rightarrow> [] | Some bs \<Rightarrow> pack bs)"

definition bytes_opt :: "bytes \<Rightarrow> bytes option" where
  "bytes_opt bs = (case unpack bs of None \<Rightarrow> None | Some (x, _) \<Rightarrow> Some x)"

lemma bytes_opt_inverse [simp]: "bytes_opt (opt_bytes x) = x"
  using unpack_pack [of _ "[]"] by (auto simp: opt_bytes_def bytes_opt_def split: option.split)

definition addrs_bytes :: "proto_addr list \<Rightarrow> bytes" where
  "addrs_bytes l = pack_list (map multiaddr l)"

definition bytes_addrs :: "bytes \<Rightarrow> proto_addr list" where
  "bytes_addrs bs = map Addr (unpack_list bs)"

definition peer_bytes :: "proto_peer \<Rightarrow> bytes" where
  "peer_bytes p = pack_list [pp_peer_id p, addrs_bytes (pp_addrs p), to_be_bytes (pp_rtt_ms p), pp_x25519 p]"

definition bytes_peer :: "bytes \<Rightarrow> proto_peer" where
  "bytes_peer bs = (let f = unpack_list bs in
     \<lparr>pp_peer_id = f ! 0, pp_addrs = bytes_addrs (f ! 1), pp_rtt_ms = from_be_bytes (f ! 2), pp_x25519 = f ! 3\<rparr>)"

definition prov_bytes :: "proto_provider \<Rightarrow> bytes" where
  "prov_bytes p = pack_list [prov_peer_id p, prov_meta p]"

definition bytes_prov :: "bytes \<Rightarrow> proto_provider" where
  "bytes_prov bs = (let f = unpack_list bs in \<lparr>prov_peer_id = f ! 0, prov_meta = f ! 1\<rparr>)"

definition result_bytes :: "find_value_result option \<Rightarrow> bytes" where
  "result_bytes r = (case r of None \<Rightarrow> pack_list [] | Some (FvRecord bs) \<Rightarrow> pack_list [bs]
     | Some (FvProviders l) \<Rightarrow> pack_list ([] # [] # map prov_bytes l))"

definition bytes_result :: "bytes \<Rightarrow> find_value_result option" where
  "bytes_result bs = (case unpack_list bs of [] \<Rightarrow> None | [r] \<Rightarrow> Some (FvRecord r)
     | _ # _ # l \<Rightarrow> Some (FvProviders (map bytes_prov l)))"

lemma field_bytes_inverse [simp]:
  "bytes_addrs (addrs_bytes l) = l" "bytes_peer (peer_bytes p) = p" "bytes_prov (prov_bytes v) = v"
  "bytes_result (result_bytes r) = r"
proof -
  show "bytes_addrs (addrs_bytes l) = l" for l
    by (simp add: bytes_addrs_def addrs_bytes_def comp_def)
  then show "bytes_peer (peer_bytes p) = p"
    by (simp add: bytes_peer_def peer_bytes_def)
  show p: "bytes_prov (prov_bytes v) = v" for v
    by (simp add: bytes_prov_def prov_bytes_def)
  show "bytes_result (result_bytes r) = r"
    by (auto simp: bytes_result_def result_bytes_def p comp_def split: option.split find_value_result.split)
qed

definition demo_ping :: "proto_ping prost" where
  "demo_ping = field_codec
     (\<lambda>m. [to_be_bytes (ping_now_unix_ms m), ping_x25519 m, ping_ed25519 m, ping_binding_sig m])
     (\<lambda>f. \<lparr>ping_now_unix_ms = from_be_bytes (f ! 0), ping_x25519 = f ! 1, ping_ed25519 = f ! 2,
        ping_binding_sig = f ! 3\<rparr>)"

definition demo_pong :: "proto_pong prost" where
  "demo_pong = field_codec
     (\<lambda>m. [to_be_bytes (pong_now_unix_ms m), pong_x25519 m, pong_ed25519 m, pong_binding_sig m,
        opt_bytes (map_option multiaddr (pong_observed m))])
     (\<lambda>f. \<lparr>pong_now_unix_ms = from_be_bytes (f ! 0), pong_x25519 = f ! 1, pong_ed25519 = f ! 2,
        pong_binding_sig = f ! 3, pong_observed = map_option Addr (bytes_opt (f ! 4))\<rparr>)"

definition demo_negotiate_resp :: "proto_negotiate_resp prost" where
  "demo_negotiate_resp = field_codec
     (\<lambda>m. case ng_agreed m of None \<Rightarrow> [] | Some c \<Rightarrow>
        [to_be_bytes (cap_version c), to_be_bytes (cap_bitmap c), to_be_bytes (cap_max_msg_bytes c)])
     (\<lambda>f. \<lparr>ng_agreed = (if f = [] then None else
        Some \<lparr>cap_version = from_be_bytes (f ! 0), cap_bitmap = from_be_bytes (f ! 1),
              cap_max_msg_bytes = from_be_bytes (f ! 2)\<rparr>)\<rparr>)"

definition demo_find_node_req :: "proto_find_node_req prost" where
  "demo_find_node_req = field_codec (\<lambda>m. [fnq_target_id m, to_be_bytes (fnq_limit m)])
     (\<lambda>f. \<lparr>fnq_target_id = f ! 0, fnq_limit = from_be_bytes (f ! 1)\<rparr>)"

definition demo_find_node_resp :: "proto_find_node_resp prost" where
  "demo_find_node_resp = field_codec (\<lambda>m. map peer_bytes (fnr_peers m)) (\<lambda>f. \<lparr>fnr_peers = map bytes_peer f\<rparr>)"

definition demo_find_value_req :: "proto_find_value_req prost" where
  "demo_find_value_req = field_codec (\<lambda>m. [fvq_key m, to_be_bytes (fvq_provider_limit m)])
     (\<lambda>f. \<lparr>fvq_key = f ! 0, fvq_provider_limit = from_be_bytes (f ! 1)\<rparr>)"

definition demo_find_value_resp :: "proto_find_value_resp prost" where
  "demo_find_value_resp = field_codec
     (\<lambda>m. result_bytes (fvr_result m) # map peer_bytes (fvr_closer_peers m))
     (\<lambda>f. \<lparr>fvr_result = bytes_result (hd f), fvr_closer_peers = map bytes_peer (tl f)\<rparr>)"

definition demo_store_req :: "proto_store_req prost" where
  "demo_store_req = field_codec (\<lambda>m. [sq_record m, sq_admission_token m, sq_cost_stamp m])
     (\<lambda>f. \<lparr>sq_record = f ! 0, sq_admission_token = f ! 1, sq_cost_stamp = f ! 2\<rparr>)"

definition demo_store_resp :: "proto_store_resp prost" where
  "demo_store_resp = field_codec (\<lambda>m. [to_be_bytes (sp_code m), of_chars (sp_reason m)])
     (\<lambda>f. \<lparr>sp_code = from_be_bytes (f ! 0), sp_reason = chars_of (f ! 1)\<rparr>)"

definition demo_announce_req :: "proto_announce_req prost" where
  "demo_announce_req = field_codec
     (\<lambda>m. [aq_key m, opt_bytes (map_option prov_bytes (aq_self_descriptor m)), aq_record m,
        aq_admission_token m, aq_cost_stamp m])
     (\<lambda>f. \<lparr>aq_key = f ! 0, aq_self_descriptor = map_option bytes_prov (bytes_opt (f ! 1)), aq_record = f ! 2,
        aq_admission_token = f ! 3, aq_cost_stamp = f ! 4\<rparr>)"

definition demo_announce_resp :: "proto_announce_resp prost" where
  "demo_announce_resp = field_codec (\<lambda>m. [to_be_bytes (ap_code m), of_chars (ap_reason m)])
     (\<lambda>f. \<lparr>ap_code = from_be_bytes (f ! 0), ap_reason = chars_of (f ! 1)\<rparr>)"

definition demo_error :: "proto_error prost" where
  "demo_error = field_codec
     (\<lambda>m. [to_be_bytes (er_code m), of_chars (er_reason m), to_be_bytes (er_retry_after_ms m)])
     (\<lambda>f. \<lparr>er_code = from_be_bytes (f ! 0), er_reason = chars_of (f ! 1), er_retry_after_ms = from_be_bytes (f ! 2)\<rparr>)"

definition demo_punch :: "proto_punch prost" where
  "demo_punch = field_codec (\<lambda>m. [pu_target_id m, pu_from_id m, addrs_bytes (pu_candidates m)])
     (\<lambda>f. \<lparr>pu_target_id = f ! 0, pu_from_id = f ! 1, pu_candidates = bytes_addrs (f ! 2)\<rparr>)"

definition demo_relay :: "proto_relay prost" where
  "demo_relay = field_codec (\<lambda>m. [rl_dest_id m, rl_from_id m, rl_payload m])
     (\<lambda>f. \<lparr>rl_dest_id = f ! 0, rl_from_id = f ! 1, rl_payload = f ! 2\<rparr>)"

lemmas demo_codecs = demo_ping_def demo_pong_def demo_negotiate_resp_def demo_find_node_req_def
  demo_find_node_resp_def demo_find_value_req_def demo_find_value_resp_def demo_store_req_def
  demo_store_resp_def demo_announce_req_def demo_announce_resp_def demo_error_def demo_punch_def demo_relay_def

lemma demo_codecs_ok [simp]:
  "prost_ok demo_ping" "prost_ok demo_pong" "prost_ok demo_negotiate_resp" "prost_ok demo_find_node_req"
  "prost_ok demo_find_node_resp" "prost_ok demo_find_value_req" "prost_ok demo_find_value_resp"
  "prost_ok demo_store_req" "prost_ok demo_store_resp" "prost_ok demo_announce_req"
  "prost_ok demo_announce_resp" "prost_ok demo_error" "prost_ok demo_punch" "prost_ok demo_relay"
  "prost_ok demo_record_codec"
proof -
  show "prost_ok demo_negotiate_resp"
    unfolding demo_negotiate_resp_def by (rule field_codec_ok) (auto split: option.split)
qed (simp_all add: demo_codecs field_codec_ok option.map_comp comp_def option.map_ident demo_record_codec_ok)

section \<open>Tunnel and environment\<close>

definition copy_into :: "bytes \<Rightarrow> bytes \<Rightarrow> bytes" where
  "copy_into bs out = take (length out) bs @ drop (length bs) out"

definition demo_tunn :: "unit tunn_ops" where
  "demo_tunn =
     \<lparr>tn_new = (\<lambda>_ _ _ _. ()),
      tn_decapsulate = (\<lambda>t _ d out. (if d = [] \<or> length out < length d then TrDone else WriteToTunnelV4 (length d), t, copy_into d out)),
      tn_encapsulate = (\<lambda>t p out. (if length out < length p then TrErr else WriteToNetwork (length p), t, copy_into p out)),
      tn_update_timers = (\<lambda>t out. (TrDone, t, out))\<rparr>"

definition demo_rs :: rs_ops where
  "demo_rs = \<lparr>rs_encode = Some, rs_reconstruct = Some\<rparr>"

definition demo_env :: "unit shard_env" where
  "demo_env =
     \<lparr>en_crypto = demo_crypto, en_crc = (\<lambda>_. 0), en_text = demo_addr_text, en_tunn = demo_tunn, en_rs = demo_rs,
      pb_ping = demo_ping, pb_pong = demo_pong, pb_negotiate_resp = demo_negotiate_resp,
      pb_find_node_req = demo_find_node_req, pb_find_node_resp = demo_find_node_resp,
      pb_find_value_req = demo_find_value_req, pb_find_value_resp = demo_find_value_resp,
      pb_store_req = demo_store_req, pb_store_resp = demo_store_resp,
      pb_announce_req = demo_announce_req, pb_announce_resp = demo_announce_resp,
      pb_record = demo_record_codec, pb_error = demo_error, pb_punch = demo_punch, pb_relay = demo_relay,
      it_lookups = (\<lambda>m. sorted_list_of_set (dom m)), it_punches = (\<lambda>m. sorted_list_of_set (dom m)),
      it_sessions = (\<lambda>m. sorted_list_of_set (dom m)), en_send_ok = (\<lambda>_ _. True)\<rparr>"

lemma demo_env_fields [simp]:
  "en_crypto demo_env = demo_crypto" "en_text demo_env = demo_addr_text" "en_tunn demo_env = demo_tunn"
  "en_rs demo_env = demo_rs" "pb_ping demo_env = demo_ping" "pb_pong demo_env = demo_pong"
  "pb_negotiate_resp demo_env = demo_negotiate_resp" "pb_find_node_req demo_env = demo_find_node_req"
  "pb_find_node_resp demo_env = demo_find_node_resp" "pb_find_value_req demo_env = demo_find_value_req"
  "pb_find_value_resp demo_env = demo_find_value_resp" "pb_store_req demo_env = demo_store_req"
  "pb_store_resp demo_env = demo_store_resp" "pb_announce_req demo_env = demo_announce_req"
  "pb_announce_resp demo_env = demo_announce_resp" "pb_record demo_env = demo_record_codec"
  "pb_error demo_env = demo_error" "pb_punch demo_env = demo_punch" "pb_relay demo_env = demo_relay"
  "it_lookups demo_env = (\<lambda>m. sorted_list_of_set (dom m))" "it_punches demo_env = (\<lambda>m. sorted_list_of_set (dom m))"
  "it_sessions demo_env = (\<lambda>m. sorted_list_of_set (dom m))" "en_send_ok demo_env = (\<lambda>_ _. True)"
  by (simp_all add: demo_env_def)

end
