(* ===== verification/Shard_Total.thy ===== *)
theory Shard_Total
  imports Shard_Inv Demo
begin

text \<open>
  Handling a datagram ends. Two loops of \<^verbatim>\<open>src/shard.rs\<close> have no bound of their own: a relayed
  frame is handled like a datagram and may be a relayed frame again, and a session is drained until
  it has nothing more to send. The first ends because the payload is a part of the frame, the
  second because a tunnel has finitely many packets queued.
\<close>

section \<open>What the loops rely on\<close>

text \<open>A decoded payload is a part of the bytes it was decoded from.\<close>

definition relay_part :: "proto_relay prost \<Rightarrow> bool" where
  "relay_part c = (\<forall>bs m. pb_decode c bs = Some m \<longrightarrow> length (rl_payload m) \<le> length bs)"

text \<open>
  Given an empty datagram, a tunnel sends the next of its queued packets, or reports that there is
  none; \<open>q\<close> is the number of packets still queued.
\<close>

definition tunn_drains :: "'t tunn_ops \<Rightarrow> ('t \<Rightarrow> nat) \<Rightarrow> bool" where
  "tunn_drains ops q =
     (\<forall>t ip out. case tn_decapsulate ops t ip [] out of (r, t', _) \<Rightarrow>
        (case r of WriteToNetwork _ \<Rightarrow> q t' < q t | TrDone \<Rightarrow> q t' \<le> q t | TrErr \<Rightarrow> q t' \<le> q t | _ \<Rightarrow> False))"

lemma drive_decap_drains:
  assumes "tunn_drains ops q" "drive_decap ops t ip [] out = (r, t', bs)"
  shows "q t' \<le> q t \<and> (\<forall>n. r \<noteq> Plaintext n) \<and> (r \<noteq> Drop \<longrightarrow> q t' < q t)"
proof -
  have "case tn_decapsulate ops t ip [] out of (r, t', _) \<Rightarrow>
        (case r of WriteToNetwork _ \<Rightarrow> q t' < q t | TrDone \<Rightarrow> q t' \<le> q t | TrErr \<Rightarrow> q t' \<le> q t | _ \<Rightarrow> False)"
    using assms(1) unfolding tunn_drains_def by (elim allE)
  then show ?thesis
    using assms(2) by (auto simp: drive_decap_def split: prod.splits tunn_result.splits)
qed

section \<open>Draining\<close>

text \<open>The packets queued in all sessions.\<close>

definition queued_in :: "('t \<Rightarrow> nat) \<Rightarrow> 't wg_engine \<Rightarrow> nat" where
  "queued_in q w = (\<Sum>i \<in> UNIV. case wg_sessions w i of None \<Rightarrow> 0 | Some s \<Rightarrow> q (se_tunn s))"

lemma queued_in_put:
  assumes "wg_sessions w i = Some s"
  shows "queued_in q (put_session i s' w) + q (se_tunn s) = queued_in q w + q (se_tunn s')"
proof -
  let ?f = "\<lambda>w i. case wg_sessions w i of None \<Rightarrow> 0 | Some s \<Rightarrow> q (se_tunn s)"
  have "queued_in q w' = (\<Sum>j \<in> UNIV - {i}. ?f w' j) + ?f w' i" for w'
    unfolding queued_in_def by (subst sum.remove [of UNIV i]) simp_all
  moreover have "(\<Sum>j \<in> UNIV - {i}. ?f (put_session i s' w) j) = (\<Sum>j \<in> UNIV - {i}. ?f w j)"
    by (rule sum.cong) (simp_all add: put_session_def)
  ultimately show ?thesis
    using assms by (simp add: put_session_def)
qed

lemma drain_loop_drains:
  assumes "tunn_drains ops q" "drain_loop ops src keys out w = (r, w', bs)"
  shows "queued_in q w' \<le> queued_in q w \<and> (\<forall>n. r \<noteq> Plaintext n) \<and> (r \<noteq> Drop \<longrightarrow> queued_in q w' < queued_in q w)"
  using assms(2)
proof (induction keys arbitrary: out w)
  case (Cons i keys)
  show ?case
  proof (cases "\<exists>s. wg_sessions w i = Some s \<and> se_endpoint s = Some src")
    case True
    then obtain s where s: "wg_sessions w i = Some s" "se_endpoint s = Some src" by blast
    obtain r1 t1 out1 where d: "drive_decap ops (se_tunn s) (sa_ip src) [] out = (r1, t1, out1)"
      by (cases "drive_decap ops (se_tunn s) (sa_ip src) [] out")
    let ?w = "put_session i (s\<lparr>se_tunn := t1\<rparr>) w"
    have "queued_in q ?w + q (se_tunn s) = queued_in q w + q t1"
      using queued_in_put [OF s(1), of q "s\<lparr>se_tunn := t1\<rparr>"] by simp
    then show ?thesis
      using Cons.prems s d drive_decap_drains [OF assms(1) d] Cons.IH [of out1 ?w]
      by (cases "r1 = Drop") (force simp: Let_def)+
  next
    case False
    then have "drain_loop ops src keys out w = (r, w', bs)"
      using Cons.prems by (auto split: option.splits)
    then show ?thesis by (rule Cons.IH)
  qed
qed simp

lemma wg_decap_drains:
  assumes "tunn_drains (en_tunn env) q" "wg_decap env src [] ctx = (r, scratch, ctx1)"
  shows "(\<forall>n. r \<noteq> Plaintext n) \<and> (r \<noteq> Drop \<longrightarrow> queued_in q (sx_wg ctx1) < queued_in q (sx_wg ctx))"
  using assms(2) drain_loop_drains [OF assms(1)]
  by (auto simp: wg_decap_def decapsulate_def split: prod.splits)

lemma drain_total:
  assumes "tunn_drains (en_tunn env) q"
  shows "\<exists>ctx'. drain_wg_session env src ctx = Some ctx'"
proof (induction "queued_in q (sx_wg ctx)" arbitrary: ctx rule: less_induct)
  case less
  obtain r scratch ctx1 where d: "wg_decap env src [] ctx = (r, scratch, ctx1)"
    by (cases "wg_decap env src [] ctx")
  show ?case
  proof (cases r)
    case (Network n)
    let ?c = "recycle scratch (snd (io_send env (take n (vec_data scratch)) src ctx1))"
    have "sx_wg ?c = sx_wg ctx1"
      by (simp add: recycle_def io_send_def)
    then show ?thesis
      using less [of ?c] wg_decap_drains [OF assms d] Network d by (subst drain_wg_session.simps) auto
  next
    case (Plaintext n)
    then show ?thesis
      using wg_decap_drains [OF assms d] by simp
  qed (subst drain_wg_session.simps, simp add: d)+
qed

section \<open>Relayed frames\<close>

lemma on_relay_shrinks:
  assumes "relay_part (pb_relay env)" "header_decode pkt = Some h" "on_relay env src pkt ctx = RelayDeliver payload ctx'"
  shows "length payload < length pkt"
proof -
  from assms(3) obtain m where m: "decode_body (pb_relay env) pkt = Some m" "payload = rl_payload m"
    by (auto simp: on_relay_def split: option.splits if_splits)
  have "HEADER_LEN \<le> length pkt"
    using assms(2) by (auto simp: header_decode_def split: if_splits)
  moreover have "length (rl_payload m) \<le> length pkt - HEADER_LEN"
    using assms(1) m(1) by (force simp: decode_body_def relay_part_def split: if_splits)
  ultimately show ?thesis
    using m(2) by (simp add: HEADER_LEN_def)
qed

lemma handle_app_total:
  assumes "relay_part (pb_relay env)"
  shows "\<exists>ctx'. handle_app env src pkt auth ctx = Some ctx'"
proof (induction "length pkt" arbitrary: pkt auth ctx rule: less_induct)
  case less
  show ?case
  proof (cases "header_decode pkt")
    case None
    then show ?thesis by (subst handle_app.simps) simp
  next
    case (Some h)
    then show ?thesis
      using less on_relay_shrinks [OF assms Some]
      by (subst handle_app.simps) (auto split: relay_outcome.split)
  qed
qed

lemma handle_datagram_total:
  assumes "relay_part (pb_relay env)" "tunn_drains (en_tunn env) q"
  shows "\<exists>ctx'. handle_datagram env src pkt ctx = Some ctx'"
proof -
  have app: "\<exists>y. handle_app env src p a c = Some y" and dr: "\<exists>y. drain_wg_session env src c = Some y" for p a c
    using handle_app_total [OF assms(1)] drain_total [OF assms(2)] by blast+
  have "\<exists>y. Option.bind (handle_app env src p a c)
      (\<lambda>c. map_option f (drain_wg_session env src c)) = Some y" for p a c f
    using app [of p a c] dr by fastforce
  then show ?thesis
    using app dr by (auto simp: handle_datagram_def split_beta Let_def split: decap.split)
qed

lemma shard_run_defined:
  assumes "relay_part (pb_relay env)" "tunn_drains (en_tunn env) q"
  shows "\<exists>ctx'. shard_run env ctx es = Some ctx'"
proof (induction es arbitrary: ctx)
  case (Cons e es)
  have "\<exists>c. shard_step env ctx e = Some c"
    by (cases "(env, ctx, e)" rule: shard_step.cases)
      (simp_all add: receive_def handle_datagram_total [OF assms])
  with Cons.IH show ?case by auto
qed simp


section \<open>Every run is defined\<close>

text \<open>
  C8. Whatever datagrams arrive, a shard handles each of them to the end: if the payload of a decoded
  relay frame is no longer than the frame and a tunnel has finitely many packets queued, every
  sequence of datagrams, commands and timers has a resulting state.
\<close>

theorem shard_run_total:
  assumes "relay_part (pb_relay env)" and "tunn_drains (en_tunn env) q"
  shows "\<exists>ctx'. shard_run env ctx es = Some ctx'"
  using assms by (rule shard_run_defined)

lemma demo_relay_part: "relay_part demo_relay"
proof -
  have "length bs \<le> length (pack bs)" for bs
    by (induction bs) simp_all
  then have "length c \<le> length (pack_list [a, b, c])" for a b c
    by (simp add: pack_list_def trans_le_add2)
  then show ?thesis
    by (auto simp: relay_part_def demo_relay_def field_codec_def Let_def split: if_splits) metis
qed

lemma demo_tunn_drains: "tunn_drains demo_tunn (\<lambda>_. 0)"
  by (simp add: tunn_drains_def demo_tunn_def)

definition demo_identity :: identity where
  "demo_identity = identity_generate demo_crypto (replicate 32 7) (replicate 32 9)"

definition demo_shard :: "unit shard_ctx" where
  "demo_shard = snd (shard_new demo_env 0 demo_identity node_config_default (AddrV4 127 0 0 1 4000) empty_disk
     \<lparr>ck_now = 0, ck_unix = 0, ck_unix_ms = 0\<rparr>)"

definition demo_ck :: "nat \<Rightarrow> clocks" where
  "demo_ck ms = \<lparr>ck_now = millis ms, ck_unix = of_nat (ms div 1000), ck_unix_ms = of_nat ms\<rparr>"

theorem shard_run_total_witness:
  "relay_part (pb_relay demo_env) \<and> tunn_drains (en_tunn demo_env) (\<lambda>_. 0)
   \<and> (\<exists>ctx. shard_run demo_env demo_shard
        [(demo_ck 10, EvDatagram (AddrV4 10 0 0 1 4000) [1, 0, 0, 0, 0, 0, 0, 1, 0, 0, 0, 0]),
         (demo_ck 60, EvTimers), (demo_ck 70, EvCommand (CmdPut [1, 2, 3] 60 7))] = Some ctx)"
  using shard_run_total [of demo_env "\<lambda>_. 0"] demo_relay_part demo_tunn_drains by (simp del: shard_run.simps)

end
