(* ===== verification/Shard_Health.thy ===== *)
theory Shard_Health
  imports Shard_Total
begin

text \<open>
  The state of a shard stays healthy: one invariant that joins those of its parts, kept by every
  datagram, command and timer.
\<close>


section \<open>A healthy shard\<close>

text \<open>
  The invariants of the parts of a shard that hold in every run, and what holds between them: cached
  values are authentic, peers are filed under their identifiers, the WireGuard engine carries the key
  of the identity and the number of the shard, relaying is on exactly when it is configured, an
  address is only bound to a key that satisfies \<open>K\<close>, what waits for a session fits a datagram, and
  whatever was sent fits the buffers.
\<close>

definition cache_authentic :: "crypto \<Rightarrow> store \<Rightarrow> bool" where
  "cache_authentic c s = (\<forall>k r. st_cache s k = Some r \<longrightarrow> authentic c r)"

definition healthy :: "'t shard_env \<Rightarrow> (bytes \<Rightarrow> bool) \<Rightarrow> node_id \<Rightarrow> 't shard_ctx \<Rightarrow> bool" where
  "healthy env K i ctx =
     (rt_all slot_wf (sx_table ctx) \<and> rt_all slot_tight (sx_table ctx) \<and> rt_self (sx_table ctx) = i
      \<and> store_ok (en_crypto env) (sx_store ctx) \<and> cache_authentic (en_crypto env) (sx_store ctx)
      \<and> pool_wf (sx_pool ctx) \<and> wheel_ok (sx_timers ctx) \<and> sybil_ok (sx_sybil ctx)
      \<and> lookups_fine (sx_lookups ctx)
      \<and> index_keyed (ps_peers (sx_peers ctx))
      \<and> wg_home (ucast (sx_id ctx)) (wg_secret (sx_identity ctx)) (sx_wg ctx)
      \<and> rs_enabled (sx_relay ctx) = cf_two_hop_relay (sx_cfg ctx)
      \<and> (\<forall>a x. sx_keys_by_addr ctx a = Some x \<longrightarrow> K x)
      \<and> (\<forall>a q. sx_pending_wg ctx a = Some q \<longrightarrow> list_all (\<lambda>m. length m \<le> PMTU_FLOOR) q)
      \<and> (\<forall>(a, bs) \<in> set (sx_out ctx). fits env bs))"

lemma authentic_cached:
  "authentic c r \<Longrightarrow> sr_kind r = KIND_IMMUTABLE \<Longrightarrow>
   authentic c (r\<lparr>sr_cache := b, sr_ttl_secs := t, sr_stored_unix := now\<rparr>)"
  by (simp add: authentic_def)

lemma cache_authentic_step:
  assumes "cache_authentic c s" "\<And>now r. so = StCacheHit now r \<Longrightarrow> authentic c r"
  shows "cache_authentic c (store_step c pc s so)"
proof (cases so)
  case (StCacheHit now r)
  then show ?thesis
    using assms by (auto simp: cache_authentic_def cache_hit_def Let_def authentic_cached)
next
  case (StGc now)
  then show ?thesis
    using assms(1) by (auto simp: cache_authentic_def store_gc_def retain_live_Some)
qed (use assms(1) in \<open>auto simp: cache_authentic_def put_immutable_ttl_def put_record_def announce_provider_def Let_def
      split: option.splits if_splits\<close>)


text \<open>
  The keys an address may be bound to: those some identity has signed, and those the operator
  injects.
\<close>

definition bound_key :: "crypto \<Rightarrow> bytes set \<Rightarrow> bytes \<Rightarrow> bool" where
  "bound_key c X x = (x \<in> X \<or> (length x = 32 \<and> (\<exists>ed sig. verify_binding c ed x sig)))"

interpretation health: ctx_steps env "fits env" "\<lambda>a. length a \<le> PMTU_FLOOR"
    "healthy env (bound_key (en_crypto env) X) i" "bound_key (en_crypto env) X"
  for env :: "'t shard_env" and X and i
proof
  fix ctx :: "'t shard_ctx"
  let ?I = "healthy env (bound_key (en_crypto env) X) i"
  assume I: "?I ctx"
  show "?I (ctx\<lparr>sx_pool := snd (pool_take (sx_pool ctx))\<rparr>)"
    using I pool.step_inv [of "sx_pool ctx" PoolTake] by (simp add: healthy_def)
  show "?I (ctx\<lparr>sx_pool := pool_recycle b (sx_pool ctx)\<rparr>)" for b
    using I pool.step_inv [of "sx_pool ctx" "PoolRecycle b"] by (simp add: healthy_def)
  show "?I (ctx\<lparr>sx_metrics := m\<rparr>)" "?I (ctx\<lparr>sx_next_corr := n\<rparr>)" "?I (ctx\<lparr>sx_endpoints := e\<rparr>)" "?I (ctx\<lparr>sx_mapped := a\<rparr>)" "?I (ctx\<lparr>sx_punches := p\<rparr>)"
    "?I (ctx\<lparr>sx_via_relay := v\<rparr>)" "?I (ctx\<lparr>sx_replies := rs\<rparr>)" "?I (set_clocks ck ctx)"
    for m n e a p v rs ck
    using I by (simp_all add: healthy_def set_clocks_def)
  show "?I (ctx\<lparr>sx_relay := relay_step (sx_relay ctx) re\<rparr>)"
    "?I (ctx\<lparr>sx_wg := wg_step (en_tunn env) (en_crypto env) (sx_wg ctx) we\<rparr>)"
    "?I (ctx\<lparr>sx_peers := ps_upsert (en_text env) info (sx_peers ctx)\<rparr>)" for re we info
    using I by (simp_all add: healthy_def wg_home_step index_keyed_upsert)
  show "?I (flush_stores env ctx)"
    using I flush_wal_pending(3) [of "sx_store ctx" "sx_peers ctx"]
    by (auto simp: healthy_def flush_stores_def flush_wal_def ps_flush_def split_beta Let_def store_ok_def cache_authentic_def)
  show "?I (ctx\<lparr>sx_table := rt_step (sx_table ctx) op\<rparr>)" if "not_evict op" for op
    using I that wf.step_all [of "sx_table ctx" op] tight.step_all [of "sx_table ctx" op] by (simp add: healthy_def)
  show "?I (ctx\<lparr>sx_timers := schedule t kind (sx_timers ctx)\<rparr>)" "?I (ctx\<lparr>sx_timers := snd (pop_due now (sx_timers ctx))\<rparr>)"
    for t kind now
    using I wheel.step_inv [of "sx_timers ctx" "TmSchedule t kind"] wheel.step_inv [of "sx_timers ctx" "TmPop now"]
    by (simp_all add: healthy_def)
  show "?I (ctx\<lparr>sx_sybil := snd (allow_pre_handshake now src (sx_sybil ctx))\<rparr>)"
    "?I (ctx\<lparr>sx_sybil := reward j (sx_sybil ctx)\<rparr>)" "?I (ctx\<lparr>sx_sybil := penalize j (sx_sybil ctx)\<rparr>)" for now src j
    using I by (simp_all add: healthy_def allow_pre_handshake_ok reward_ok penalize_ok)
  show "?I (ctx\<lparr>sx_store := store_step (en_crypto env) (pb_record env) (sx_store ctx) so\<rparr>)"
    if "\<And>now r. so = StCacheHit now r \<Longrightarrow> authentic (en_crypto env) r" for so
    using I that store_machine.step_inv [of "en_crypto env" "sx_store ctx" "pb_record env" so]
    by (simp add: healthy_def cache_authentic_step)
  show "?I (pending_push dest apps ctx)" if "list_all (\<lambda>a. length a \<le> PMTU_FLOOR) apps" for dest apps
    using I that by (cases "sx_pending_wg ctx dest") (auto simp: healthy_def pending_push_def)
qed (auto simp: healthy_def fits_def PMTU_FLOOR_def BUFFER_SIZE_def bound_key_def list_all_iff split: option.splits if_splits)

lemma rt_self_new: "rt_self (rt_new i) = i"
  by (simp add: rt_new_def)

lemma shard_new_healthy:
  assumes "shard_new env n ident cfg addr d ck = (bufs, ctx)"
  shows "healthy env (bound_key (en_crypto env) X) (identity_node_id (en_crypto env) ident) ctx"
proof -
  have "pool_wf (snd (take_bufs n p))" if "pool_wf p" for n p
    using that
  proof (induction n arbitrary: p)
    case (Suc n)
    then show ?case
      using pool.step_inv [of p PoolTake] by (auto simp: split_beta Let_def)
  qed simp
  from this [OF pool_new_wf, of 32] have "pool_wf (sx_pool ctx)"
    using assms by (auto simp: shard_new_def split_beta Let_def)
  moreover have "wheel_ok (schedule t kind h)" if "wheel_ok h" for t kind h
    using wheel.step_inv [OF that, of "TmSchedule t kind"] by simp
  then have "wheel_ok (sx_timers ctx)"
    using assms by (auto simp: shard_new_def split_beta Let_def wheel_new_def wheel_ok_def)
  moreover have st: "store_ok c store_new" "cache_authentic c store_new"
    "cache_authentic c (store_open crc c pc now dir d)" for c crc pc now dir d
    by (simp_all add: store_ok_def records_ok_def providers_ok_def cache_ok_def cache_authentic_def store_new_def
        store_open_def replay_wal_def Let_def split: option.split)
  have "store_ok (en_crypto env) (sx_store ctx)" "cache_authentic (en_crypto env) (sx_store ctx)"
    using assms by (auto simp: shard_new_def split_beta Let_def st store_open_ok split: option.split)
  moreover have "index_keyed (ps_peers (sx_peers ctx))"
    using assms index_keyed_open index_keyed_memory by (auto simp: shard_new_def split_beta Let_def split: option.split)
  moreover have "wg_home (ucast n) s (wg_new c s (ucast n)\<lparr>wg_pow_bits := 0\<rparr>)" for c s
    using wg_new_home by (simp add: wg_home_def)
  then have "wg_home (ucast (sx_id ctx)) (wg_secret (sx_identity ctx)) (sx_wg ctx)"
    using assms by (auto simp: shard_new_def split_beta Let_def)
  moreover have "rs_enabled (sx_relay ctx) = cf_two_hop_relay (sx_cfg ctx)"
    using assms by (auto simp: shard_new_def relay_new_def split_beta Let_def)
  moreover have "sybil_ok (sx_sybil ctx)"
    using assms sybil_new_ok by (auto simp: shard_new_def split_beta Let_def)
  ultimately show ?thesis
    using assms wf.new_all tight.new_all by (auto simp: healthy_def shard_new_def rt_self_new lookups_fine_def split_beta Let_def)
qed


text \<open>The keys of the peers injected in a run.\<close>

definition injected :: "(clocks \<times> shard_event) list \<Rightarrow> bytes set" where
  "injected es = {x. \<exists>info. EvCommand (CmdInjectPeer info) \<in> snd ` set es \<and> x25519 info = Some x}"

lemma injected_ok: "list_all (event_ok (bound_key c (injected es)) \<circ> snd) es"
proof -
  have "event_ok (bound_key c (injected es)) (snd e)" if "e \<in> set es" for e
  proof (cases "\<exists>info. snd e = EvCommand (CmdInjectPeer info)")
    case True
    with that show ?thesis
      by (force simp: bound_key_def injected_def)
  next
    case False
    then show ?thesis
      by (cases "(bound_key c (injected es), snd e)" rule: event_ok.cases)
        (auto split: shard_cmd.splits intro: command_ok.elims(3))
  qed
  then show ?thesis
    by (simp add: list_all_iff)
qed

lemma command_ok_any: "command_ok (bound_key c UNIV) cmd"
  by (cases "(bound_key c UNIV, cmd)" rule: command_ok.cases) (simp_all add: bound_key_def)

lemma event_ok_any: "event_ok (bound_key c UNIV) e"
  by (cases e) (simp_all add: command_ok_any)

lemma shard_run_healthy:
  assumes "shard_new env n ident cfg addr d ck = (bufs, ctx0)" and "shard_run env ctx0 es = Some ctx"
  shows "healthy env (bound_key (en_crypto env) UNIV) (identity_node_id (en_crypto env) ident) ctx"
  using health.run_inv [OF assms(2) _ shard_new_healthy [OF assms(1)]] by (simp add: list_all_iff event_ok_any)

text \<open>
  C2. From its start and through every sequence of datagrams, commands and timers a shard stays
  healthy: the routing table is well-formed with at most k contacts in a bucket, everything stored
  or cached is authentic, the free buffers, timers, scores and rate limits keep their bounds, running
  lookups keep their order, parallelism and budget, peers are filed under their identifiers, every
  known key has a WireGuard session and every session's index carries the shard's number, relaying
  stays as configured, every key in \<^verbatim>\<open>keys_by_addr\<close> was injected or has 32 bytes and a signature
  that the scheme accepts, and every datagram sent fits a buffer provided that the tunnel keeps the
  length of the buffers it is given. Stopping the shard keeps all this.
\<close>

theorem shard_healthy:
  assumes "shard_new env n ident cfg addr d ck = (bufs, ctx0)"
    and "shard_run env ctx0 es = Some ctx"
  shows "healthy env (bound_key (en_crypto env) (injected es)) (identity_node_id (en_crypto env) ident) ctx
    \<and> healthy env (bound_key (en_crypto env) (injected es)) (identity_node_id (en_crypto env) ident)
        (shard_stop env bufs ctx)"
  using health.run_inv [OF assms(2) injected_ok shard_new_healthy [OF assms(1)]] health.stop_inv by blast

definition demo_peer :: peer_info where
  "demo_peer = (peer_info_new (NodeId (replicate 32 5)) (AddrV4 10 0 0 1 4000))\<lparr>x25519 := Some (replicate 32 1)\<rparr>"

theorem shard_healthy_witness:
  "\<exists>ctx. shard_run demo_env demo_shard
      [(demo_ck 10, EvCommand (CmdInjectPeer demo_peer)), (demo_ck 20, EvCommand (CmdPut [1, 2, 3] 60 7)),
       (demo_ck 60, EvTimers)] = Some ctx
    \<and> healthy demo_env (bound_key demo_crypto {replicate 32 1}) (identity_node_id demo_crypto demo_identity) ctx"
proof -
  let ?es = "[(demo_ck 10, EvCommand (CmdInjectPeer demo_peer)), (demo_ck 20, EvCommand (CmdPut [1, 2, 3] 60 7)),
       (demo_ck 60, EvTimers)]"
  obtain ctx where run: "shard_run demo_env demo_shard ?es = Some ctx"
    using shard_run_defined [of demo_env "\<lambda>_. 0"] demo_relay_part demo_tunn_drains by force
  obtain bufs where new: "shard_new demo_env 0 demo_identity node_config_default (AddrV4 127 0 0 1 4000) empty_disk
      \<lparr>ck_now = 0, ck_unix = 0, ck_unix_ms = 0\<rparr> = (bufs, demo_shard)"
    by (simp add: demo_shard_def prod_eq_iff)
  have "injected ?es = {replicate 32 1}"
    by (auto simp: injected_def demo_peer_def peer_info_new_def)
  with shard_healthy [OF new run] run show ?thesis
    by (simp del: shard_run.simps)
qed

section \<open>The keys of addresses\<close>

text \<open>The keys and the signature that a message carries.\<close>

definition carries_keys :: "'t shard_env \<Rightarrow> header \<Rightarrow> bytes \<Rightarrow> bytes \<Rightarrow> bytes \<Rightarrow> bytes \<Rightarrow> bool" where
  "carries_keys env h pkt x ed sig =
     ((h_ty h = Ping \<and> (\<exists>p. decode_body (pb_ping env) pkt = Some p
         \<and> ping_x25519 p = x \<and> ping_ed25519 p = ed \<and> ping_binding_sig p = sig))
      \<or> (h_ty h = Pong \<and> (\<exists>p. decode_body (pb_pong env) pkt = Some p
         \<and> pong_x25519 p = x \<and> pong_ed25519 p = ed \<and> pong_binding_sig p = sig)))"

interpretation bound: ctx_lookups env "\<lambda>_. True" "\<lambda>_. True"
    "\<lambda>ctx. sx_keys_by_addr ctx = m \<and> lookups_fine (sx_lookups ctx)"
  for env :: "'t shard_env" and m
  by unfold_locales (auto simp: pending_push_def flush_stores_def split_beta Let_def list_all_iff)

text \<open>An address is bound to nothing new, or the sender to the key that the message carries.\<close>

definition binds_signed :: "'t shard_env \<Rightarrow> socket_addr \<Rightarrow> (bytes \<Rightarrow> bytes \<Rightarrow> bytes \<Rightarrow> bool) \<Rightarrow>
    (socket_addr \<rightharpoonup> bytes) \<Rightarrow> (socket_addr \<rightharpoonup> bytes) \<Rightarrow> bool" where
  "binds_signed env src carried m m' =
     (m' = m \<or> (\<exists>x ed sig. m' = m(src \<mapsto> x) \<and> length x = 32 \<and> length ed = 32
        \<and> verify_binding (en_crypto env) ed x sig \<and> carried x ed sig))"

lemma note_peer_keys_bound:
  assumes "lookups_fine (sx_lookups ctx)" and "carried x ed sig"
  shows "binds_signed env src carried (sx_keys_by_addr ctx) (sx_keys_by_addr (snd (note_peer_keys env src x ed sig ctx)))
    \<and> lookups_fine (sx_lookups (snd (note_peer_keys env src x ed sig ctx)))"
proof (cases "length x \<noteq> 32 \<or> length ed \<noteq> 32 \<or> sig = [] \<or> \<not> verify_binding (en_crypto env) ed x sig")
  case True
  with assms(1) show ?thesis by (auto simp: note_peer_keys_def binds_signed_def)
next
  case False
  let ?c = "ctx\<lparr>sx_keys_by_addr := (sx_keys_by_addr ctx)(src \<mapsto> x)\<rparr>"
  have "sx_keys_by_addr ?c = (sx_keys_by_addr ctx)(src \<mapsto> x) \<and> lookups_fine (sx_lookups ?c)"
    using assms(1) by simp
  from bound.upsert_inv [OF bound.table_insert_inv [OF bound.add_peer_inv [OF this]]] False assms(2) show ?thesis
    by (auto simp: note_peer_keys_def Let_def binds_signed_def)
qed

lemma on_ping_bound:
  assumes "lookups_fine (sx_lookups ctx)" and "h_ty h = Ping"
  shows "binds_signed env src (carries_keys env h pkt) (sx_keys_by_addr ctx) (sx_keys_by_addr (on_ping env src h pkt ctx))"
proof -
  have keep: "sx_keys_by_addr (snd (send_message (pb_pong env) hh body (send_plain env src) (learn_addr env src i c)))
      = sx_keys_by_addr c" if "lookups_fine (sx_lookups c)" for c i hh body
    by (rule conjunct1 [OF bound.request_inv(2) [OF bound.learn_addr_inv]]) (simp add: that)
  show ?thesis
  proof (cases "decode_body (pb_ping env) pkt")
    case None
    then show ?thesis
      by (simp add: on_ping_def keep [OF assms(1)] binds_signed_def Let_def)
  next
    case (Some p)
    let ?n = "note_peer_keys env src (ping_x25519 p) (ping_ed25519 p) (ping_binding_sig p) ctx"
    have n: "binds_signed env src (carries_keys env h pkt) (sx_keys_by_addr ctx) (sx_keys_by_addr (snd ?n))"
      "lookups_fine (sx_lookups (snd ?n))"
      using note_peer_keys_bound [OF assms(1), of "carries_keys env h pkt"] Some assms(2)
      by (simp_all add: carries_keys_def)
    then show ?thesis
      using Some by (simp add: on_ping_def split_beta Let_def keep)
  qed
qed

lemma on_pong_bound:
  assumes "lookups_fine (sx_lookups ctx)" and "h_ty h = Pong"
  shows "binds_signed env src (carries_keys env h pkt) (sx_keys_by_addr ctx) (sx_keys_by_addr (on_pong env src pkt ctx))"
proof -
  have keep: "sx_keys_by_addr (learn_addr env src i c) = sx_keys_by_addr c" if "lookups_fine (sx_lookups c)" for c i
    by (rule conjunct1 [OF bound.learn_addr_inv]) (simp add: that)
  show ?thesis
  proof (cases "decode_body (pb_pong env) pkt")
    case None
    then show ?thesis
      by (simp add: on_pong_def keep [OF assms(1)] binds_signed_def Let_def)
  next
    case (Some p)
    let ?c = "case Option.bind (pong_observed p) (\<lambda>a. parse_multiaddr (en_text env) (multiaddr a)) of
        Some a \<Rightarrow> ctx\<lparr>sx_mapped := Some a\<rparr> | None \<Rightarrow> ctx"
    let ?n = "note_peer_keys env src (pong_x25519 p) (pong_ed25519 p) (pong_binding_sig p) ?c"
    have c: "lookups_fine (sx_lookups ?c)" "sx_keys_by_addr ?c = sx_keys_by_addr ctx"
      using assms(1) by (simp_all split: option.split)
    have n: "binds_signed env src (carries_keys env h pkt) (sx_keys_by_addr ctx) (sx_keys_by_addr (snd ?n))"
      "lookups_fine (sx_lookups (snd ?n))"
      using note_peer_keys_bound [OF c(1), of "carries_keys env h pkt"] Some assms(2) c(2)
      by (simp_all add: carries_keys_def)
    have "sx_keys_by_addr (on_pong env src pkt ctx) = sx_keys_by_addr (learn_addr env src (fst ?n) (snd ?n))"
      using Some by (simp add: on_pong_def split_beta Let_def split: option.split)
    then show ?thesis
      using n by (simp add: keep)
  qed
qed

lemma handle_message_bound:
  assumes "lookups_fine (sx_lookups ctx)"
  shows "binds_signed env src (carries_keys env h pkt) (sx_keys_by_addr ctx)
    (sx_keys_by_addr (handle_message env src h pkt authenticated ctx))"
proof -
  have start: "sx_keys_by_addr ctx = sx_keys_by_addr ctx \<and> lookups_fine (sx_lookups ctx)"
    using assms by simp
  have "h_ty h \<noteq> Ping \<Longrightarrow> h_ty h \<noteq> Pong \<Longrightarrow>
      sx_keys_by_addr (handle_message env src h pkt authenticated ctx) = sx_keys_by_addr ctx"
    unfolding handle_message_def
    by (cases "h_ty h") (simp_all add: bound.on_negotiate_inv [OF start] bound.on_find_node_inv [OF start]
        bound.on_find_node_resp_inv [OF start] bound.on_find_value_inv [OF start] bound.on_find_value_resp_inv [OF start]
        bound.on_store_inv [OF start] bound.on_announce_inv [OF start] bound.on_punch_inv [OF start]
        bound.send_error_inv [OF start])
  then show ?thesis
    using on_ping_bound [OF assms, of h env src pkt] on_pong_bound [OF assms, of h env src pkt]
    by (cases "h_ty h = Ping \<or> h_ty h = Pong") (auto simp: handle_message_def binds_signed_def)
qed

lemma handle_cmd_bound:
  assumes "lookups_fine (sx_lookups ctx)"
  shows "sx_keys_by_addr (handle_cmd env cmd ctx) = sx_keys_by_addr ctx
    \<or> (\<exists>info a x. cmd = CmdInjectPeer info \<and> x25519 info = Some x \<and> primary_addr info = Some a
         \<and> sx_keys_by_addr (handle_cmd env cmd ctx) = (sx_keys_by_addr ctx)(a \<mapsto> x))"
proof -
  have start: "sx_keys_by_addr ctx = sx_keys_by_addr ctx \<and> lookups_fine (sx_lookups ctx)"
    using assms by simp
  have pings: "sx_keys_by_addr (foldl (\<lambda>c a. ping env a c) ctx as) = sx_keys_by_addr ctx" for "as"
    by (rule conjunct1 [OF bound.foldl_inv [OF start]]) (rule bound.ping_inv)
  show ?thesis
    by (cases cmd) (auto simp: bound.cmd_put_inv [OF start] bound.cmd_get_inv [OF start] bound.cmd_put_mutable_inv [OF start]
        bound.cmd_announce_inv [OF start] bound.cmd_find_providers_inv [OF start] pings
        cmd_inject_peer_def peers_upsert_def table_insert_def wg_add_peer_def Let_def split: option.splits)
qed

text \<open>
  C9. An address gets a key only on proof or on order. In a shard that was reached from its start, the
  handler of a message changes \<^verbatim>\<open>keys_by_addr\<close> at most for the sender of the datagram, and then the
  message is a \<^verbatim>\<open>PING\<close> or \<^verbatim>\<open>PONG\<close> that carries the key together with an identity key and a signature
  that verifies; a command changes it only to the key and the primary address of an injected peer,
  and a timer not at all.
\<close>

theorem address_keys_signed:
  assumes "shard_new env n ident cfg addr d ck = (bufs, ctx0)" and "shard_run env ctx0 es = Some ctx"
  shows "(sx_keys_by_addr (handle_message env src h pkt authenticated ctx) = sx_keys_by_addr ctx
      \<or> (\<exists>x ed sig. sx_keys_by_addr (handle_message env src h pkt authenticated ctx) = (sx_keys_by_addr ctx)(src \<mapsto> x)
          \<and> length x = 32 \<and> length ed = 32 \<and> verify_binding (en_crypto env) ed x sig \<and> carries_keys env h pkt x ed sig))
    \<and> (sx_keys_by_addr (handle_cmd env cmd ctx) = sx_keys_by_addr ctx
      \<or> (\<exists>info a x. cmd = CmdInjectPeer info \<and> x25519 info = Some x \<and> primary_addr info = Some a
          \<and> sx_keys_by_addr (handle_cmd env cmd ctx) = (sx_keys_by_addr ctx)(a \<mapsto> x)))
    \<and> sx_keys_by_addr (on_timer env kind ctx) = sx_keys_by_addr ctx"
proof -
  have fine: "lookups_fine (sx_lookups ctx)"
    using shard_run_healthy [OF assms] by (simp add: healthy_def)
  then have "sx_keys_by_addr (on_timer env kind ctx) = sx_keys_by_addr ctx"
    by (intro conjunct1 [OF bound.on_timer_inv]) simp
  then show ?thesis
    using handle_message_bound [OF fine, of env src h pkt authenticated] handle_cmd_bound [OF fine, of env cmd]
    unfolding binds_signed_def by blast
qed

theorem address_keys_signed_witness:
  "sx_keys_by_addr (handle_cmd demo_env (CmdInjectPeer demo_peer) demo_shard) (AddrV4 10 0 0 1 4000) = Some (replicate 32 1)
    \<and> (\<exists>info a x. CmdInjectPeer demo_peer = CmdInjectPeer info \<and> x25519 info = Some x \<and> primary_addr info = Some a
        \<and> sx_keys_by_addr (handle_cmd demo_env (CmdInjectPeer demo_peer) demo_shard) = (sx_keys_by_addr demo_shard)(a \<mapsto> x))"
proof -
  obtain bufs where new: "shard_new demo_env 0 demo_identity node_config_default (AddrV4 127 0 0 1 4000) empty_disk
      \<lparr>ck_now = 0, ck_unix = 0, ck_unix_ms = 0\<rparr> = (bufs, demo_shard)"
    by (simp add: demo_shard_def prod_eq_iff)
  have run: "shard_run demo_env demo_shard [] = Some demo_shard" by simp
  have "sx_keys_by_addr demo_shard = Map.empty"
    by (simp add: demo_shard_def shard_new_def split_beta Let_def)
  moreover have key: "sx_keys_by_addr (handle_cmd demo_env (CmdInjectPeer demo_peer) demo_shard) (AddrV4 10 0 0 1 4000)
      = Some (replicate 32 1)"
    by (simp add: cmd_inject_peer_def demo_peer_def peer_info_new_def primary_addr_def try_push_def peers_upsert_def
        table_insert_def wg_add_peer_def Let_def)
  ultimately show ?thesis
    using address_keys_signed [OF new run, of _ _ _ _ "CmdInjectPeer demo_peer"] by force
qed

section \<open>The loop of a shard\<close>

text \<open>The events of one turn, all at the same reading of the clocks.\<close>

definition turn_events :: "clocks \<Rightarrow> (socket_addr \<times> bytes) list \<Rightarrow> shard_cmd list \<Rightarrow> (clocks \<times> shard_event) list" where
  "turn_events ck batch cmds =
     map (\<lambda>(src, pkt). (ck, EvDatagram src pkt)) batch
     @ map (\<lambda>cmd. (ck, EvCommand cmd)) (takeWhile (\<lambda>cmd. cmd \<noteq> CmdShutdown) cmds) @ [(ck, EvTimers)]"

definition clocks_at :: "clocks \<Rightarrow> 't shard_ctx \<Rightarrow> bool" where
  "clocks_at ck ctx = (sx_now ctx = ck_now ck \<and> sx_unix ctx = ck_unix ck \<and> sx_unix_ms ctx = ck_unix_ms ck)"

lemma clocks_at_set: "clocks_at ck (set_clocks ck ctx)" "clocks_at ck ctx \<Longrightarrow> set_clocks ck ctx = ctx"
  by (simp_all add: clocks_at_def set_clocks_def)

lemma clocks_at_fields:
  "clocks_at ck (pending_push dest apps ctx) = clocks_at ck ctx" "clocks_at ck (flush_stores env ctx) = clocks_at ck ctx"
  "clocks_at ck (ctx\<lparr>sx_pool := p\<rparr>) = clocks_at ck ctx" "clocks_at ck (ctx\<lparr>sx_metrics := m\<rparr>) = clocks_at ck ctx"
  "clocks_at ck (ctx\<lparr>sx_next_corr := n\<rparr>) = clocks_at ck ctx" "clocks_at ck (ctx\<lparr>sx_out := os\<rparr>) = clocks_at ck ctx"
  "clocks_at ck (ctx\<lparr>sx_relay := r\<rparr>) = clocks_at ck ctx" "clocks_at ck (ctx\<lparr>sx_wg := w\<rparr>) = clocks_at ck ctx"
  "clocks_at ck (ctx\<lparr>sx_table := t\<rparr>) = clocks_at ck ctx" "clocks_at ck (ctx\<lparr>sx_peers := ps\<rparr>) = clocks_at ck ctx"
  "clocks_at ck (ctx\<lparr>sx_keys_by_addr := kk\<rparr>) = clocks_at ck ctx" "clocks_at ck (ctx\<lparr>sx_endpoints := e\<rparr>) = clocks_at ck ctx"
  "clocks_at ck (ctx\<lparr>sx_mapped := a\<rparr>) = clocks_at ck ctx" "clocks_at ck (ctx\<lparr>sx_punches := pu\<rparr>) = clocks_at ck ctx"
  "clocks_at ck (ctx\<lparr>sx_via_relay := v\<rparr>) = clocks_at ck ctx" "clocks_at ck (ctx\<lparr>sx_timers := h\<rparr>) = clocks_at ck ctx"
  "clocks_at ck (ctx\<lparr>sx_sybil := sy\<rparr>) = clocks_at ck ctx" "clocks_at ck (ctx\<lparr>sx_store := st\<rparr>) = clocks_at ck ctx"
  "clocks_at ck (ctx\<lparr>sx_pending_wg := pw\<rparr>) = clocks_at ck ctx" "clocks_at ck (ctx\<lparr>sx_lookups := l\<rparr>) = clocks_at ck ctx"
  "clocks_at ck (ctx\<lparr>sx_replies := rs\<rparr>) = clocks_at ck ctx"
  by (simp_all add: clocks_at_def pending_push_def flush_stores_def split_beta Let_def)

interpretation timed: ctx_run env "fits env" "\<lambda>a. length a \<le> PMTU_FLOOR"
    "\<lambda>ctx. healthy env (bound_key (en_crypto env) X) i ctx \<and> clocks_at ck ctx"
    "bound_key (en_crypto env) X"
  for env :: "'t shard_env" and X and i and ck
  by unfold_locales
    (auto simp: clocks_at_fields intro: health.updates dest: health.fine health.queued)

lemma run_append: "shard_run env ctx (es @ fs) = Option.bind (shard_run env ctx es) (\<lambda>c. shard_run env c fs)"
  by (induction es arbitrary: ctx) (auto split: bind_split)

lemma receive_batch_run:
  assumes "healthy env (bound_key (en_crypto env) X) i ctx" "clocks_at ck ctx"
  shows "receive_batch env ctx batch = shard_run env ctx (map (\<lambda>(src, pkt). (ck, EvDatagram src pkt)) batch)"
  using assms
proof (induction batch arbitrary: ctx)
  case (Cons d batch)
  then have "receive_batch env ctx1 batch = shard_run env ctx1 (map (\<lambda>(src, pkt). (ck, EvDatagram src pkt)) batch)"
    if "receive env ctx d = Some ctx1" for ctx1
    using timed.receive_inv [OF that] by blast
  then show ?case
    using clocks_at_set(2) [OF Cons.prems(2)] by (cases "receive env ctx d"; cases d) auto
qed simp

lemma run_cmds_run:
  assumes "healthy env (bound_key (en_crypto env) X) i ctx" "clocks_at ck ctx" "list_all (command_ok (bound_key (en_crypto env) X)) cmds"
  shows "Some (snd (run_cmds env cmds ctx))
    = shard_run env ctx (map (\<lambda>cmd. (ck, EvCommand cmd)) (takeWhile (\<lambda>cmd. cmd \<noteq> CmdShutdown) cmds))"
  using assms
proof (induction cmds arbitrary: ctx)
  case (Cons cmd cmds)
  then show ?case
    using clocks_at_set(2) [OF Cons.prems(2)] timed.handle_cmd_inv [of env X i ctx ck cmd] by auto
qed simp

lemma run_cmds_flag: "fst (run_cmds env cmds ctx) = (CmdShutdown \<notin> set cmds)"
  by (induction cmds arbitrary: ctx) auto


text \<open>
  A turn of the loop is a run of events: the datagrams that were ready, the commands at the head of
  the queue up to a shutdown, at most 32 of them, and then the timers, all at one reading of the
  clocks. Commands that were drained behind a shutdown are lost.
\<close>

lemma turn_run:
  assumes "shard_new env n ident cfg addr d ck0 = (bufs, ctx0)" and "shard_run env ctx0 es = Some ctx"
  shows "shard_turn env ck batch rx ctx
    = map_option (\<lambda>ctx'. (CmdShutdown \<notin> set (take DRAIN_BATCH rx), drop DRAIN_BATCH rx, ctx'))
        (shard_run env ctx (turn_events ck batch (take DRAIN_BATCH rx)))"
proof -
  let ?cmds = "take DRAIN_BATCH rx"
  let ?ds = "map (\<lambda>(src, pkt). (ck, EvDatagram src pkt)) batch"
  let ?cs = "map (\<lambda>cmd. (ck, EvCommand cmd)) (takeWhile (\<lambda>cmd. cmd \<noteq> CmdShutdown) ?cmds)"
  let ?I = "\<lambda>ctx. healthy env (bound_key (en_crypto env) UNIV) (identity_node_id (en_crypto env) ident) ctx \<and> clocks_at ck ctx"
  have h: "?I (set_clocks ck ctx)"
    using health.clock [OF shard_run_healthy [OF assms], of ck] by (simp add: clocks_at_set(1))
  have start: "shard_run env ctx (turn_events ck batch ?cmds)
      = shard_run env (set_clocks ck ctx) (turn_events ck batch ?cmds)"
    by (cases batch; cases "takeWhile (\<lambda>cmd. cmd \<noteq> CmdShutdown) ?cmds")
      (auto simp: turn_events_def set_clocks_def)
  have rb: "receive_batch env (set_clocks ck ctx) batch = shard_run env (set_clocks ck ctx) ?ds"
    using h by (intro receive_batch_run) blast+
  show ?thesis
  proof (cases "shard_run env (set_clocks ck ctx) ?ds")
    case None
    then show ?thesis
      using rb by (simp add: start) (simp add: shard_turn_def turn_events_def run_append)
  next
    case (Some ctx1)
    then have b: "receive_batch env (set_clocks ck ctx) batch = Some ctx1"
      using rb by simp
    have h1: "?I ctx1"
      using timed.receive_batch_inv [OF b h] .
    let ?c2 = "snd (run_cmds env ?cmds ctx1)"
    have c: "shard_run env ctx1 ?cs = Some ?c2"
      using h1 by (intro run_cmds_run [symmetric]) (auto simp: list_all_iff command_ok_any)
    have "?I ?c2"
      by (intro timed.run_cmds_inv h1) (simp add: list_all_iff command_ok_any)
    then have "set_clocks ck ?c2 = ?c2"
      by (simp add: clocks_at_set(2))
    then show ?thesis
      using Some b c by (simp add: start)
        (simp add: shard_turn_def turn_events_def run_append drain_cmds_eq run_cmds_flag split_beta Let_def)
  qed
qed

end
