(* ===== verification/Udp.thy ===== *)
theory Udp
  imports Shard_Health
begin

text \<open>
  The socket of a shard (\<^verbatim>\<open>udp.rs\<close>), polling it (\<^verbatim>\<open>event_loop.rs\<close>) and the part of the shard's loop
  that reads it. What the calls to the operating system return is an argument: the outcomes of
  the calls that set the socket up, and the sequence of outcomes of \<^verbatim>\<open>recv_from\<close>.
\<close>

section \<open>Binding\<close>

datatype sock_domain = DomainV4 | DomainV6

datatype sock_call = NewSocket sock_domain | SetReuseAddress | SetReusePort | SetNonblocking | BindTo socket_addr | LocalAddr

fun is_ipv4 :: "socket_addr \<Rightarrow> bool" where
  "is_ipv4 (AddrV4 a b c d p) = True"
| "is_ipv4 (AddrV6 o6 p f s) = False"

text \<open>The calls are made in turn until one fails; the result has the calls that were made.\<close>

fun try_calls :: "(sock_call \<Rightarrow> bool) \<Rightarrow> sock_call list \<Rightarrow> bool \<times> sock_call list" where
  "try_calls ok [] = (True, [])"
| "try_calls ok (c # cs) = (if ok c then let (r, made) = try_calls ok cs in (r, c # made) else (False, [c]))"

definition udp_bind :: "(sock_call \<Rightarrow> bool) \<Rightarrow> (socket_addr \<Rightarrow> socket_addr) \<Rightarrow> socket_addr \<Rightarrow> socket_addr option \<times> sock_call list" where
  "udp_bind ok bound addr =
     (let domain = (if is_ipv4 addr then DomainV4 else DomainV6);
          (r, made) = try_calls ok [NewSocket domain, SetReuseAddress, SetReusePort, SetNonblocking, BindTo addr, LocalAddr]
      in (if r then Some (bound addr) else None, made))"

section \<open>Receiving\<close>

definition BATCH :: nat where "BATCH = 64"

datatype recv_event = Datagram socket_addr bytes | RecvWouldBlock | RecvError

definition grow :: "vec_u8 \<Rightarrow> vec_u8" where
  "grow b = (if length (vec_data b) < 2048 then vec_resize 2048 b else b)"

text \<open>\<^verbatim>\<open>recv_from\<close> copies what fits the buffer and discards the rest of the datagram.\<close>

definition fill :: "bytes \<Rightarrow> vec_u8 \<Rightarrow> nat \<times> vec_u8" where
  "fill d b = (let n = min (length d) (length (vec_data b)) in (n, b\<lparr>vec_data := take n d @ drop n (vec_data b)\<rparr>))"

text \<open>A socket of which no outcome is left has nothing to read, so that the call would block.\<close>

fun recv_loop ::
    "(nat \<times> socket_addr) list \<Rightarrow> vec_u8 list \<Rightarrow> recv_event list
      \<Rightarrow> (nat \<times> socket_addr) list option \<times> vec_u8 list \<times> recv_event list" where
  "recv_loop out [] evs = (Some out, [], evs)"
| "recv_loop out (b # bufs) [] = (Some out, grow b # bufs, [])"
| "recv_loop out (b # bufs) (Datagram src d # evs) =
     (let (n, b') = fill d (grow b); (r, bs, evs') = recv_loop (try_push BATCH out (n, src)) bufs evs
      in (r, b' # bs, evs'))"
| "recv_loop out (b # bufs) (RecvWouldBlock # evs) = (Some out, grow b # bufs, evs)"
| "recv_loop out (b # bufs) (RecvError # evs) = (None, grow b # bufs, evs)"

definition recv_batch ::
    "vec_u8 list \<Rightarrow> recv_event list \<Rightarrow> (nat \<times> socket_addr) list option \<times> vec_u8 list \<times> recv_event list" where
  "recv_batch bufs evs =
     (let (r, bs, evs') = recv_loop [] (take BATCH bufs) evs in (r, bs @ drop BATCH bufs, evs'))"

section \<open>Polling\<close>

definition wait_readable :: "(nat \<times> bool) list \<Rightarrow> bool" where
  "wait_readable events = list_ex (\<lambda>(key, readable). key = 0 \<and> readable) events"

definition loop_timeout :: "instant \<Rightarrow> timing_wheel \<Rightarrow> nat" where
  "loop_timeout now timers = (case next_timeout now timers of Some d \<Rightarrow> d | None \<Rightarrow> millis 50)"

section \<open>The loop of a shard on its socket\<close>

text \<open>The datagrams of a batch, each read from the buffer with its number.\<close>

definition batch_datagrams :: "vec_u8 list \<Rightarrow> (nat \<times> socket_addr) list \<Rightarrow> (socket_addr \<times> bytes) list" where
  "batch_datagrams bufs batch = map (\<lambda>(i, n, src). (src, take n (vec_data (bufs ! i)))) (enumerate 0 batch)"

definition read_socket :: "vec_u8 list \<Rightarrow> recv_event list \<Rightarrow> (socket_addr \<times> bytes) list \<times> vec_u8 list \<times> recv_event list" where
  "read_socket bufs evs =
     (case recv_batch bufs evs of
        (Some batch, bs, evs') \<Rightarrow> (batch_datagrams bs batch, bs, evs')
      | (None, bs, evs') \<Rightarrow> ([], bs, evs'))"

definition socket_turn ::
    "'t shard_env \<Rightarrow> clocks \<Rightarrow> (nat \<times> bool) list \<Rightarrow> recv_event list \<Rightarrow> vec_u8 list \<Rightarrow> shard_cmd list \<Rightarrow> 't shard_ctx
      \<Rightarrow> (bool \<times> shard_cmd list \<times> 't shard_ctx \<times> vec_u8 list \<times> recv_event list) option" where
  "socket_turn env c events evs bufs rx ctx =
     (let (batch, bs, evs') = (if wait_readable events then read_socket bufs evs else ([], bufs, evs))
      in map_option (\<lambda>(run, rx', ctx'). (run, rx', ctx', bs, evs')) (shard_turn env c batch rx ctx))"

section \<open>Lemmas\<close>

text \<open>The receive buffers of a shard.\<close>

definition bufs_ok :: "vec_u8 list \<Rightarrow> bool" where
  "bufs_ok bufs = (length bufs \<le> BATCH \<and> (\<forall>b \<in> set bufs. length (vec_data b) = 2048))"

lemma grow_ok [simp]: "length (vec_data b) = 2048 \<Longrightarrow> grow b = b"
  by (simp add: grow_def)

lemma fill_ok:
  assumes "length (vec_data b) = 2048"
  shows "length (vec_data (snd (fill d b))) = 2048" "take (fst (fill d b)) (vec_data (snd (fill d b))) = take 2048 d"
  using assms by (auto simp: fill_def Let_def min_def)

text \<open>
  Datagrams as long as there are buffers: each in a buffer of its own, in their order.
\<close>

abbreviation read_one :: "vec_u8 \<times> nat \<times> socket_addr \<Rightarrow> socket_addr \<times> bytes" where
  "read_one z \<equiv> (snd (snd z), take (fst (snd z)) (vec_data (fst z)))"

lemma recv_loop_datagrams:
  assumes "\<forall>b \<in> set (bufs1 @ bufs2). length (vec_data b) = 2048" "length ds = length bufs1" "length out + length ds \<le> BATCH"
  shows "\<exists>bs ns. recv_loop out (bufs1 @ bufs2) (map (\<lambda>x. Datagram (fst x) (snd x)) ds @ evs)
      = (let (r, bs', evs') = recv_loop (out @ ns) bufs2 evs in (r, bs @ bs', evs'))
    \<and> length bs = length ds \<and> length ns = length ds \<and> (\<forall>b \<in> set bs. length (vec_data b) = 2048)
    \<and> map read_one (zip bs ns) = map (\<lambda>x. (fst x, take 2048 (snd x))) ds"
  using assms
proof (induction bufs1 arbitrary: ds out)
  case Nil
  then show ?case by simp
next
  case (Cons b bufs1)
  obtain s d ds' where ds: "ds = (s, d) # ds'"
    using Cons.prems(2) by (cases ds) auto
  let ?f = "fill d b"
  have b: "length (vec_data b) = 2048"
    using Cons.prems(1) by simp
  have push: "try_push BATCH out (fst ?f, s) = out @ [(fst ?f, s)]"
    using Cons.prems(3) ds by (simp add: try_push_def)
  obtain bs ns where ih: "recv_loop (out @ [(fst ?f, s)]) (bufs1 @ bufs2) (map (\<lambda>x. Datagram (fst x) (snd x)) ds' @ evs)
      = (let (r, bs', evs') = recv_loop ((out @ [(fst ?f, s)]) @ ns) bufs2 evs in (r, bs @ bs', evs'))"
      "length bs = length ds'" "length ns = length ds'" "\<forall>b \<in> set bs. length (vec_data b) = 2048"
      "map read_one (zip bs ns) = map (\<lambda>x. (fst x, take 2048 (snd x))) ds'"
    using Cons.IH [of ds' "out @ [(fst ?f, s)]"] Cons.prems ds by auto
  show ?case
    by (rule exI [of _ "snd ?f # bs"], rule exI [of _ "(fst ?f, s) # ns"])
      (use ih b push fill_ok [OF b, of d] in \<open>simp add: ds split_beta Let_def\<close>)
qed

lemma batch_datagrams_zip:
  "length ns \<le> length bs \<Longrightarrow> batch_datagrams (bs @ bs') ns = map read_one (zip (take (length ns) bs) ns)"
  by (rule nth_equalityI) (auto simp: batch_datagrams_def nth_enumerate_eq split_beta nth_append)

lemma recv_batch_datagrams:
  assumes "bufs_ok bufs" "length ds \<le> length bufs"
  shows "\<exists>bs ns. recv_batch bufs (map (\<lambda>x. Datagram (fst x) (snd x)) ds @ evs)
      = (let (r, bs', evs') = recv_loop ns (drop (length ds) bufs) evs in (r, bs @ bs', evs'))
    \<and> length bs = length ds \<and> (\<forall>b \<in> set bs. length (vec_data b) = 2048)
    \<and> (\<forall>bs'. batch_datagrams (bs @ bs') ns = map (\<lambda>x. (fst x, take 2048 (snd x))) ds)"
proof -
  have "take BATCH bufs = bufs" "length ds \<le> BATCH" and data: "\<forall>b \<in> set bufs. length (vec_data b) = 2048"
    using assms by (auto simp: bufs_ok_def)
  then obtain bs ns where
      "recv_loop [] bufs (map (\<lambda>x. Datagram (fst x) (snd x)) ds @ evs)
        = (let (r, bs', evs') = recv_loop ns (drop (length ds) bufs) evs in (r, bs @ bs', evs'))"
      "length bs = length ds" "length ns = length ds" "\<forall>b \<in> set bs. length (vec_data b) = 2048"
      "map read_one (zip bs ns) = map (\<lambda>x. (fst x, take 2048 (snd x))) ds"
    using recv_loop_datagrams [of "take (length ds) bufs" "drop (length ds) bufs" ds "[]" evs] assms(2) by auto
  then show ?thesis
    using \<open>take BATCH bufs = bufs\<close> assms(1)
    by (intro exI [of _ bs] exI [of _ ns])
      (simp add: recv_batch_def batch_datagrams_zip bufs_ok_def split_beta Let_def)
qed

lemma bufs_ok_parts:
  "bufs_ok bufs \<Longrightarrow> n \<le> length bufs \<Longrightarrow> length bs = n \<Longrightarrow> \<forall>b \<in> set bs. length (vec_data b) = 2048
    \<Longrightarrow> bufs_ok (bs @ drop n bufs) \<and> length (bs @ drop n bufs) = length bufs"
  by (auto simp: bufs_ok_def dest: in_set_dropD)

section \<open>What a shard gets from its socket\<close>

lemma read_socket_exact:
  assumes "bufs_ok bufs" and "evs = map (\<lambda>x. Datagram (fst x) (snd x)) ds @ rest" and "length ds \<le> length bufs"
    and "read_socket bufs evs = (batch, bufs', evs')"
    and "length ds = length bufs \<or> rest = [] \<or> hd rest = RecvWouldBlock \<or> hd rest = RecvError"
  shows "bufs_ok bufs' \<and> length bufs' = length bufs
    \<and> (if length ds < length bufs \<and> rest \<noteq> [] \<and> hd rest = RecvError then batch = []
       else batch = map (\<lambda>x. (fst x, take 2048 (snd x))) ds)
    \<and> evs' = (if length ds < length bufs then tl rest else rest)"
proof -
  let ?got = "map (\<lambda>x. (fst x, take 2048 (snd x))) ds"
  obtain bs ns where r: "recv_batch bufs evs
      = (let (r, bs', evs') = recv_loop ns (drop (length ds) bufs) rest in (r, bs @ bs', evs'))"
    and bs: "length bs = length ds" "\<forall>b \<in> set bs. length (vec_data b) = 2048"
    and got: "\<And>bs'. batch_datagrams (bs @ bs') ns = ?got"
    using recv_batch_datagrams [OF assms(1,3), of rest] by (auto simp: assms(2))
  have ok: "bufs_ok (bs @ drop (length ds) bufs) \<and> length (bs @ drop (length ds) bufs) = length bufs"
    using bufs_ok_parts [OF assms(1,3) bs] .
  show ?thesis
  proof (cases "drop (length ds) bufs")
    case Nil
    then show ?thesis
      using assms(3,4) r ok got [of "[]"] by (auto simp: read_socket_def)
  next
    case (Cons b more)
    have "b \<in> set bufs" and full: "length ds \<noteq> length bufs"
      using in_set_dropD [of b "length ds" bufs] Cons by auto
    then have b: "grow b = b"
      using assms(1) by (auto simp: bufs_ok_def)
    have "bufs' = bs @ b # more \<and> batch = ?got \<and> evs' = tl rest"
      if "rest = [] \<or> hd rest = RecvWouldBlock"
      using that assms(4) r got b Cons by (cases rest) (auto simp: read_socket_def)
    moreover have "bufs' = bs @ b # more \<and> batch = [] \<and> evs' = tl rest" if "rest \<noteq> [] \<and> hd rest = RecvError"
      using that assms(4) r b Cons by (cases rest) (auto simp: read_socket_def)
    ultimately show ?thesis
      using ok full Cons assms(5) by auto
  qed
qed

lemma take_bufs_ok: "length (fst (take_bufs n p)) = n \<and> (\<forall>b \<in> set (fst (take_bufs n p)). length (vec_data b) = 2048)"
  by (induction n arbitrary: p)
    (simp_all add: split_beta Let_def pool_take_def vec_resize_def vec_clear_def vec_zeroed_def BUFFER_SIZE_def)

lemma shard_new_bufs_ok: "shard_new env i ident cfg addr d c = (bufs, ctx) \<Longrightarrow> bufs_ok bufs \<and> length bufs = 32"
  using take_bufs_ok [of 32 pool_new] by (auto simp: shard_new_def bufs_ok_def BATCH_def split_beta Let_def)

text \<open>
  C23. A shard reads its socket faithfully: of the datagrams that are ready it gets the first ones, as
  many as it has buffers, in their order, and those that fit a buffer in full; the others stay in
  the socket for the next turn. The turn is otherwise the one on these datagrams. The exception is an error after some of the datagrams: these are
  then lost, although they were received.
\<close>

theorem socket_turn_spec:
  assumes "bufs_ok bufs" and "evs = map (\<lambda>x. Datagram (fst x) (snd x)) ds @ rest" and "length ds \<le> length bufs"
    and "length ds = length bufs \<or> rest = [] \<or> hd rest = RecvWouldBlock \<or> hd rest = RecvError"
    and "wait_readable events" and "lost = (length ds < length bufs \<and> rest \<noteq> [] \<and> hd rest = RecvError)"
  shows "\<exists>bufs'. bufs_ok bufs' \<and> length bufs' = length bufs
    \<and> socket_turn env c events evs bufs rx ctx
      = map_option (\<lambda>(run, rx', ctx'). (run, rx', ctx', bufs', if length ds < length bufs then tl rest else rest))
          (shard_turn env c (if lost then [] else map (\<lambda>x. (fst x, take 2048 (snd x))) ds) rx ctx)"
proof -
  obtain batch bufs' evs' where r: "read_socket bufs evs = (batch, bufs', evs')"
    by (rule prod_cases3)
  from read_socket_exact [OF assms(1-3) this assms(4)] show ?thesis
    using assms(5,6) r by (intro exI [of _ bufs']) (auto simp: socket_turn_def)
qed

theorem socket_turn_spec_witness:
  "\<exists>bufs' bufs''. let bufs = replicate 32 (vec_zeroed 2048); a = AddrV4 10 0 0 1 4000; c = demo_ck 10
   in socket_turn demo_env c [(0, True)] [Datagram a [1, 2, 3], Datagram a [4], RecvWouldBlock] bufs [] demo_shard
        = map_option (\<lambda>(run, rx', ctx'). (run, rx', ctx', bufs', [])) (shard_turn demo_env c [(a, [1, 2, 3]), (a, [4])] [] demo_shard)
     \<and> socket_turn demo_env c [(0, True)] [Datagram a [1, 2, 3], Datagram a [4], RecvError] bufs [] demo_shard
        = map_option (\<lambda>(run, rx', ctx'). (run, rx', ctx', bufs'', [])) (shard_turn demo_env c [] [] demo_shard)"
proof -
  let ?bufs = "replicate 32 (vec_zeroed 2048)" and ?a = "AddrV4 10 0 0 1 4000"
  have ok: "bufs_ok ?bufs"
    by (simp add: bufs_ok_def BATCH_def vec_zeroed_def)
  show ?thesis
    using socket_turn_spec [OF ok, of _ "[(?a, [1, 2, 3]), (?a, [4])]" "[RecvWouldBlock]" "[(0, True)]" False demo_env "demo_ck 10" "[]" demo_shard]
      socket_turn_spec [OF ok, of _ "[(?a, [1, 2, 3]), (?a, [4])]" "[RecvError]" "[(0, True)]" True demo_env "demo_ck 10" "[]" demo_shard]
    by (simp add: wait_readable_def Let_def) blast
qed

end
