(* ===== verification/Webrtc.thy ===== *)
theory Webrtc
  imports Codec Rust_Text Prelude
begin

text \<open>
  The WebRTC gateway (\<^verbatim>\<open>webrtc.rs\<close>, \<^verbatim>\<open>ice_rtc.rs\<close>): messages on a data channel, the HTTP server with its
  rooms for signalling, and the bridge to the UDP node. A string is its UTF-8 bytes. What the
  connections and sockets deliver is an argument, as are the JSON parser and the SDP, ICE, DTLS and
  SCTP engine, which are libraries.
\<close>

section \<open>Messages on a data channel\<close>

definition WEBRTC_KIND :: bytes where "WEBRTC_KIND = of_chars ''webrtc''"
definition WEBRTC_CHANNEL :: bytes where "WEBRTC_CHANNEL = of_chars ''molia''"
definition DEFAULT_GATEWAY :: bytes where "DEFAULT_GATEWAY = of_chars ''127.0.0.1:9080''"

definition webrtc_multiaddr :: "bytes \<Rightarrow> bytes" where
  "webrtc_multiaddr hint = of_chars ''/'' @ WEBRTC_KIND @ of_chars ''/'' @ hint"

definition frame_rpc :: "bytes \<Rightarrow> (header \<times> bytes) option" where
  "frame_rpc datagram = map_option (\<lambda>h. (h, drop HEADER_LEN datagram)) (header_decode datagram)"

definition accept_rpc :: "bytes \<Rightarrow> bool" where
  "accept_rpc datagram = (header_decode datagram \<noteq> None)"

datatype signal_kind = SignalOffer | SignalAnswer | SignalIce

record signal =
  sg_room :: bytes
  sg_from :: bytes
  sg_kind :: signal_kind
  sg_body :: bytes

text \<open>
  \<^verbatim>\<open>dc_pair\<close>: two endpoints, each the sender of one queue and the receiver of the other. An endpoint is
  alive until it is dropped; sending to one that is not, and receiving from an empty queue, fail.
\<close>

datatype dc_side = SideA | SideB

record dc_channel =
  dc_to :: "dc_side \<Rightarrow> bytes list"
  dc_alive :: "dc_side \<Rightarrow> bool"

fun dc_other :: "dc_side \<Rightarrow> dc_side" where
  "dc_other SideA = SideB"
| "dc_other SideB = SideA"

definition dc_pair :: dc_channel where
  "dc_pair = \<lparr>dc_to = (\<lambda>_. []), dc_alive = (\<lambda>_. True)\<rparr>"

definition dc_send :: "dc_side \<Rightarrow> bytes \<Rightarrow> dc_channel \<Rightarrow> dc_channel option" where
  "dc_send s msg c =
     (let p = dc_other s in if dc_alive c p then Some (c\<lparr>dc_to := (dc_to c)(p := dc_to c p @ [msg])\<rparr>) else None)"

datatype dc_recv_error = DcTimeout | DcDisconnected

definition dc_recv :: "dc_side \<Rightarrow> dc_channel \<Rightarrow> (dc_recv_error + bytes) \<times> dc_channel" where
  "dc_recv s c =
     (case dc_to c s of
        m # ms \<Rightarrow> (Inr m, c\<lparr>dc_to := (dc_to c)(s := ms)\<rparr>)
      | [] \<Rightarrow> (Inl (if dc_alive c (dc_other s) then DcTimeout else DcDisconnected), c))"

section \<open>The bridge to the node\<close>

text \<open>
  What \<^verbatim>\<open>accept_rpc_to_node\<close> sees of its socket: whether it can be set up and the datagram be sent, and
  for each round of the loop the time at its start and what \<^verbatim>\<open>recv_from\<close> gives.
\<close>

datatype udp_recv = UdpGot bytes | UdpTimedOut | UdpWouldBlock | UdpFailed

fun await_reply :: "instant \<Rightarrow> u32 \<Rightarrow> (instant \<times> udp_recv) list \<Rightarrow> bytes option" where
  "await_reply deadline want [] = None"
| "await_reply deadline want ((now, r) # rounds) =
     (if \<not> now < deadline then None
      else case r of
          UdpGot d \<Rightarrow>
            (let d' = take 2048 d
             in case header_decode d' of
                  Some h \<Rightarrow> if h_correlation h = want then Some d' else await_reply deadline want rounds
                | None \<Rightarrow> await_reply deadline want rounds)
        | UdpTimedOut \<Rightarrow> None
        | UdpWouldBlock \<Rightarrow> await_reply deadline want rounds
        | UdpFailed \<Rightarrow> None)"

record rpc_socket =
  rs_set_up :: bool
  rs_sent :: bool
  rs_start :: instant
  rs_rounds :: "(instant \<times> udp_recv) list"

definition accept_rpc_to_node :: "rpc_socket \<Rightarrow> bytes \<Rightarrow> bytes option" where
  "accept_rpc_to_node sock datagram =
     (case header_decode datagram of
        None \<Rightarrow> None
      | Some h \<Rightarrow>
          if rs_set_up sock \<and> rs_sent sock
          then await_reply (rs_start sock + millis 1500) (h_correlation h) (rs_rounds sock) else None)"

section \<open>Rooms\<close>

record room =
  room_offer :: bytes
  room_answer :: bytes
  ice_offerer :: "bytes list"
  ice_answerer :: "bytes list"

definition room_default :: room where
  "room_default = \<lparr>room_offer = [], room_answer = [], ice_offerer = [], ice_answerer = []\<rparr>"

type_synonym rooms = "bytes \<rightharpoonup> room"

record http_resp =
  rsp_status :: u16
  rsp_ctype :: bytes
  rsp_body :: bytes

definition plain_text :: bytes where "plain_text = of_chars ''text/plain''"
definition utf8_text :: bytes where "utf8_text = of_chars ''text/plain; charset=utf-8''"

definition no_content :: http_resp where
  "no_content = \<lparr>rsp_status = 204, rsp_ctype = plain_text, rsp_body = []\<rparr>"

definition http_error :: "u16 \<Rightarrow> string \<Rightarrow> http_resp" where
  "http_error status msg = \<lparr>rsp_status = status, rsp_ctype = plain_text, rsp_body = of_chars msg\<rparr>"

definition entry_or_default :: "bytes \<Rightarrow> rooms \<Rightarrow> room" where
  "entry_or_default name g = (case g name of Some r \<Rightarrow> r | None \<Rightarrow> room_default)"

text \<open>
  \<^verbatim>\<open>take_text\<close> looks at the room again and again, until there is a text or 15 seconds have passed; one
  look, at the time \<open>now\<close>.
\<close>

definition take_text_once :: "(room \<Rightarrow> bytes) \<Rightarrow> bytes \<Rightarrow> instant \<Rightarrow> instant \<Rightarrow> rooms \<Rightarrow> http_resp option" where
  "take_text_once f name deadline now g =
     (let s = (case g name of Some r \<Rightarrow> f r | None \<Rightarrow> [])
      in if s \<noteq> [] then Some \<lparr>rsp_status = 200, rsp_ctype = utf8_text, rsp_body = s\<rparr>
         else if deadline \<le> now then Some no_content else None)"

fun take_text :: "(room \<Rightarrow> bytes) \<Rightarrow> bytes \<Rightarrow> instant \<Rightarrow> (instant \<times> rooms) list \<Rightarrow> http_resp option" where
  "take_text f name deadline [] = None"
| "take_text f name deadline ((now, g) # looks) =
     (case take_text_once f name deadline now g of
        Some r \<Rightarrow> Some r
      | None \<Rightarrow> take_text f name deadline looks)"

text \<open>What a request for a room leads to: a response, or looking for a text of the room.\<close>

datatype text_field = OfferText | AnswerText

fun field_of :: "text_field \<Rightarrow> room \<Rightarrow> bytes" where
  "field_of OfferText r = room_offer r"
| "field_of AnswerText r = room_answer r"

datatype routed = Respond http_resp | TakeText bytes text_field

definition path_parts :: "bytes \<Rightarrow> bytes list" where
  "path_parts path = split_byte 47 (dropWhile (\<lambda>b. b = 47) path)"

definition nth_part :: "nat \<Rightarrow> bytes list \<Rightarrow> bytes option" where
  "nth_part i parts = (if i < length parts then Some (parts ! i) else None)"

definition put_offer :: "bytes \<Rightarrow> bytes \<Rightarrow> rooms \<Rightarrow> rooms" where
  "put_offer name body g =
     g(name \<mapsto> (entry_or_default name g)\<lparr>room_offer := from_utf8_lossy body, room_answer := [], ice_offerer := [], ice_answerer := []\<rparr>)"

definition put_answer :: "bytes \<Rightarrow> bytes \<Rightarrow> rooms \<Rightarrow> rooms" where
  "put_answer name body g = g(name \<mapsto> (entry_or_default name g)\<lparr>room_answer := from_utf8_lossy body\<rparr>)"

definition post_ice :: "bytes \<Rightarrow> bytes \<Rightarrow> bytes \<Rightarrow> rooms \<Rightarrow> http_resp \<times> rooms" where
  "post_ice name side body g =
     (let r = entry_or_default name g; line = from_utf8_lossy body
      in if side = of_chars ''offerer'' then (no_content, g(name \<mapsto> r\<lparr>ice_offerer := ice_offerer r @ [line]\<rparr>))
         else if side = of_chars ''answerer'' then (no_content, g(name \<mapsto> r\<lparr>ice_answerer := ice_answerer r @ [line]\<rparr>))
         else (http_error 404 ''ice side'', g(name \<mapsto> r)))"

definition get_ice :: "bytes \<Rightarrow> bytes \<Rightarrow> rooms \<Rightarrow> http_resp" where
  "get_ice name side g =
     (case g name of
        None \<Rightarrow> no_content
      | Some r \<Rightarrow>
          if side = of_chars ''offerer'' then \<lparr>rsp_status = 200, rsp_ctype = utf8_text, rsp_body = join [10] (ice_offerer r)\<rparr>
          else if side = of_chars ''answerer'' then \<lparr>rsp_status = 200, rsp_ctype = utf8_text, rsp_body = join [10] (ice_answerer r)\<rparr>
          else http_error 404 ''ice side'')"

definition route_room :: "bytes \<Rightarrow> bytes \<Rightarrow> bytes \<Rightarrow> rooms \<Rightarrow> routed \<times> rooms" where
  "route_room meth path body g =
     (let parts = path_parts path
      in if nth_part 0 parts \<noteq> Some (of_chars ''room'') \<or> length parts < 2 then (Respond (http_error 404 ''not found''), g)
         else let name = parts ! 1; what = nth_part 2 parts; side = nth_part 3 parts
           in if meth = of_chars ''DELETE'' \<and> what = None \<and> side = None then (Respond no_content, g(name := None))
              else if meth = of_chars ''PUT'' \<and> what = Some (of_chars ''offer'') \<and> side = None
                then (Respond no_content, put_offer name body g)
              else if meth = of_chars ''PUT'' \<and> what = Some (of_chars ''answer'') \<and> side = None
                then (Respond no_content, put_answer name body g)
              else if meth = of_chars ''GET'' \<and> what = Some (of_chars ''offer'') \<and> side = None then (TakeText name OfferText, g)
              else if meth = of_chars ''GET'' \<and> what = Some (of_chars ''answer'') \<and> side = None then (TakeText name AnswerText, g)
              else if meth = of_chars ''POST'' \<and> what = Some (of_chars ''ice'') \<and> side \<noteq> None
                then let (r, g') = post_ice name (the side) body g in (Respond r, g')
              else if meth = of_chars ''GET'' \<and> what = Some (of_chars ''ice'') \<and> side \<noteq> None
                then (Respond (get_ice name (the side) g), g)
              else (Respond (http_error 404 ''not found''), g))"

section \<open>Offers\<close>

definition offer_sdp :: "(bytes \<Rightarrow> bytes option) \<Rightarrow> bytes \<Rightarrow> bytes" where
  "offer_sdp json_sdp body =
     (let t = trim body
      in if starts_with (of_chars ''v='') t then t
         else case json_sdp t of Some s \<Rightarrow> s | None \<Rightarrow> t)"

text \<open>
  The engine: parsing an offer, making a candidate, and accepting an offer with the candidates. An
  error is its text.
\<close>

record ('o, 'c) rtc_lib =
  sdp_from_string :: "bytes \<Rightarrow> bytes + 'o"
  candidate_host :: "socket_addr \<Rightarrow> bytes + 'c"
  sdp_accept :: "'c list \<Rightarrow> 'o \<Rightarrow> bytes + bytes"

text \<open>
  What the operating system gives: the port of the new socket, the address of the interface towards
  the internet, and whether the thread that drives the session was started.
\<close>

record rtc_os =
  ro_port :: "bytes + u16"
  ro_probe :: "ip_addr option"
  ro_spawn :: "bytes + unit"

definition advertise_hosts :: "ip_addr option \<Rightarrow> u16 \<Rightarrow> socket_addr list" where
  "advertise_hosts probe port =
     (let out = [AddrV4 127 0 0 1 port]
      in case probe of
           None \<Rightarrow> out
         | Some ip \<Rightarrow> let host = socket_addr_new ip port in if host \<in> set out then out else out @ [host])"

definition and_try :: "'e + 'a \<Rightarrow> ('a \<Rightarrow> 'e + 'b) \<Rightarrow> 'e + 'b" where
  "and_try r f = (case r of Inl e \<Rightarrow> Inl e | Inr x \<Rightarrow> f x)"

definition map_err :: "string \<Rightarrow> bytes + 'a \<Rightarrow> bytes + 'a" where
  "map_err prefix r = (case r of Inl e \<Rightarrow> Inl (of_chars prefix @ e) | Inr x \<Rightarrow> Inr x)"

fun try_all :: "('a \<Rightarrow> 'e + 'b) \<Rightarrow> 'a list \<Rightarrow> 'e + 'b list" where
  "try_all f [] = Inr []"
| "try_all f (x # xs) = and_try (f x) (\<lambda>y. and_try (try_all f xs) (\<lambda>ys. Inr (y # ys)))"

definition accept_offer :: "('o, 'c) rtc_lib \<Rightarrow> rtc_os \<Rightarrow> bytes \<Rightarrow> bytes + bytes" where
  "accept_offer lib os sdp =
     and_try (map_err ''sdp offer: '' (sdp_from_string lib (trim sdp))) (\<lambda>offer.
     and_try (ro_port os) (\<lambda>port.
     and_try (try_all (candidate_host lib) (advertise_hosts (ro_probe os) port)) (\<lambda>cands.
     and_try (map_err ''accept offer: '' (sdp_accept lib cands offer)) (\<lambda>answer.
     and_try (ro_spawn os) (\<lambda>_. Inr answer)))))"

section \<open>Driving a session\<close>

text \<open>
  What \<^verbatim>\<open>poll_output\<close> gives, one output after the other. The state is the channel that is open; what the
  loop does is a list of datagrams it sends and messages it writes to channels.
\<close>

datatype rtc_output =
    RtcTimeout instant
  | RtcTransmit bytes socket_addr
  | RtcDisconnected
  | RtcClosed
  | RtcChannelOpen nat bytes
  | RtcChannelClose nat
  | RtcChannelData nat bytes
  | RtcConnected
  | RtcOther
  | RtcFailed

datatype drive_action = DriveSend bytes socket_addr | DriveWrite nat bytes

datatype drive_end = DriveWait instant | DriveDone | DriveError

fun drive_outputs ::
    "(bytes \<Rightarrow> bytes option) \<Rightarrow> (nat \<Rightarrow> bool) \<Rightarrow> nat option \<Rightarrow> rtc_output list \<Rightarrow> (drive_end \<times> nat option \<times> drive_action list) option" where
  "drive_outputs rpc has dc [] = None"
| "drive_outputs rpc has dc (RtcTimeout t # os) = Some (DriveWait t, dc, [])"
| "drive_outputs rpc has dc (RtcTransmit d dest # os) =
     map_option (\<lambda>(e, dc', as). (e, dc', DriveSend d dest # as)) (drive_outputs rpc has dc os)"
| "drive_outputs rpc has dc (RtcDisconnected # os) = Some (DriveDone, dc, [])"
| "drive_outputs rpc has dc (RtcClosed # os) = Some (DriveDone, dc, [])"
| "drive_outputs rpc has dc (RtcChannelOpen i label # os) = drive_outputs rpc has (Some i) os"
| "drive_outputs rpc has dc (RtcChannelClose i # os) = drive_outputs rpc has (if dc = Some i then None else dc) os"
| "drive_outputs rpc has dc (RtcChannelData i d # os) =
     (case rpc d of
        Some reply \<Rightarrow>
          if has i then map_option (\<lambda>(e, dc', as). (e, dc', DriveWrite i reply # as)) (drive_outputs rpc has dc os)
          else drive_outputs rpc has dc os
      | None \<Rightarrow> drive_outputs rpc has dc os)"
| "drive_outputs rpc has dc (RtcConnected # os) = drive_outputs rpc has dc os"
| "drive_outputs rpc has dc (RtcOther # os) = drive_outputs rpc has dc os"
| "drive_outputs rpc has dc (RtcFailed # os) = Some (DriveError, dc, [])"

text \<open>
  What is handed to the engine after a wait until \<open>t\<close>: a datagram, or that the time has come. A datagram
  that the engine cannot read, like an error of the socket, ends the session.
\<close>

datatype drive_recv = DriveGot bytes socket_addr | DriveBlocked | DriveRecvError

datatype rtc_input = InTimeout | InReceive socket_addr bytes

definition drive_input :: "(bytes \<Rightarrow> bool) \<Rightarrow> instant \<Rightarrow> instant \<Rightarrow> drive_recv \<Rightarrow> rtc_input option" where
  "drive_input readable t now r =
     (if t \<le> now then Some InTimeout
      else case r of
          DriveGot d src \<Rightarrow> if readable (take 2000 d) then Some (InReceive src (take 2000 d)) else None
        | DriveBlocked \<Rightarrow> Some InTimeout
        | DriveRecvError \<Rightarrow> None)"

text \<open>
  One round of the loop of \<^verbatim>\<open>drive\<close>: what the engine puts out, the time and what the socket gives after
  it, and whether the engine takes the input. The result is how the session ended, \<open>None\<close> while it
  goes on, with what it sent.
\<close>

record drive_round =
  dr_outputs :: "rtc_output list"
  dr_now :: instant
  dr_recv :: drive_recv
  dr_handled :: "rtc_input \<Rightarrow> bool"

fun drive ::
    "(bytes \<Rightarrow> bytes option) \<Rightarrow> (nat \<Rightarrow> bool) \<Rightarrow> (bytes \<Rightarrow> bool) \<Rightarrow> nat option \<Rightarrow> drive_round list \<Rightarrow> drive_end option \<times> drive_action list" where
  "drive rpc has readable dc [] = (None, [])"
| "drive rpc has readable dc (r # rs) =
     (case drive_outputs rpc has dc (dr_outputs r) of
        None \<Rightarrow> (None, [])
      | Some (DriveWait t, dc', as) \<Rightarrow>
          (case drive_input readable t (dr_now r) (dr_recv r) of
             None \<Rightarrow> (Some DriveError, as)
           | Some i \<Rightarrow>
               if dr_handled r i then let (e, as') = drive rpc has readable dc' rs in (e, as @ as')
               else (Some DriveError, as))
      | Some (e, dc', as) \<Rightarrow> (Some e, as))"

section \<open>Routing of requests\<close>

record ('o, 'c) gateway_env =
  ge_html :: bytes
  ge_json_sdp :: "bytes \<Rightarrow> bytes option"
  ge_rtc :: "('o, 'c) rtc_lib"

text \<open>What the request finds outside: the socket for a call of the node and the system for a session.\<close>

record gateway_os =
  go_rpc :: rpc_socket
  go_rtc :: rtc_os

definition route ::
    "('o, 'c) gateway_env \<Rightarrow> gateway_os \<Rightarrow> socket_addr option \<Rightarrow> bytes \<Rightarrow> bytes \<Rightarrow> bytes \<Rightarrow> rooms \<Rightarrow> routed \<times> rooms" where
  "route env os node meth path body g =
     (if meth = of_chars ''GET'' \<and> (path = of_chars ''/'' \<or> path = of_chars ''/index.html'') then
        (Respond \<lparr>rsp_status = 200, rsp_ctype = of_chars ''text/html; charset=utf-8'', rsp_body = ge_html env\<rparr>, g)
      else if meth = of_chars ''POST'' \<and> path = of_chars ''/rpc'' then
        (Respond
           (if node = None then http_error 503 ''no node''
            else if \<not> accept_rpc body then http_error 400 ''bad rpc''
            else case accept_rpc_to_node (go_rpc os) body of
                   Some reply \<Rightarrow> \<lparr>rsp_status = 200, rsp_ctype = of_chars ''application/octet-stream'', rsp_body = reply\<rparr>
                 | None \<Rightarrow> no_content), g)
      else if meth = of_chars ''POST'' \<and> path = of_chars ''/rtc/offer'' then
        (Respond
           (if node = None then http_error 503 ''no node''
            else case from_utf8 body of
                None \<Rightarrow> http_error 400 ''sdp must be utf-8''
              | Some raw \<Rightarrow>
                  (case accept_offer (ge_rtc env) (go_rtc os) (offer_sdp (ge_json_sdp env) raw) of
                     Inr answer \<Rightarrow> \<lparr>rsp_status = 200, rsp_ctype = of_chars ''application/sdp'', rsp_body = answer\<rparr>
                   | Inl e \<Rightarrow> \<lparr>rsp_status = 400, rsp_ctype = plain_text, rsp_body = e\<rparr>)), g)
      else route_room meth path body g)"

section \<open>HTTP\<close>

datatype tcp_read = TcpChunk bytes | TcpError

datatype http_failure = ReadFailed | HeadersTooLarge | BadRequest

definition find_double_crlf :: "bytes \<Rightarrow> nat option" where
  "find_double_crlf buf =
     position (\<lambda>i. take 4 (drop i buf) = [13, 10, 13, 10]) [0..<length buf + 1 - 4]"

text \<open>Reads until the end of the headers; a connection of which nothing is left was closed.\<close>

fun read_head :: "bytes \<Rightarrow> tcp_read list \<Rightarrow> http_failure + bytes \<times> tcp_read list" where
  "read_head buf [] = Inr (buf, [])"
| "read_head buf (TcpError # rs) = Inl ReadFailed"
| "read_head buf (TcpChunk d # rs) =
     (if d = [] then Inr (buf, rs)
      else let buf' = buf @ d
        in if find_double_crlf buf' \<noteq> None then Inr (buf', rs)
           else if length buf' > 64 * 1024 then Inl HeadersTooLarge
           else read_head buf' rs)"

fun read_body :: "nat \<Rightarrow> bytes \<Rightarrow> tcp_read list \<Rightarrow> http_failure + bytes" where
  "read_body len body rs =
     (if \<not> length body < len then Inr (take len body)
      else case rs of
          [] \<Rightarrow> Inr (take len body)
        | TcpError # _ \<Rightarrow> Inl ReadFailed
        | TcpChunk d # rs' \<Rightarrow> if d = [] then Inr (take len body) else read_body len (body @ d) rs')"

definition content_length :: "bytes list \<Rightarrow> nat" where
  "content_length lines =
     foldl (\<lambda>len line.
         let (k, v) = (case split_once 58 line of Some kv \<Rightarrow> kv | None \<Rightarrow> ([], []))
         in if eq_ignore_ascii_case k (of_chars ''content-length'')
            then case parse_unsigned 64 (trim v) of Some n \<Rightarrow> n | None \<Rightarrow> 0
            else len) 0 lines"

definition request_line :: "bytes \<Rightarrow> bytes \<times> bytes" where
  "request_line req =
     (let ws = split_whitespace req
      in (case nth_part 0 ws of Some m \<Rightarrow> m | None \<Rightarrow> [], case nth_part 1 ws of Some p \<Rightarrow> p | None \<Rightarrow> of_chars ''/''))"

definition read_request :: "tcp_read list \<Rightarrow> http_failure + bytes \<times> bytes \<times> bytes" where
  "read_request rs =
     and_try (read_head [] rs) (\<lambda>(buf, rs').
       case find_double_crlf buf of
         None \<Rightarrow> Inl BadRequest
       | Some header_end \<Rightarrow>
           let lines = split_crlf (from_utf8_lossy (take header_end buf));
               (meth, path) = request_line (case lines of l # _ \<Rightarrow> l | [] \<Rightarrow> []);
               len = content_length (tl lines)
           in and_try (read_body len (drop (header_end + 4) buf) rs') (\<lambda>body. Inr (meth, path, body)))"

definition status_reason :: "u16 \<Rightarrow> bytes" where
  "status_reason status = of_chars (if status = 200 then ''OK'' else if status = 204 then ''No Content'' else ''Error'')"

definition crlf :: bytes where "crlf = [13, 10]"

definition write_resp :: "http_resp \<Rightarrow> bytes" where
  "write_resp r =
     of_chars ''HTTP/1.1 '' @ print_dec (unat (rsp_status r)) @ of_chars '' '' @ status_reason (rsp_status r) @ crlf
     @ of_chars ''Content-Type: '' @ rsp_ctype r @ crlf
     @ of_chars ''Content-Length: '' @ print_dec (length (rsp_body r)) @ crlf
     @ of_chars ''Access-Control-Allow-Origin: *'' @ crlf
     @ of_chars ''Access-Control-Allow-Methods: GET, POST, PUT, DELETE, OPTIONS'' @ crlf
     @ of_chars ''Access-Control-Allow-Headers: *'' @ crlf
     @ of_chars ''Connection: close'' @ crlf @ crlf @ rsp_body r"

datatype http_outcome = HttpWrote bytes | HttpWaits bytes text_field | HttpFailed http_failure

definition handle_http ::
    "('o, 'c) gateway_env \<Rightarrow> gateway_os \<Rightarrow> socket_addr option \<Rightarrow> tcp_read list \<Rightarrow> rooms \<Rightarrow> http_outcome \<times> rooms" where
  "handle_http env os node rs g =
     (case read_request rs of
        Inl e \<Rightarrow> (HttpFailed e, g)
      | Inr (meth, path, body) \<Rightarrow>
          if meth = of_chars ''OPTIONS'' then (HttpWrote (write_resp no_content), g)
          else case route env os node meth path body g of
                 (Respond r, g') \<Rightarrow> (HttpWrote (write_resp r), g')
               | (TakeText name f, g') \<Rightarrow> (HttpWaits name f, g'))"

section \<open>The gateway\<close>

text \<open>
  \<^verbatim>\<open>serve_listener\<close> hands every accepted connection to a thread of its own. A request takes the lock of
  the rooms once for what it changes, so the connections are listed in the order in which they take
  it; \<^verbatim>\<open>spawn_gateway\<close> and \<^verbatim>\<open>serve_gateway\<close> only do this when the address could be bound.
\<close>

datatype tcp_conn = Accepted gateway_os "tcp_read list" | AcceptFailed

fun serve_conns :: "('o, 'c) gateway_env \<Rightarrow> socket_addr option \<Rightarrow> tcp_conn list \<Rightarrow> rooms \<Rightarrow> http_outcome list \<times> rooms" where
  "serve_conns env node [] g = ([], g)"
| "serve_conns env node (AcceptFailed # cs) g = serve_conns env node cs g"
| "serve_conns env node (Accepted os rs # cs) g =
     (let (out, g1) = handle_http env os node rs g; (outs, g2) = serve_conns env node cs g1 in (out # outs, g2))"

definition serve_listener :: "('o, 'c) gateway_env \<Rightarrow> socket_addr option \<Rightarrow> tcp_conn list \<Rightarrow> http_outcome list \<times> rooms" where
  "serve_listener env node cs = serve_conns env node cs Map.empty"

definition serve_gateway ::
    "('o, 'c) gateway_env \<Rightarrow> socket_addr option \<Rightarrow> socket_addr option \<Rightarrow> tcp_conn list \<Rightarrow> (http_outcome list \<times> rooms) option" where
  "serve_gateway env bound node cs = map_option (\<lambda>local. serve_listener env node cs) bound"

end
