(* ===== verification/Webrtc_Http.thy ===== *)
theory Webrtc_Http
  imports Webrtc
begin

text \<open>
  Requests as a client writes them, and that the gateway reads them, in whatever pieces they arrive;
  where the body of a response begins.
\<close>

section \<open>The end of the headers\<close>

declare read_body.simps [simp del]

lemma find_crlf_Cons:
  "find_double_crlf (b # bs) = (if take 4 (b # bs) = [13, 10, 13, 10] then Some 0 else map_option Suc (find_double_crlf bs))"
proof (cases "length bs < 3")
  case True
  then show ?thesis
    by (simp add: find_double_crlf_def) (use length_take [of 4 "b # bs"] in \<open>auto dest!: arg_cong [of _ _ length]\<close>)
next
  case False
  then have "Suc (length bs - 3) = length bs - 2"
    by simp
  with False have u: "[0..<length (b # bs) + 1 - 4] = 0 # map Suc [0..<length bs + 1 - 4]"
    by (simp add: map_Suc_upt upt_conv_Cons del: upt_Suc)
  have m: "position P (map Suc xs) = position (\<lambda>i. P (Suc i)) xs" for P xs
    by (induction xs) auto
  have p: "position P (0 # map Suc xs) = (if P 0 then Some 0 else map_option Suc (position (\<lambda>i. P (Suc i)) xs))" for P xs
    by (simp add: m)
  show ?thesis
    by (simp only: find_double_crlf_def u p drop_Suc_Cons drop_0)
qed

lemma find_crlf_Nil [simp]: "find_double_crlf [] = None"
  by (simp add: find_double_crlf_def)

lemma find_crlf_line: "13 \<notin> set w \<Longrightarrow> find_double_crlf (w @ xs) = map_option ((+) (length w)) (find_double_crlf xs)"
proof (induction w)
  case Nil
  then show ?case by (cases "find_double_crlf xs") simp_all
next
  case (Cons b w)
  then have "take 4 ((b # w) @ xs) \<noteq> [13, 10, 13, 10]"
    by (cases w) auto
  with Cons show ?case
    by (simp add: find_crlf_Cons option.map_comp comp_def)
qed

lemma find_crlf_sep: "x \<noteq> 13 \<Longrightarrow> find_double_crlf (13 # 10 # x # xs) = map_option ((+) 2) (find_double_crlf (x # xs))"
  by (cases "find_double_crlf (x # xs)") (simp_all add: find_crlf_Cons [of 13] find_crlf_Cons [of 10])

lemma find_crlf_here: "find_double_crlf (13 # 10 # 13 # 10 # xs) = Some 0"
  by (simp add: find_crlf_Cons)

lemma find_crlf_join:
  "ls \<noteq> [] \<Longrightarrow> \<forall>l \<in> set ls. l \<noteq> [] \<and> 13 \<notin> set l
    \<Longrightarrow> find_double_crlf (join crlf ls @ 13 # 10 # 13 # 10 # xs) = Some (length (join crlf ls))"
proof (induction crlf ls rule: join.induct)
  case (2 l)
  then show ?case by (simp add: find_crlf_line find_crlf_here)
next
  case (3 l m ms)
  let ?rest = "join crlf (m # ms) @ 13 # 10 # 13 # 10 # xs"
  obtain x ys where x: "join crlf (m # ms) = x # ys" "x \<noteq> 13"
    using 3(3) by (cases m; cases ms) auto
  have "find_double_crlf (13 # 10 # ?rest) = Some (2 + length (join crlf (m # ms)))"
    using 3 find_crlf_sep [OF x(2), of "ys @ 13 # 10 # 13 # 10 # xs"] by (simp add: x(1))
  then show ?case
    using find_crlf_line [of l "13 # 10 # ?rest"] 3(3) by (simp add: crlf_def)
qed simp

lemma find_crlf_append: "find_double_crlf buf = Some i \<Longrightarrow> find_double_crlf (buf @ xs) = Some i"
proof (induction buf arbitrary: i)
  case (Cons b buf)
  have "take 4 (b # buf) = [13, 10, 13, 10] \<Longrightarrow> take 4 (b # buf @ xs) = [13, 10, 13, 10]"
    by (cases "4 \<le> length (b # buf)") (auto dest!: arg_cong [of _ _ length])
  moreover have "take 4 (b # buf @ xs) = [13, 10, 13, 10] \<Longrightarrow> take 4 (b # buf) = [13, 10, 13, 10]"
    if "find_double_crlf buf \<noteq> None"
  proof -
    have "3 \<le> length buf"
      using that by (auto simp: find_double_crlf_def position_Some_iff)
    then show "take 4 (b # buf @ xs) = [13, 10, 13, 10] \<Longrightarrow> take 4 (b # buf) = [13, 10, 13, 10]"
      by simp
  qed
  ultimately show ?case
    using Cons by (auto simp: find_crlf_Cons split: if_splits)
qed simp

lemma find_crlf_prefix:
  assumes "find_double_crlf (buf @ xs) = Some i" "i + 4 \<le> length buf"
  shows "find_double_crlf buf = Some i"
proof -
  have "i < length buf + 1 - 4" "take 4 (drop i buf) = [13, 10, 13, 10]"
    using assms by (auto simp: find_double_crlf_def position_Some_iff)
  moreover have "take 4 (drop j buf) \<noteq> [13, 10, 13, 10]" if "j < i" for j
    using assms that by (auto simp: find_double_crlf_def position_Some_iff)
  ultimately show ?thesis
    by (auto simp: find_double_crlf_def position_Some_iff)
qed

section \<open>Reading in pieces\<close>

lemma read_head_pieces:
  assumes "find_double_crlf (buf @ concat cs) = Some h" "h + 4 \<le> 64 * 1024" "[] \<notin> set cs" "find_double_crlf buf = None"
  shows "\<exists>cs1 cs2. cs = cs1 @ cs2 \<and> read_head buf (map TcpChunk cs @ later) = Inr (buf @ concat cs1, map TcpChunk cs2 @ later)
    \<and> find_double_crlf (buf @ concat cs1) = Some h"
  using assms
proof (induction cs arbitrary: buf)
  case (Cons c cs)
  show ?case
  proof (cases "find_double_crlf (buf @ c)")
    case None
    then have "length (buf @ c) < h + 4"
      using find_crlf_prefix [of "buf @ c" "concat cs" h] Cons.prems(1) by force
    moreover obtain cs1 cs2 where "cs = cs1 @ cs2"
        "read_head (buf @ c) (map TcpChunk cs @ later) = Inr ((buf @ c) @ concat cs1, map TcpChunk cs2 @ later)"
        "find_double_crlf ((buf @ c) @ concat cs1) = Some h"
      using Cons.IH [of "buf @ c"] Cons.prems None by auto
    ultimately show ?thesis
      using Cons.prems(2,3) None by (intro exI [of _ "c # cs1"] exI [of _ cs2]) auto
  next
    case (Some i)
    then have "i = h"
      using find_crlf_append [OF Some, of "concat cs"] Cons.prems(1) by simp
    with Some Cons.prems(3) show ?thesis
      by (intro exI [of _ "[c]"] exI [of _ cs]) auto
  qed
qed simp

lemma read_body_pieces:
  "len \<le> length (body @ concat cs) \<Longrightarrow> [] \<notin> set cs
    \<Longrightarrow> read_body len body (map TcpChunk cs @ later) = Inr (take len (body @ concat cs))"
proof (induction cs arbitrary: body)
  case (Cons c cs)
  then show ?case
    using Cons.IH [of "body @ c"] by (auto simp: read_body.simps [of len body])
qed (simp add: read_body.simps)

section \<open>A request\<close>

text \<open>
  A request as a client writes it: method and path are printable ASCII without spaces, the headers are
  printable ASCII, and none but the last is the length of the body.
\<close>

definition printable :: "u8 \<Rightarrow> bool" where
  "printable b = (32 \<le> b \<and> b \<le> 126)"

definition header_line :: "bytes \<times> bytes \<Rightarrow> bytes" where
  "header_line h = fst h @ of_chars '': '' @ snd h"

definition request_lines :: "bytes \<Rightarrow> bytes \<Rightarrow> (bytes \<times> bytes) list \<Rightarrow> bytes \<Rightarrow> bytes list" where
  "request_lines meth path hs body =
     (meth @ of_chars '' '' @ path @ of_chars '' HTTP/1.1'') # map header_line hs
     @ [header_line (of_chars ''Content-Length'', print_dec (length body))]"

definition request_head :: "bytes \<Rightarrow> bytes \<Rightarrow> (bytes \<times> bytes) list \<Rightarrow> bytes \<Rightarrow> bytes" where
  "request_head meth path hs body = join crlf (request_lines meth path hs body)"

definition request_ok :: "bytes \<Rightarrow> bytes \<Rightarrow> (bytes \<times> bytes) list \<Rightarrow> bool" where
  "request_ok meth path hs =
     (list_all graphic meth \<and> meth \<noteq> [] \<and> list_all graphic path \<and> path \<noteq> []
      \<and> list_all (\<lambda>(k, v). list_all graphic k \<and> 58 \<notin> set k \<and> list_all printable v
          \<and> \<not> eq_ignore_ascii_case k (of_chars ''content-length'')) hs)"

lemma printable_not: "printable b \<Longrightarrow> b \<noteq> 13 \<and> b \<le> 0x7F"
  by (auto simp: printable_def word_le_nat_alt)

lemma graphic_printable: "graphic b \<Longrightarrow> printable b"
  by (auto simp: printable_def graphic_def word_le_nat_alt)

lemma print_dec_graphic: "list_all graphic (print_dec n)"
  using print_dec_digits [of n] by (fastforce simp: graphic_def list_all_iff word_le_nat_alt)

lemma request_lines_printable:
  assumes "request_ok meth path hs"
  shows "\<forall>l \<in> set (request_lines meth path hs body). l \<noteq> [] \<and> list_all printable l"
proof -
  have "list_all printable (of_chars '': '')" "list_all printable (of_chars '' '')"
      "list_all printable (of_chars '' HTTP/1.1'')" "list_all printable (of_chars ''Content-Length'')"
    by code_simp+
  moreover have "list_all printable (print_dec n)" for n
    using print_dec_graphic [of n] by (auto simp: list_all_iff intro: graphic_printable)
  moreover have "of_chars '': '' \<noteq> []"
    by code_simp
  ultimately show ?thesis
    using assms by (auto simp: request_lines_def header_line_def request_ok_def list_all_iff split_beta intro: graphic_printable)
qed

lemma join_lines:
  assumes "\<forall>l \<in> set ls. 13 \<notin> set l" "ls \<noteq> []"
  shows "split_crlf (join crlf ls) = ls"
  using assms by (induction crlf ls rule: join.induct) (auto simp: split_crlf_line split_crlf_last crlf_def)

lemma join_ascii: "\<forall>l \<in> set ls. list_all (\<lambda>b. b \<le> 0x7F) l \<Longrightarrow> list_all (\<lambda>b. b \<le> 0x7F) (join crlf ls)"
  by (induction crlf ls rule: join.induct) (auto simp: crlf_def)

lemma content_length_request:
  assumes "request_ok meth path hs" "length body < 2 ^ 64"
  shows "content_length (tl (request_lines meth path hs body)) = length body"
proof -
  have colon: "of_chars '': '' = [58, 32]" "58 \<notin> set (of_chars ''Content-Length'')"
      "eq_ignore_ascii_case (of_chars ''Content-Length'') (of_chars ''content-length'')"
    by code_simp+
  have "content_length (map header_line hs @ ls) = content_length ls" for ls
    unfolding content_length_def foldl_append
    by (rule arg_cong [of _ _ "\<lambda>a. foldl _ a ls"])
      (use assms(1) in \<open>induction hs; auto simp: request_ok_def header_line_def colon split_once_at\<close>)
  then show ?thesis
    using assms(2) trim_graphic [OF print_dec_graphic print_dec_ne, of "length body"] parse_print [of "length body" 64]
    by (simp add: request_lines_def content_length_def header_line_def colon split_once_at)
qed

lemma request_line_request:
  assumes "request_ok meth path hs"
  shows "request_line (hd (request_lines meth path hs body)) = (meth, path)"
proof -
  have "of_chars '' '' = [32]" "of_chars '' HTTP/1.1'' = 32 # of_chars ''HTTP/1.1''"
      "list_all graphic (of_chars ''HTTP/1.1'')" "of_chars ''HTTP/1.1'' \<noteq> []"
    by code_simp+
  then show ?thesis
    using split_whitespace_words [of meth path "of_chars ''HTTP/1.1''"] assms
    by (simp add: request_lines_def request_line_def nth_part_def request_ok_def)
qed

lemma request_read:
  assumes "request_ok meth path hs" and "length body < 2 ^ 64"
    and "length (request_head meth path hs body) + 4 \<le> 64 * 1024"
    and "concat cs = request_head meth path hs body @ crlf @ crlf @ body @ extra" and "[] \<notin> set cs"
  shows "read_request (map TcpChunk cs @ later) = Inr (meth, path, body)"
proof -
  let ?ls = "request_lines meth path hs body" and ?head = "request_head meth path hs body"
  have ls: "\<forall>l \<in> set ?ls. l \<noteq> [] \<and> 13 \<notin> set l" "\<forall>l \<in> set ?ls. list_all (\<lambda>b. b \<le> 0x7F) l" "?ls \<noteq> []"
    using request_lines_printable [OF assms(1), of body] printable_not
    by (fastforce simp: list_all_iff, fastforce simp: list_all_iff, simp add: request_lines_def)
  have "find_double_crlf (concat cs) = Some (length ?head)"
    using find_crlf_join [OF ls(3,1)] by (simp add: assms(4) request_head_def crlf_def)
  then obtain cs1 cs2 where cs: "cs = cs1 @ cs2" "read_head [] (map TcpChunk cs @ later) = Inr (concat cs1, map TcpChunk cs2 @ later)"
      "find_double_crlf (concat cs1) = Some (length ?head)"
    using read_head_pieces [of "[]" cs "length ?head" later] assms(3,5) by auto
  have long: "length ?head + 4 \<le> length (concat cs1)"
    using cs(3) by (auto simp: find_double_crlf_def position_Some_iff)
  have all: "concat cs1 @ concat cs2 = ?head @ crlf @ crlf @ body @ extra"
    using assms(4) cs(1) by simp
  have head: "take (length ?head) (concat cs1) = ?head"
    using arg_cong [OF all, of "take (length ?head)"] long by simp
  have rest: "drop (length ?head + 4) (concat cs1) @ concat cs2 = body @ extra"
    using arg_cong [OF all, of "drop (length ?head + 4)"] long by (simp add: crlf_def)
  have parts: "split_crlf (from_utf8_lossy ?head) = ?ls"
    using lossy_id [OF utf8_ok_ascii [OF join_ascii [OF ls(2)]]] join_lines [of ?ls] ls by (simp add: request_head_def)
  have "read_body (length body) (drop (length ?head + 4) (concat cs1)) (map TcpChunk cs2 @ later) = Inr body"
    using read_body_pieces [of "length body" "drop (length ?head + 4) (concat cs1)" cs2 later] rest assms(5) cs(1) by simp
  moreover have "(case ?ls of l # _ \<Rightarrow> l | [] \<Rightarrow> []) = hd ?ls"
    using ls(3) by (cases ?ls) auto
  ultimately show ?thesis
    using cs(2,3) head parts content_length_request [OF assms(1,2)] request_line_request [OF assms(1), of body]
    by (simp add: read_request_def and_try_def)
qed



section \<open>A response\<close>

definition response_lines :: "http_resp \<Rightarrow> bytes list" where
  "response_lines r =
     [of_chars ''HTTP/1.1 '' @ print_dec (unat (rsp_status r)) @ of_chars '' '' @ status_reason (rsp_status r),
      of_chars ''Content-Type: '' @ rsp_ctype r,
      of_chars ''Content-Length: '' @ print_dec (length (rsp_body r)),
      of_chars ''Access-Control-Allow-Origin: *'',
      of_chars ''Access-Control-Allow-Methods: GET, POST, PUT, DELETE, OPTIONS'',
      of_chars ''Access-Control-Allow-Headers: *'', of_chars ''Connection: close'']"

lemma write_resp_lines: "write_resp r = join crlf (response_lines r) @ crlf @ crlf @ rsp_body r"
  by (simp add: write_resp_def response_lines_def)

lemma response_body:
  assumes "13 \<notin> set (rsp_ctype r)"
  shows "find_double_crlf (write_resp r) = Some (length (join crlf (response_lines r)))"
    "drop (length (join crlf (response_lines r)) + 4) (write_resp r) = rsp_body r"
proof -
  have "13 \<notin> set (print_dec n)" for n
    using print_dec_graphic [of n] graphic_not(3) by (auto simp: list_all_iff)
  moreover have "13 \<notin> set (of_chars ''HTTP/1.1 '')" "13 \<notin> set (of_chars '' '')" "13 \<notin> set (of_chars ''Content-Type: '')"
      "13 \<notin> set (of_chars ''Content-Length: '')" "13 \<notin> set (of_chars ''Access-Control-Allow-Origin: *'')"
      "13 \<notin> set (of_chars ''Access-Control-Allow-Methods: GET, POST, PUT, DELETE, OPTIONS'')"
      "13 \<notin> set (of_chars ''Access-Control-Allow-Headers: *'')" "13 \<notin> set (of_chars ''Connection: close'')"
      "13 \<notin> set (of_chars ''OK'') \<and> 13 \<notin> set (of_chars ''No Content'') \<and> 13 \<notin> set (of_chars ''Error'')"
    by code_simp+
  moreover have "of_chars s \<noteq> []" if "s \<noteq> []" for s
    using that by (simp add: of_chars_def)
  ultimately have "\<forall>l \<in> set (response_lines r). l \<noteq> [] \<and> 13 \<notin> set l"
    using assms by (auto simp: response_lines_def status_reason_def)
  from find_crlf_join [OF _ this] show "find_double_crlf (write_resp r) = Some (length (join crlf (response_lines r)))"
    by (simp add: write_resp_lines crlf_def response_lines_def)
  show "drop (length (join crlf (response_lines r)) + 4) (write_resp r) = rsp_body r"
    by (simp add: write_resp_lines crlf_def)
qed

end
