(* ===== verification/Webrtc_Rooms.thy ===== *)
theory Webrtc_Rooms
  imports Webrtc_Http
begin

text \<open>
  Signalling between two browsers through a room of the gateway: what each room is, as the sequence of
  operations on it alone, and that the requests of any number of clients give just that.
\<close>

section \<open>Rooms as clients see them\<close>

datatype room_op =
    RoomDelete
  | RoomOffer bytes
  | RoomAnswer bytes
  | RoomIceOfferer bytes
  | RoomIceAnswerer bytes

definition or_default :: "room option \<Rightarrow> room" where
  "or_default r = (case r of Some r \<Rightarrow> r | None \<Rightarrow> room_default)"

fun room_apply :: "room option \<Rightarrow> room_op \<Rightarrow> room option" where
  "room_apply r RoomDelete = None"
| "room_apply r (RoomOffer b) = Some \<lparr>room_offer = from_utf8_lossy b, room_answer = [], ice_offerer = [], ice_answerer = []\<rparr>"
| "room_apply r (RoomAnswer b) = Some ((or_default r)\<lparr>room_answer := from_utf8_lossy b\<rparr>)"
| "room_apply r (RoomIceOfferer b) = Some ((or_default r)\<lparr>ice_offerer := ice_offerer (or_default r) @ [from_utf8_lossy b]\<rparr>)"
| "room_apply r (RoomIceAnswerer b) = Some ((or_default r)\<lparr>ice_answerer := ice_answerer (or_default r) @ [from_utf8_lossy b]\<rparr>)"

section \<open>The requests\<close>

definition room_path :: "bytes list \<Rightarrow> bytes" where
  "room_path parts = 47 # join [47] (of_chars ''room'' # parts)"

fun op_request :: "bytes \<Rightarrow> room_op \<Rightarrow> bytes \<times> bytes \<times> bytes" where
  "op_request n RoomDelete = (of_chars ''DELETE'', room_path [n], [])"
| "op_request n (RoomOffer b) = (of_chars ''PUT'', room_path [n, of_chars ''offer''], b)"
| "op_request n (RoomAnswer b) = (of_chars ''PUT'', room_path [n, of_chars ''answer''], b)"
| "op_request n (RoomIceOfferer b) = (of_chars ''POST'', room_path [n, of_chars ''ice'', of_chars ''offerer''], b)"
| "op_request n (RoomIceAnswerer b) = (of_chars ''POST'', room_path [n, of_chars ''ice'', of_chars ''answerer''], b)"

definition conn_request :: "tcp_conn \<Rightarrow> (bytes \<times> bytes \<times> bytes) option" where
  "conn_request c = (case c of AcceptFailed \<Rightarrow> None | Accepted os rs \<Rightarrow> (case read_request rs of Inr r \<Rightarrow> Some r | Inl e \<Rightarrow> None))"

text \<open>Requests that do not concern what is in the rooms: reads, and what goes to the node.\<close>

definition only_reads :: "bytes \<times> bytes \<times> bytes \<Rightarrow> bool" where
  "only_reads r = (case r of (meth, path, body) \<Rightarrow>
     meth = of_chars ''GET'' \<or> meth = of_chars ''OPTIONS''
     \<or> meth = of_chars ''POST'' \<and> (path = of_chars ''/rpc'' \<or> path = of_chars ''/rtc/offer''))"

text \<open>What a connection carries: an operation on a room, or something that leaves the rooms alone.\<close>

fun carries :: "tcp_conn \<Rightarrow> (bytes \<times> room_op) option \<Rightarrow> bool" where
  "carries c (Some (n, op)) = (conn_request c = Some (op_request n op))"
| "carries c None = (case conn_request c of None \<Rightarrow> True | Some r \<Rightarrow> only_reads r)"

definition ops_for :: "bytes \<Rightarrow> (bytes \<times> room_op) option list \<Rightarrow> room_op list" where
  "ops_for n reqs = map snd (filter (\<lambda>r. fst r = n) (concat (map (\<lambda>r. case r of Some x \<Rightarrow> [x] | None \<Rightarrow> []) reqs)))"

section \<open>Lemmas\<close>

lemma of_chars_no_slash: "CHR ''/'' \<notin> set s \<Longrightarrow> 47 \<notin> set (of_chars s)"
proof
  assume "CHR ''/'' \<notin> set s" "47 \<in> set (of_chars s)"
  moreover have "of_chars ''/'' = [47]"
    by code_simp
  ultimately show False
    using of_chars_inj [of "[_]" "''/''"] by (force simp: of_chars_def)
qed

lemma path_parts_room:
  assumes "\<forall>p \<in> set parts. 47 \<notin> set p"
  shows "path_parts (room_path parts) = of_chars ''room'' # parts"
proof -
  obtain x xs where x: "join [47] (of_chars ''room'' # parts) = x # xs" "x \<noteq> 47"
  proof -
    have "of_chars ''room'' = [114, 111, 111, 109]"
      by code_simp
    then show thesis
      by (intro that [of 114 "tl (join [47] (of_chars ''room'' # parts))"]) (cases parts; simp)+
  qed
  have "47 \<notin> set (of_chars ''room'')"
    by (rule of_chars_no_slash) simp
  then have "split_byte 47 (join [47] (of_chars ''room'' # parts)) = of_chars ''room'' # parts"
    using assms by (intro split_join) auto
  then show ?thesis
    using x by (simp add: path_parts_def room_path_def)
qed

text \<open>A path of a room is none of the fixed paths.\<close>

lemma room_path_other:
  assumes "\<forall>p \<in> set parts. 47 \<notin> set p"
  shows "room_path parts \<noteq> of_chars ''/''" "room_path parts \<noteq> of_chars ''/index.html''"
    "room_path parts \<noteq> of_chars ''/rpc''" "room_path parts \<noteq> of_chars ''/rtc/offer''"
proof -
  have "path_parts (of_chars ''/'') = [[]]" "path_parts (of_chars ''/index.html'') = [of_chars ''index.html'']"
      "path_parts (of_chars ''/rpc'') = [of_chars ''rpc'']" "path_parts (of_chars ''/rtc/offer'') = [of_chars ''rtc'', of_chars ''offer'']"
    by code_simp+
  then show "room_path parts \<noteq> of_chars ''/''" "room_path parts \<noteq> of_chars ''/index.html''"
    "room_path parts \<noteq> of_chars ''/rpc''" "room_path parts \<noteq> of_chars ''/rtc/offer''"
    using path_parts_room [OF assms] by (auto simp: of_chars_def)
qed

lemma route_room_path:
  "\<forall>p \<in> set parts. 47 \<notin> set p \<Longrightarrow> route env os node meth (room_path parts) body g = route_room meth (room_path parts) body g"
  using room_path_other [of parts] by (simp add: route_def)

lemmas room_routing = route_room_path route_room_def path_parts_room nth_part_def of_chars_no_slash

lemma entry_or_default [simp]: "entry_or_default n g = or_default (g n)"
  by (simp add: entry_or_default_def or_default_def)

lemma offer_resets [simp]:
  "(r :: room)\<lparr>room_offer := b, room_answer := [], ice_offerer := [], ice_answerer := []\<rparr>
    = \<lparr>room_offer = b, room_answer = [], ice_offerer = [], ice_answerer = []\<rparr>"
  by simp

text \<open>A request does to the rooms what its operation does to its room, and nothing if it has none.\<close>

lemma route_op:
  assumes "47 \<notin> set n" and "op_request n op = (meth, path, body)"
  shows "snd (route env os node meth path body g) = g(n := room_apply (g n) op)" "meth \<noteq> of_chars ''OPTIONS''"
  using assms by (cases op; auto simp: room_routing put_offer_def put_answer_def post_ice_def Let_def split_beta of_chars_def)+

lemma route_reads:
  assumes "only_reads (meth, path, body)" and "meth \<noteq> of_chars ''OPTIONS''"
  shows "snd (route env os node meth path body g) = g"
  using assms by (auto simp: only_reads_def route_def route_room_def Let_def of_chars_def)

lemma handle_http_rooms:
  "snd (handle_http env os node rs g) =
     (case read_request rs of Inl e \<Rightarrow> g
      | Inr (meth, path, body) \<Rightarrow> if meth = of_chars ''OPTIONS'' then g else snd (route env os node meth path body g))"
  by (simp add: handle_http_def split: sum.split prod.split routed.split)

lemma handle_http_carries:
  assumes "carries (Accepted os rs) r" and "\<forall>n op. r = Some (n, op) \<longrightarrow> 47 \<notin> set n"
  shows "snd (handle_http env os node rs g) = (case r of None \<Rightarrow> g | Some (n, op) \<Rightarrow> g(n := room_apply (g n) op))"
proof (cases r)
  case None
  then show ?thesis
    using assms(1) route_reads by (auto simp: handle_http_rooms conn_request_def split: sum.splits)
next
  case (Some a)
  obtain n op where a: "a = (n, op)"
    by (cases a)
  obtain meth path body where req: "op_request n op = (meth, path, body)"
    by (cases "op_request n op")
  then have "read_request rs = Inr (meth, path, body)"
    using assms(1) by (simp add: Some a conn_request_def split: sum.splits)
  then show ?thesis
    using route_op [OF _ req] assms(2) by (simp add: Some a handle_http_rooms)
qed

lemma serve_conns_rooms:
  assumes "list_all2 carries cs reqs" and "\<forall>n op. Some (n, op) \<in> set reqs \<longrightarrow> 47 \<notin> set n"
  shows "snd (serve_conns env node cs g) n = foldl room_apply (g n) (ops_for n reqs)"
  using assms
proof (induction cs reqs arbitrary: g rule: list_all2_induct)
  case (Cons c cs r reqs)
  have IH: "snd (serve_conns env node cs g) n = foldl room_apply (g n) (ops_for n reqs)" for g
    by (rule Cons.IH) (use Cons.prems in auto)
  show ?case
  proof (cases c)
    case AcceptFailed
    with Cons.hyps(1) have "r = None"
      by (cases r) (auto simp: conn_request_def)
    then show ?thesis
      using AcceptFailed IH by (simp add: ops_for_def)
  next
    case (Accepted os rs)
    have "snd (handle_http env os node rs g) = (case r of None \<Rightarrow> g | Some (m, op) \<Rightarrow> g(m := room_apply (g m) op))"
      by (rule handle_http_carries) (use Cons.hyps(1) Cons.prems Accepted in auto)
    then show ?thesis
      using Accepted IH by (cases r) (auto simp: ops_for_def split_beta)
  qed
qed (simp add: ops_for_def)

text \<open>What the operations after an offer add to a room.\<close>

fun after_offer :: "room_op \<Rightarrow> bool" where
  "after_offer (RoomOffer b) = False"
| "after_offer RoomDelete = False"
| "after_offer _ = True"

definition answers :: "room_op list \<Rightarrow> bytes list" where
  "answers ops = concat (map (\<lambda>op. case op of RoomAnswer b \<Rightarrow> [from_utf8_lossy b] | _ \<Rightarrow> []) ops)"

definition offerer_lines :: "room_op list \<Rightarrow> bytes list" where
  "offerer_lines ops = concat (map (\<lambda>op. case op of RoomIceOfferer b \<Rightarrow> [from_utf8_lossy b] | _ \<Rightarrow> []) ops)"

definition answerer_lines :: "room_op list \<Rightarrow> bytes list" where
  "answerer_lines ops = concat (map (\<lambda>op. case op of RoomIceAnswerer b \<Rightarrow> [from_utf8_lossy b] | _ \<Rightarrow> []) ops)"

lemma room_after_offer:
  assumes "list_all after_offer ops"
  shows "foldl room_apply (Some r) ops = Some (r\<lparr>room_answer := last (room_answer r # answers ops),
      ice_offerer := ice_offerer r @ offerer_lines ops, ice_answerer := ice_answerer r @ answerer_lines ops\<rparr>)"
  using assms
proof (induction ops arbitrary: r)
  case (Cons op ops)
  then show ?case
    by (cases op) (simp_all add: answers_def offerer_lines_def answerer_lines_def or_default_def)
qed (simp add: answers_def offerer_lines_def answerer_lines_def)

text \<open>Looking for a text: it is returned at the first look that finds one, else nothing after 15 seconds.\<close>

lemma take_text_found:
  assumes "\<forall>(now, g) \<in> set before. now < deadline \<and> (\<forall>r. g n = Some r \<longrightarrow> f r = [])" "g n = Some r" "f r \<noteq> []"
  shows "take_text f n deadline (before @ (now, g) # looks) = Some \<lparr>rsp_status = 200, rsp_ctype = utf8_text, rsp_body = f r\<rparr>"
  using assms by (induction before) (auto simp: take_text_once_def split: option.splits)

lemma take_text_returns:
  assumes "(now, g) \<in> set looks" "deadline \<le> now"
  shows "take_text f n deadline looks \<noteq> None"
  using assms by (induction looks) (auto simp: take_text_once_def Let_def split: option.splits)

lemma lossy_Nil [simp]: "from_utf8_lossy b = [] \<longleftrightarrow> b = []"
  using utf8_char_pos [of b] by (cases b) (auto simp: from_utf8_lossy.simps(2) REPLACEMENT_def split: sum.splits)

section \<open>Signalling\<close>

text \<open>
  C25. Two browsers find each other through a room, whatever is asked of other rooms or of the node
  meanwhile and whatever connections fail: after an offer, until the next offer or the deletion of
  the room, the gateway has for its clients that offer, the last answer, and the candidates of
  either side in the order in which they were sent, one per line, with ill-formed UTF-8 replaced.
\<close>

theorem room_signalling:
  assumes "list_all2 carries cs reqs" and "\<forall>m op. Some (m, op) \<in> set reqs \<longrightarrow> 47 \<notin> set m" and "47 \<notin> set n"
    and "ops_for n reqs = before @ RoomOffer b # ops" and "list_all after_offer ops"
    and "g = snd (serve_listener env node cs)"
  shows "g n = Some \<lparr>room_offer = from_utf8_lossy b, room_answer = last ([] # answers ops),
      ice_offerer = offerer_lines ops, ice_answerer = answerer_lines ops\<rparr>
    \<and> route env os node (of_chars ''GET'') (room_path [n, of_chars ''offer'']) body g = (TakeText n OfferText, g)
    \<and> route env os node (of_chars ''GET'') (room_path [n, of_chars ''answer'']) body g = (TakeText n AnswerText, g)
    \<and> route env os node (of_chars ''GET'') (room_path [n, of_chars ''ice'', of_chars ''offerer'']) body g
      = (Respond \<lparr>rsp_status = 200, rsp_ctype = utf8_text, rsp_body = join [10] (offerer_lines ops)\<rparr>, g)
    \<and> route env os node (of_chars ''GET'') (room_path [n, of_chars ''ice'', of_chars ''answerer'']) body g
      = (Respond \<lparr>rsp_status = 200, rsp_ctype = utf8_text, rsp_body = join [10] (answerer_lines ops)\<rparr>, g)
    \<and> (b \<noteq> [] \<longrightarrow> take_text (field_of OfferText) n deadline ((now, g) # looks)
          = Some \<lparr>rsp_status = 200, rsp_ctype = utf8_text, rsp_body = from_utf8_lossy b\<rparr>)"
proof -
  have "g n = foldl room_apply (foldl room_apply None before) (RoomOffer b # ops)"
    using serve_conns_rooms [OF assms(1,2), of env node Map.empty n] by (simp add: assms(4,6) serve_listener_def)
  then have "g n = Some \<lparr>room_offer = from_utf8_lossy b, room_answer = last ([] # answers ops),
      ice_offerer = offerer_lines ops, ice_answerer = answerer_lines ops\<rparr>"
    using room_after_offer [OF assms(5)] by simp
  then show ?thesis
    using assms(3) lossy_Nil [of b] take_text_found [of "[]" deadline n "field_of OfferText" g _ now looks]
    by (simp add: room_routing get_ice_def)
qed

definition demo_gateway :: "(unit, unit) gateway_env" where
  "demo_gateway = \<lparr>ge_html = [], ge_json_sdp = (\<lambda>_. None),
     ge_rtc = \<lparr>sdp_from_string = (\<lambda>_. Inr ()), candidate_host = (\<lambda>_. Inr ()), sdp_accept = (\<lambda>_ _. Inr [])\<rparr>\<rparr>"

definition demo_gateway_os :: gateway_os where
  "demo_gateway_os = \<lparr>go_rpc = \<lparr>rs_set_up = True, rs_sent = True, rs_start = 0, rs_rounds = []\<rparr>,
     go_rtc = \<lparr>ro_port = Inr 5000, ro_probe = None, ro_spawn = Inr ()\<rparr>\<rparr>"

text \<open>A connection on which a request comes in one piece.\<close>

definition sends :: "bytes \<times> bytes \<times> bytes \<Rightarrow> tcp_conn" where
  "sends r = (case r of (meth, path, body) \<Rightarrow> Accepted demo_gateway_os [TcpChunk (request_head meth path [] body @ crlf @ crlf @ body)])"

lemma sends_request:
  assumes "request_ok meth path []" and "length body < 100" and "length (request_head meth path [] body) < 100"
  shows "conn_request (sends (meth, path, body)) = Some (meth, path, body)"
  using request_read [OF assms(1), of body "[request_head meth path [] body @ crlf @ crlf @ body]" "[]" "[]"] assms(2,3)
  by (simp add: sends_def conn_request_def crlf_def)

theorem room_signalling_witness:
  "let x = of_chars ''x''; y = of_chars ''y'';
       g = snd (serve_listener demo_gateway None
         ([AcceptFailed, sends (op_request y (RoomOffer [1])), sends (op_request x (RoomOffer [65])), sends (of_chars ''GET'', of_chars ''/'', []),
           sends (op_request y RoomDelete), sends (op_request x (RoomIceOfferer [66])), sends (op_request x (RoomAnswer [67])),
           sends (op_request x (RoomIceOfferer [68]))]))
   in g x = Some \<lparr>room_offer = [65], room_answer = [67], ice_offerer = [[66], [68]], ice_answerer = []\<rparr>
     \<and> route demo_gateway demo_gateway_os None (of_chars ''GET'') (room_path [x, of_chars ''ice'', of_chars ''offerer'']) [] g
       = (Respond \<lparr>rsp_status = 200, rsp_ctype = utf8_text, rsp_body = [66, 10, 68]\<rparr>, g)"
proof -
  let ?x = "of_chars ''x''" and ?y = "of_chars ''y''"
  let ?ops = "[RoomIceOfferer [66], RoomAnswer [67], RoomIceOfferer [68]]"
  let ?reqs = "[None, Some (?y, RoomOffer [1]), Some (?x, RoomOffer [65]), None, Some (?y, RoomDelete),
      Some (?x, RoomIceOfferer [66]), Some (?x, RoomAnswer [67]), Some (?x, RoomIceOfferer [68])]"
  have op: "carries (sends (op_request n op)) (Some (n, op))"
    if "n = ?x \<or> n = ?y" "op = RoomDelete \<or> op \<in> (\<lambda>b. RoomOffer [b]) ` {1, 65} \<or> op \<in> (\<lambda>b. RoomIceOfferer [b]) ` {66, 68} \<or> op = RoomAnswer [67]" for n op
  proof -
    obtain meth path body where r: "op_request n op = (meth, path, body)"
      by (cases "op_request n op")
    have "request_ok meth path [] \<and> length body < 100 \<and> length (request_head meth path [] body) < 100"
      using that r by (elim disjE imageE insertE emptyE; hypsubst; (simp only: op_request.simps prod.inject)?; (elim conjE)?; hypsubst; code_simp)
    then show ?thesis
      using sends_request [of meth path body] by (simp add: r)
  qed
  have get: "carries (sends (of_chars ''GET'', of_chars ''/'', [])) None"
  proof -
    have "request_ok (of_chars ''GET'') (of_chars ''/'') []" "length (request_head (of_chars ''GET'') (of_chars ''/'') [] []) < 100"
      by code_simp+
    then show ?thesis
      using sends_request [of "of_chars ''GET''" "of_chars ''/''" "[]"] by (simp add: only_reads_def)
  qed
  have failed: "carries AcceptFailed None"
    by (simp add: conn_request_def)
  have names: "\<forall>m op. Some (m, op) \<in> set ?reqs \<longrightarrow> 47 \<notin> set m" "47 \<notin> set ?x"
    using of_chars_no_slash [of "''x''"] of_chars_no_slash [of "''y''"] by auto
  have cs: "list_all2 carries [AcceptFailed, sends (op_request ?y (RoomOffer [1])), sends (op_request ?x (RoomOffer [65])),
      sends (of_chars ''GET'', of_chars ''/'', []), sends (op_request ?y RoomDelete), sends (op_request ?x (RoomIceOfferer [66])),
      sends (op_request ?x (RoomAnswer [67])), sends (op_request ?x (RoomIceOfferer [68]))] ?reqs"
    using op get failed by (simp del: carries.simps op_request.simps)
  have ops: "ops_for ?x ?reqs = [] @ RoomOffer [65] # ?ops" "list_all after_offer ?ops"
    by (simp_all add: ops_for_def)
  have "from_utf8_lossy [65] = [65]" "last ([] # answers ?ops) = [67]" "offerer_lines ?ops = [[66], [68]]" "answerer_lines ?ops = []"
    by code_simp+
  then show ?thesis
    using room_signalling [OF cs names ops refl, of demo_gateway None demo_gateway_os "[]"] by (simp add: Let_def)
qed

end
