(* ===== verification/Shard_Replies.thy ===== *)
theory Shard_Replies
  imports Shard_Health
begin

text \<open>
  The answers a shard gives. A command that wants an answer brings a channel; the channel is used
  at once, or it waits with a lookup. The ledger counts the channels already answered and those
  still waiting, and only a command adds to it. A tick more than the budget of a lookup after its start
  answers it.
\<close>

section \<open>The ledger\<close>

definition asks :: "channel option \<Rightarrow> channel multiset" where
  "asks r = (case r of None \<Rightarrow> {#} | Some ch \<Rightarrow> {#ch#})"

definition waits :: "pending_lookup option \<Rightarrow> channel multiset" where
  "waits p = (case p of None \<Rightarrow> {#} | Some p \<Rightarrow> asks (pl_reply p))"

definition waiting :: "(u32 \<rightharpoonup> pending_lookup) \<Rightarrow> channel multiset" where
  "waiting m = (\<Sum>i \<in> UNIV. waits (m i))"

definition ledger :: "'t shard_ctx \<Rightarrow> channel multiset" where
  "ledger ctx = mset (map fst (sx_replies ctx)) + waiting (sx_lookups ctx)"

lemma asks_simps [simp]: "asks None = {#}" "asks (Some ch) = {#ch#}"
  by (simp_all add: asks_def)

lemma waits_simps [simp]: "waits None = {#}" "waits (Some p) = asks (pl_reply p)"
  by (simp_all add: waits_def)

lemma waiting_upd: "waiting (m(i := x)) + waits (m i) = waiting m + waits x"
proof -
  have "waiting m' = (\<Sum>j \<in> UNIV - {i}. waits (m' j)) + waits (m' i)" for m'
    unfolding waiting_def by (subst sum.remove [of UNIV i]) simp_all
  moreover have "(\<Sum>j \<in> UNIV - {i}. waits ((m(i := x)) j)) = (\<Sum>j \<in> UNIV - {i}. waits (m j))"
    by (rule sum.cong) simp_all
  ultimately show ?thesis by simp
qed

lemma waiting_has:
  assumes "m i = Some p" "pl_reply p = Some ch"
  shows "ch \<in># waiting m"
proof -
  have "waiting (m(i := None)) + {#ch#} = waiting m"
    using waiting_upd [of m i None] assms by simp
  then show ?thesis by (metis multi_member_last union_iff)
qed

lemma waiting_same: "waits x = waits (m i) \<Longrightarrow> waiting (m(i := x)) = waiting m"
  using waiting_upd [of m i x] by simp

lemma ledger_reply [simp]: "ledger (send_reply ch r ctx) = add_mset ch (ledger ctx)"
  by (simp add: ledger_def send_reply_def)

lemma ledger_finish [simp]: "ledger (finish_lookup kind l reply ctx) = ledger ctx + asks reply"
  by (simp add: finish_lookup_def split: option.split)

interpretation ledger: ctx_handle env "\<lambda>_. True" "\<lambda>_. True" "\<lambda>ctx. ledger ctx = C" "\<lambda>_. True" for env C
  by unfold_locales (simp_all add: ledger_def pending_push_def list_all_iff)

interpretation kept: ctx_handle env "\<lambda>_. True" "\<lambda>_. True"
    "\<lambda>ctx. sx_lookups ctx = L \<and> sx_replies ctx = R \<and> sx_now ctx = T" "\<lambda>_. True"
  for env L R T
  by unfold_locales (simp_all add: pending_push_def list_all_iff)

section \<open>Lookups\<close>

lemma dispatch_kept:
  "sx_lookups (snd (dispatch_lookup_batch env l ctx)) = sx_lookups ctx"
  "sx_replies (snd (dispatch_lookup_batch env l ctx)) = sx_replies ctx"
  "sx_now (snd (dispatch_lookup_batch env l ctx)) = sx_now ctx"
  using kept.dispatch_batch_inv [of ctx "sx_lookups ctx" "sx_replies ctx" "sx_now ctx"] by auto

lemma ledger_start: "ledger (start_lookup env kind target reply ctx) \<subseteq># ledger ctx + asks reply"
proof -
  let ?l = "lookup_new (sx_now ctx) kind target (closest (sx_table ctx) target ALPHA_DEFAULT)
      (if cf_query_blind (sx_cfg ctx) then Blind else PrivNone)"
  obtain l ctx1 where d: "dispatch_lookup_batch env ?l ctx = (l, ctx1)"
    by (cases "dispatch_lookup_batch env ?l ctx")
  have k: "sx_lookups ctx1 = sx_lookups ctx" "sx_replies ctx1 = sx_replies ctx"
    using dispatch_kept [of env ?l ctx] d by simp_all
  let ?i = "sx_next_corr ctx1"
  have "waiting ((sx_lookups ctx)(?i \<mapsto> \<lparr>pl_lookup = l, pl_reply = reply\<rparr>)) \<subseteq># waiting (sx_lookups ctx) + asks reply"
    using waiting_upd [of "sx_lookups ctx" ?i "Some \<lparr>pl_lookup = l, pl_reply = reply\<rparr>"]
    by (metis mset_subset_eq_add_left pending_lookup.select_convs(2) waits_simps(2))
  then show ?thesis
    using d k by (simp add: start_lookup_def Let_def) (simp add: ledger_def)
qed

lemma ledger_sweep_one [simp]: "ledger (sweep_one env ctx i) = ledger ctx"
proof (cases "sx_lookups ctx i")
  case None
  then show ?thesis by (simp add: sweep_one_def)
next
  case (Some p)
  let ?c = "ctx\<lparr>sx_lookups := (sx_lookups ctx)(i := None)\<rparr>"
  obtain l ctx2 where d: "dispatch_lookup_batch env (pl_lookup p) ?c = (l, ctx2)"
    by (cases "dispatch_lookup_batch env (pl_lookup p) ?c")
  have k: "sx_lookups ctx2 = (sx_lookups ctx)(i := None)" "sx_replies ctx2 = sx_replies ctx"
    using dispatch_kept [of env "pl_lookup p" ?c] d by simp_all
  have "waiting ((sx_lookups ctx)(i := None)) + asks (pl_reply p) = waiting (sx_lookups ctx)"
    using waiting_upd [of "sx_lookups ctx" i None] Some by simp
  moreover have "waiting ((sx_lookups ctx)(i \<mapsto> p\<lparr>pl_lookup := l\<rparr>)) = waiting (sx_lookups ctx)"
    using Some by (intro waiting_same) simp
  ultimately show ?thesis
    using Some d k by (simp add: sweep_one_def) (simp add: ledger_def bump_def add.assoc)
qed

lemma ledger_sweep [simp]: "ledger (sweep_lookups env ctx) = ledger ctx"
  unfolding sweep_lookups_def by (rule foldl_keeps [where P = "\<lambda>c. ledger c = ledger ctx"]) simp_all

lemma ledger_update [simp]: "ledger (update_lookup env n f ctx) = ledger ctx"
proof -
  have "waits (map_option (\<lambda>p. p\<lparr>pl_lookup := f (pl_lookup p)\<rparr>) x) = waits x" for x
    by (cases x) simp_all
  then show ?thesis
    by (simp add: update_lookup_def ledger_def waiting_same split: option.split)
qed

lemma ledger_closer [simp]: "ledger (complete_closer env n src peers ctx) = ledger ctx"
  by (simp add: complete_closer_def Let_def)

section \<open>Events\<close>

lemma ledger_fields [simp]:
  "ledger (ctx\<lparr>sx_store := st\<rparr>) = ledger ctx" "ledger (ctx\<lparr>sx_timers := h\<rparr>) = ledger ctx"
  "ledger (ctx\<lparr>sx_metrics := m\<rparr>) = ledger ctx" "ledger (bump f ctx) = ledger ctx"
  "ledger (set_clocks ck ctx) = ledger ctx" "ledger (schedule_at t kind ctx) = ledger ctx"
  "ledger (flush_stores env ctx) = ledger ctx"
  by (simp_all add: ledger_def bump_def set_clocks_def schedule_at_def flush_stores_def split_beta Let_def)

lemma ledger_punches:
  "ledger (foldl (\<lambda>ctx p. start_punch env src (peers_upsert env p (table_insert p ctx)) p) ctx peers) = ledger ctx"
  "ledger (foldl (\<lambda>ctx p. start_punch env src (table_insert p ctx) p) ctx peers) = ledger ctx"
  using ledger.foldl_inv [of ctx "ledger ctx" peers]
  by (simp_all add: ledger.start_punch_inv ledger.upsert_inv ledger.table_insert_inv)

lemma ledger_find_node_resp: "ledger (on_find_node_resp env src h pkt ctx) = ledger ctx"
  by (auto simp: on_find_node_resp_def Let_def ledger_punches intro!: ledger.learn_addr_inv split: option.split)

lemma ledger_find_value_resp: "ledger (on_find_value_resp env src h pkt ctx) = ledger ctx"
  by (auto simp: on_find_value_resp_def Let_def ledger_punches split: option.split find_value_result.split)

interpretation drive: ctx_drive env "\<lambda>_. True" "\<lambda>_. True" "\<lambda>ctx. ledger ctx = C" "\<lambda>_. True" for env C
  by unfold_locales
    (auto simp: handle_message_def ledger_find_node_resp ledger_find_value_resp ledger.on_ping_inv ledger.on_pong_inv
      ledger.on_negotiate_inv ledger.on_find_node_inv ledger.on_find_value_inv ledger.on_store_inv ledger.on_announce_inv
      ledger.on_punch_inv ledger.send_error_inv split: message_type.splits)


text \<open>The channel a command brings.\<close>

fun asked_by :: "shard_event \<Rightarrow> channel multiset" where
  "asked_by (EvCommand (CmdPut v ttl ch)) = {#ch#}"
| "asked_by (EvCommand (CmdGet k ch)) = {#ch#}"
| "asked_by (EvCommand (CmdPutMutable r ch)) = {#ch#}"
| "asked_by (EvCommand (CmdAnnounce k meta ch)) = {#ch#}"
| "asked_by (EvCommand (CmdFindProviders k ch)) = {#ch#}"
| "asked_by _ = {#}"

definition asked :: "(clocks \<times> shard_event) list \<Rightarrow> channel multiset" where
  "asked es = (\<Sum>e \<leftarrow> es. asked_by (snd e))"

lemma ledger_rpcs:
  "ledger (send_store_rpc env r ctx) = ledger ctx" "ledger (replicate_store env v k ttl ctx) = ledger ctx"
  "ledger (announce_rpc env k meta ctx) = ledger ctx" "ledger (ping env addr ctx) = ledger ctx"
  "ledger (foldl (\<lambda>c addr. ping env addr c) ctx seeds) = ledger ctx"
  using ledger.foldl_inv [of ctx "ledger ctx" seeds]
  by (simp_all add: ledger.send_store_rpc_inv ledger.replicate_store_inv ledger.announce_rpc_inv ledger.ping_inv)

lemma ledger_inject: "ledger (cmd_inject_peer env info ctx) = ledger ctx"
  by (auto simp: cmd_inject_peer_def Let_def split: option.splits
      intro!: ledger.upsert_inv ledger.table_insert_inv ledger.keys ledger.add_peer_inv)

lemma ledger_find: "ledger ctx = C \<Longrightarrow> ledger (start_lookup env kind k (Some ch) ctx) \<subseteq># add_mset ch C"
  using ledger_start [of env kind k "Some ch" ctx] by simp

lemma ledger_cmd: "ledger (handle_cmd env cmd ctx) \<subseteq># ledger ctx + asked_by (EvCommand cmd)"
proof (cases cmd)
  case (CmdPut v ttl ch)
  then show ?thesis
    by (auto simp: cmd_put_def Let_def ledger_rpcs split: prod.split sum.split)
next
  case (CmdGet k ch)
  then show ?thesis
    by (simp add: cmd_get_def Let_def ledger_find split: option.split)
next
  case (CmdPutMutable r ch)
  then show ?thesis
    by (auto simp: cmd_put_mutable_def ledger_rpcs split: prod.split sum.split)
next
  case (CmdFindProviders k ch)
  then show ?thesis
    by (simp add: cmd_find_providers_def Let_def ledger_find)
qed (simp_all add: ledger_rpcs ledger_inject cmd_announce_def)


lemma waiting_timeouts: "waiting (snd (lookup_timeouts now ids m)) = waiting m"
  unfolding lookup_timeouts_def
proof (rule foldl_keeps [where P = "\<lambda>s. waiting (snd s) = waiting m"])
  show "waiting (snd ([], m)) = waiting m" by simp
qed (auto simp: split_beta Let_def waiting_same split: option.split)

lemma ledger_penalize: "ledger (foldl penalize_peer ctx dead) = ledger ctx"
  by (rule ledger.foldl_inv) (simp_all add: ledger.penalize_inv)

lemma ledger_tick: "ledger (timer_lookup_tick env ctx) = ledger ctx"
proof -
  have "ledger (ctx\<lparr>sx_lookups := snd (lookup_timeouts now ids (sx_lookups ctx))\<rparr>) = ledger ctx" for now ids
    by (simp add: ledger_def waiting_timeouts)
  then show ?thesis
    by (simp add: timer_lookup_tick_def split_beta Let_def ledger_penalize)
qed

lemma ledger_timer: "ledger (on_timer env kind ctx) = ledger ctx"
  by (cases kind) (simp_all add: ledger_tick ledger.keepalive_inv ledger.on_punch_timer_inv)

lemma ledger_timers: "ledger (run_timers env ctx) = ledger ctx"
  unfolding run_timers_def split_beta Let_def by (rule ledger.foldl_inv) (simp_all add: ledger_timer)

lemma ledger_step:
  assumes "shard_step env ctx e = Some ctx'"
  shows "ledger ctx' \<subseteq># ledger ctx + asked_by (snd e)"
proof -
  obtain ck ev where e: "e = (ck, ev)" by (cases e)
  show ?thesis
  proof (cases ev)
    case (EvDatagram src pkt)
    then show ?thesis
      using assms e drive.receive_inv [of env "set_clocks ck ctx" "(src, pkt)" ctx' "ledger ctx"] by simp
  next
    case (EvCommand cmd)
    then show ?thesis
      using assms e ledger_cmd [of env cmd "set_clocks ck ctx"] by auto
  qed (use assms e in \<open>auto simp: ledger_timer ledger_timers\<close>)
qed

lemma ledger_run: "shard_run env ctx es = Some ctx' \<Longrightarrow> ledger ctx' \<subseteq># ledger ctx + asked es"
proof (induction es arbitrary: ctx)
  case (Cons e es)
  then obtain c where c: "shard_step env ctx e = Some c" "shard_run env c es = Some ctx'"
    by (auto split: bind_splits)
  have "ledger ctx' \<subseteq># ledger c + asked es"
    using Cons.IH c(2) by blast
  also have "\<dots> \<subseteq># ledger ctx + asked_by (snd e) + asked es"
    using ledger_step [OF c(1)] by simp
  finally show ?case
    by (simp add: asked_def add.assoc)
qed (simp add: asked_def)

section \<open>At most one answer\<close>

text \<open>
  C10. A command is answered at most once, and nobody else is: in every run the channels that were
  answered, with how often they were, and those still waiting with a lookup are among the channels
  the commands of the run brought. With a channel of its own for each command no channel gets a
  second answer, nor an answer while it waits.
\<close>

theorem shard_answers_once:
  assumes "shard_new env n ident cfg addr d ck = (bufs, ctx0)" and "shard_run env ctx0 es = Some ctx"
  shows "mset (map fst (sx_replies ctx)) + waiting (sx_lookups ctx) \<subseteq># asked es
    \<and> ((\<forall>ch. count (asked es) ch \<le> 1) \<longrightarrow> distinct (map fst (sx_replies ctx))
         \<and> (\<forall>i p ch. sx_lookups ctx i = Some p \<longrightarrow> pl_reply p = Some ch \<longrightarrow> ch \<notin> fst ` set (sx_replies ctx)))"
proof -
  have "sx_replies ctx0 = []" "sx_lookups ctx0 = Map.empty"
    using assms(1) by (auto simp: shard_new_def split_beta Let_def)
  then have "ledger ctx0 = {#}"
    by (simp add: ledger_def waiting_def)
  then have sub: "mset (map fst (sx_replies ctx)) + waiting (sx_lookups ctx) \<subseteq># asked es"
    using ledger_run [OF assms(2)] by (simp add: ledger_def)
  moreover have "distinct (map fst (sx_replies ctx))" if one: "\<forall>ch. count (asked es) ch \<le> 1"
  proof -
    have "count (mset (map fst (sx_replies ctx))) ch \<le> 1" for ch
      using mset_subset_eq_count [OF sub, of ch] spec [OF one, of ch] by simp
    then show ?thesis
      unfolding distinct_count_atmost_1 by (metis count_mset_0_iff le_antisym less_one not_le)
  qed
  moreover have "ch \<notin> fst ` set (sx_replies ctx)"
    if one: "\<forall>ch. count (asked es) ch \<le> 1" and p: "sx_lookups ctx i = Some p" "pl_reply p = Some ch" for i p ch
  proof -
    have "count (mset (map fst (sx_replies ctx))) ch + count (waiting (sx_lookups ctx)) ch \<le> 1"
      using mset_subset_eq_count [OF sub, of ch] spec [OF one, of ch] by simp
    moreover have "0 < count (waiting (sx_lookups ctx)) ch"
      using waiting_has [of "sx_lookups ctx", OF p] by (simp add: count_greater_zero_iff)
    ultimately have "count (mset (map fst (sx_replies ctx))) ch = 0" by linarith
    then show ?thesis
      by (simp add: count_eq_zero_iff)
  qed
  ultimately show ?thesis by blast
qed


theorem shard_answers_once_witness:
  "\<exists>ctx. shard_run demo_env demo_shard
      [(demo_ck 10, EvCommand (CmdPut [1, 2, 3] 60 7)), (demo_ck 20, EvCommand (CmdGet (Key (replicate 32 9)) 8))] = Some ctx
    \<and> mset (map fst (sx_replies ctx)) + waiting (sx_lookups ctx) \<subseteq># {#7, 8#} \<and> distinct (map fst (sx_replies ctx))"
proof -
  let ?es = "[(demo_ck 10, EvCommand (CmdPut [1, 2, 3] 60 7)), (demo_ck 20, EvCommand (CmdGet (Key (replicate 32 9)) 8))]"
  obtain ctx where run: "shard_run demo_env demo_shard ?es = Some ctx"
    using shard_run_defined [of demo_env "\<lambda>_. 0"] demo_relay_part demo_tunn_drains by force
  obtain bufs where new: "shard_new demo_env 0 demo_identity node_config_default (AddrV4 127 0 0 1 4000) empty_disk
      \<lparr>ck_now = 0, ck_unix = 0, ck_unix_ms = 0\<rparr> = (bufs, demo_shard)"
    by (simp add: demo_shard_def prod_eq_iff)
  have "asked ?es = {#7, 8#}"
    by (simp add: asked_def)
  with shard_answers_once [OF new run] run show ?thesis
    by (auto simp del: shard_run.simps)
qed

section \<open>Every lookup is answered\<close>

text \<open>A lookup whose budget is used up, and one that has been answered.\<close>

definition due :: "u32 \<Rightarrow> channel option \<Rightarrow> 't shard_ctx \<Rightarrow> bool" where
  "due i r ctx = (\<exists>p. sx_lookups ctx i = Some p \<and> pl_reply p = r
     \<and> lk_started (pl_lookup p) + lk_budget (pl_lookup p) \<le> sx_now ctx)"

definition answered :: "u32 \<Rightarrow> channel option \<Rightarrow> 't shard_ctx \<Rightarrow> bool" where
  "answered i r ctx = (sx_lookups ctx i = None \<and> (\<forall>ch. r = Some ch \<longrightarrow> ch \<in> fst ` set (sx_replies ctx)))"

lemma due_fields [simp]:
  "due i r (ctx\<lparr>sx_timers := h\<rparr>) = due i r ctx" "answered i r (ctx\<lparr>sx_timers := h\<rparr>) = answered i r ctx"
  "due i r (schedule_at t kind ctx) = due i r ctx" "answered i r (schedule_at t kind ctx) = answered i r ctx"
  by (simp_all add: due_def answered_def schedule_at_def)

lemma dispatch_due:
  assumes "lk_started l + lk_budget l \<le> sx_now ctx"
  shows "dispatch_lookup_batch env l ctx = (l\<lparr>lk_done := True\<rparr>, ctx)"
proof -
  have "lk_budget l \<le> sx_now ctx - lk_started l"
    using assms by simp
  then show ?thesis
    by (simp add: dispatch_lookup_batch_def next_batch_def)
qed

lemma sweep_one_due:
  assumes "due i r ctx"
  shows "answered i r (sweep_one env ctx i)"
proof -
  from assms obtain p where p: "sx_lookups ctx i = Some p" "pl_reply p = r"
    "lk_started (pl_lookup p) + lk_budget (pl_lookup p) \<le> sx_now ctx"
    by (auto simp: due_def)
  then show ?thesis
    by (simp add: sweep_one_def dispatch_due answered_def finish_lookup_def bump_def send_reply_def split: option.split)
qed

lemma sweep_one_frame:
  assumes "j \<noteq> i"
  shows "sx_lookups (sweep_one env ctx j) i = sx_lookups ctx i" and "sx_now (sweep_one env ctx j) = sx_now ctx"
    and "set (sx_replies ctx) \<subseteq> set (sx_replies (sweep_one env ctx j))"
proof -
  have "sx_lookups (sweep_one env ctx j) i = sx_lookups ctx i \<and> sx_now (sweep_one env ctx j) = sx_now ctx
    \<and> set (sx_replies ctx) \<subseteq> set (sx_replies (sweep_one env ctx j))"
  proof (cases "sx_lookups ctx j")
    case None
    then show ?thesis by (simp add: sweep_one_def)
  next
    case (Some p)
    let ?c = "ctx\<lparr>sx_lookups := (sx_lookups ctx)(j := None)\<rparr>"
    obtain l ctx2 where d: "dispatch_lookup_batch env (pl_lookup p) ?c = (l, ctx2)"
      by (cases "dispatch_lookup_batch env (pl_lookup p) ?c")
    have "sx_lookups ctx2 = (sx_lookups ctx)(j := None)" "sx_replies ctx2 = sx_replies ctx" "sx_now ctx2 = sx_now ctx"
      using dispatch_kept [of env "pl_lookup p" ?c] d by simp_all
    then show ?thesis
      using Some d assms by (auto simp: sweep_one_def finish_lookup_def bump_def send_reply_def split: option.split)
  qed
  then show "sx_lookups (sweep_one env ctx j) i = sx_lookups ctx i" "sx_now (sweep_one env ctx j) = sx_now ctx"
    "set (sx_replies ctx) \<subseteq> set (sx_replies (sweep_one env ctx j))"
    by blast+
qed

lemma sweep_one_other:
  assumes "j \<noteq> i"
  shows "due i r (sweep_one env ctx j) = due i r ctx" and "answered i r ctx \<Longrightarrow> answered i r (sweep_one env ctx j)"
  using sweep_one_frame [OF assms, where env = env and ctx = ctx] by (auto simp: due_def answered_def) (metis fst_conv imageI in_mono)

lemma sweep_one_answered: "answered i r ctx \<Longrightarrow> answered i r (sweep_one env ctx j)"
  by (cases "j = i") (simp_all add: sweep_one_other, simp add: answered_def sweep_one_def)

lemma sweep_due:
  assumes "due i r ctx \<and> i \<in> set ids \<or> answered i r ctx"
  shows "answered i r (foldl (sweep_one env) ctx ids)"
  using assms
proof (induction ids arbitrary: ctx)
  case (Cons j ids)
  show ?case
  proof (cases "j = i")
    case True
    then show ?thesis
      using Cons sweep_one_due [of i r ctx env] sweep_one_answered [of i r ctx env] by auto
  next
    case False
    then show ?thesis
      using Cons.IH [of "sweep_one env ctx j"] Cons.prems sweep_one_other(1) [OF False, of r env ctx] sweep_one_other(2) [OF False, of r ctx env] by auto
  qed
qed simp


lemma due_kept:
  assumes "sx_lookups ctx' = sx_lookups ctx \<and> sx_replies ctx' = sx_replies ctx \<and> sx_now ctx' = sx_now ctx"
  shows "due i r ctx' = due i r ctx" and "answered i r ctx' = answered i r ctx"
  using assms by (simp_all add: due_def answered_def)

lemma timeouts_clock [simp]:
  "lk_started (snd (on_timeouts now l)) = lk_started l" "lk_budget (snd (on_timeouts now l)) = lk_budget l"
  using clock_step [of l "[]" "LkTimeouts now"] by simp_all

lemma due_timeouts:
  "due i r (ctx\<lparr>sx_lookups := snd (lookup_timeouts now ids (sx_lookups ctx))\<rparr>) = due i r ctx"
  "answered i r (ctx\<lparr>sx_lookups := snd (lookup_timeouts now ids (sx_lookups ctx))\<rparr>) = answered i r ctx"
proof -
  let ?v = "\<lambda>p. (pl_reply p, lk_started (pl_lookup p), lk_budget (pl_lookup p))"
  have "map_option ?v (snd (lookup_timeouts now ids (sx_lookups ctx)) i) = map_option ?v (sx_lookups ctx i)"
    unfolding lookup_timeouts_def
  proof (rule foldl_keeps [where P = "\<lambda>s. map_option ?v (snd s i) = map_option ?v (sx_lookups ctx i)"])
    show "map_option ?v (snd ([], sx_lookups ctx) i) = map_option ?v (sx_lookups ctx i)" by simp
  qed (auto simp: split_beta Let_def split: option.splits if_splits)
  then show "due i r (ctx\<lparr>sx_lookups := snd (lookup_timeouts now ids (sx_lookups ctx))\<rparr>) = due i r ctx"
    "answered i r (ctx\<lparr>sx_lookups := snd (lookup_timeouts now ids (sx_lookups ctx))\<rparr>) = answered i r ctx"
    by (cases "sx_lookups ctx i"; cases "snd (lookup_timeouts now ids (sx_lookups ctx)) i";
        auto simp: due_def answered_def)+
qed


text \<open>A traversal of the lookups visits all of them.\<close>

definition iterates :: "((u32 \<rightharpoonup> pending_lookup) \<Rightarrow> u32 list) \<Rightarrow> bool" where
  "iterates it = (\<forall>m. set (it m) = dom m)"

lemma tick_answers:
  assumes "iterates (it_lookups env)" "due i r ctx \<or> answered i r ctx"
  shows "answered i r (timer_lookup_tick env ctx)"
proof -
  let ?t = "lookup_timeouts (sx_now ctx) (it_lookups env (sx_lookups ctx)) (sx_lookups ctx)"
  let ?c = "foldl penalize_peer (ctx\<lparr>sx_lookups := snd ?t\<rparr>) (fst ?t)"
  have "sx_lookups ?c = sx_lookups (ctx\<lparr>sx_lookups := snd ?t\<rparr>)
      \<and> sx_replies ?c = sx_replies (ctx\<lparr>sx_lookups := snd ?t\<rparr>) \<and> sx_now ?c = sx_now (ctx\<lparr>sx_lookups := snd ?t\<rparr>)"
    by (rule kept.foldl_inv) (simp_all add: kept.penalize_inv)
  then have "due i r ?c = due i r ctx" "answered i r ?c = answered i r ctx"
    using due_kept [of ?c "ctx\<lparr>sx_lookups := snd ?t\<rparr>" i r] by (simp_all only: due_timeouts)
  moreover have "i \<in> set (it_lookups env (sx_lookups ?c))" if "due i r ?c"
    using that assms(1) by (auto simp: due_def iterates_def)
  ultimately have "answered i r (sweep_lookups env ?c)"
    using assms(2) unfolding sweep_lookups_def by (intro sweep_due) blast
  then show ?thesis
    by (simp add: timer_lookup_tick_def split_beta Let_def)
qed

lemma timer_due:
  assumes "iterates (it_lookups env)" "due i r ctx \<or> answered i r ctx"
  shows "due i r (on_timer env kind ctx) \<or> answered i r (on_timer env kind ctx)"
    and "answered i r ctx \<Longrightarrow> answered i r (on_timer env kind ctx)"
    and "kind = LookupTick \<Longrightarrow> answered i r (on_timer env kind ctx)"
proof -
  show "kind = LookupTick \<Longrightarrow> answered i r (on_timer env kind ctx)"
    using tick_answers [OF assms] by simp
  have k: "sx_lookups (on_timer env kind ctx) = sx_lookups ctx \<and> sx_replies (on_timer env kind ctx) = sx_replies ctx
      \<and> sx_now (on_timer env kind ctx) = sx_now ctx" if "kind \<noteq> LookupTick"
    using that kept.keepalive_inv [of ctx "sx_lookups ctx" "sx_replies ctx" "sx_now ctx"]
      kept.on_punch_timer_inv [of ctx "sx_lookups ctx" "sx_replies ctx" "sx_now ctx"]
    by (cases kind) (simp_all add: schedule_at_def flush_stores_def split_beta Let_def)
  show "due i r (on_timer env kind ctx) \<or> answered i r (on_timer env kind ctx)"
    "answered i r ctx \<Longrightarrow> answered i r (on_timer env kind ctx)"
    using assms due_kept [OF k, of i r] tick_answers [OF assms(1)] by (cases "kind = LookupTick"; auto)+
qed

lemma timers_due:
  assumes "iterates (it_lookups env)" "due i r ctx \<and> LookupTick \<in> set kinds \<or> answered i r ctx"
  shows "answered i r (foldl (\<lambda>c kind. on_timer env kind c) ctx kinds)"
  using assms(2)
proof (induction kinds arbitrary: ctx)
  case (Cons kind kinds)
  then show ?case
    using timer_due [OF assms(1), of i r ctx kind] by (cases "kind = LookupTick") auto
qed simp


text \<open>
  The next tick is never more than 50 ms away: the wheel has one when the shard starts, only a tick
  removes it, and the tick schedules the next.
\<close>

definition tick_by :: "instant \<Rightarrow> 't shard_ctx \<Rightarrow> bool" where
  "tick_by t ctx = (\<exists>u \<in> set (sx_timers ctx). timer_kind u = LookupTick \<and> timer_at u \<le> t)"

lemma set_schedule: "set (schedule t kind h) = insert (Timer t kind) (set h)"
proof -
  have "set (heap_push u h) = insert u (set h)" for u
    by (induction h) auto
  then show ?thesis
    by (simp add: schedule_def)
qed

interpretation ticking: ctx_run env "\<lambda>_. True" "\<lambda>_. True"
    "\<lambda>ctx. lookups_fine (sx_lookups ctx) \<and> sx_now ctx = N \<and> tick_by t ctx" "\<lambda>_. True"
  for env N t
  by unfold_locales
    (auto simp: tick_by_def set_schedule pending_push_def flush_stores_def split_beta Let_def list_all_iff)

lemma tick_scheduled: "tick_by (sx_now ctx + millis 50) (timer_lookup_tick env ctx)"
  by (simp add: timer_lookup_tick_def split_beta Let_def tick_by_def schedule_at_def set_schedule)

interpretation steady: ctx_run env "\<lambda>_. True" "\<lambda>_. True"
    "\<lambda>ctx. lookups_fine (sx_lookups ctx) \<and> sx_now ctx = N" "\<lambda>_. True" for env N
  by unfold_locales (auto simp: pending_push_def flush_stores_def split_beta Let_def list_all_iff)

lemma timers_tick:
  assumes "lookups_fine (sx_lookups ctx) \<and> sx_now ctx = N" "LookupTick \<in> set kinds"
  shows "tick_by (N + millis 50) (foldl (\<lambda>c kind. on_timer env kind c) ctx kinds)"
proof -
  obtain ks1 ks2 where ks: "kinds = ks1 @ LookupTick # ks2"
    using assms(2) by (auto simp: in_set_conv_decomp)
  let ?c1 = "foldl (\<lambda>c kind. on_timer env kind c) ctx ks1"
  have c1: "lookups_fine (sx_lookups ?c1) \<and> sx_now ?c1 = N"
    using assms(1) by (rule steady.foldl_inv) (rule steady.on_timer_inv)
  then have "lookups_fine (sx_lookups (on_timer env LookupTick ?c1)) \<and> sx_now (on_timer env LookupTick ?c1) = N
      \<and> tick_by (N + millis 50) (on_timer env LookupTick ?c1)"
    using steady.on_timer_inv [OF c1, of env LookupTick] tick_scheduled [of ?c1 env] by simp
  then have "lookups_fine (sx_lookups (foldl (\<lambda>c kind. on_timer env kind c) (on_timer env LookupTick ?c1) ks2))
      \<and> sx_now (foldl (\<lambda>c kind. on_timer env kind c) (on_timer env LookupTick ?c1) ks2) = N
      \<and> tick_by (N + millis 50) (foldl (\<lambda>c kind. on_timer env kind c) (on_timer env LookupTick ?c1) ks2)"
    by (rule ticking.foldl_inv) (rule ticking.on_timer_inv)
  then show ?thesis
    by (simp add: ks)
qed

lemma run_timers_tick:
  assumes "lookups_fine (sx_lookups ctx)" "wheel_ok (sx_timers ctx)" "tick_by (sx_now ctx + millis 50) ctx"
  shows "tick_by (sx_now ctx + millis 50) (run_timers env ctx)"
proof -
  let ?h = "filter (\<lambda>u. \<not> timer_at u \<le> sx_now ctx) (sx_timers ctx)"
  let ?kinds = "map timer_kind (filter (\<lambda>u. timer_at u \<le> sx_now ctx) (sx_timers ctx))"
  let ?c = "ctx\<lparr>sx_timers := ?h\<rparr>"
  have run: "run_timers env ctx = foldl (\<lambda>c kind. on_timer env kind c) ?c ?kinds"
    using assms(2) by (simp add: run_timers_def pop_due_eq)
  show ?thesis
  proof (cases "LookupTick \<in> set ?kinds")
    case True
    then show ?thesis
      using timers_tick [of ?c "sx_now ctx"] assms(1) run by simp
  next
    case False
    then have "tick_by (sx_now ctx + millis 50) ?c"
      using assms(3) by (force simp: tick_by_def)
    then have "lookups_fine (sx_lookups ?c) \<and> sx_now ?c = sx_now ctx \<and> tick_by (sx_now ctx + millis 50) ?c"
      using assms(1) by simp
    then have "tick_by (sx_now ctx + millis 50) (foldl (\<lambda>c kind. on_timer env kind c) ?c ?kinds)"
      using ticking.foldl_inv [of ?c "sx_now ctx" "sx_now ctx + millis 50" ?kinds "\<lambda>c kind. on_timer env kind c"]
        ticking.on_timer_inv by blast
    then show ?thesis
      by (simp only: run)
  qed
qed


lemma run_timers_now:
  assumes "lookups_fine (sx_lookups ctx)"
  shows "sx_now (run_timers env ctx) = sx_now ctx"
proof -
  let ?c = "ctx\<lparr>sx_timers := snd (pop_due (sx_now ctx) (sx_timers ctx))\<rparr>"
  have "lookups_fine (sx_lookups ?c) \<and> sx_now ?c = sx_now ctx"
    using assms by simp
  then show ?thesis
    unfolding run_timers_def split_beta Let_def
    using steady.foldl_inv [of ?c "sx_now ctx" _ "\<lambda>c kind. on_timer env kind c"] steady.on_timer_inv by blast
qed

lemma step_tick:
  assumes "healthy env K i ctx" "tick_by (sx_now ctx + millis 50) ctx" "sx_now ctx \<le> ck_now (fst e)"
    and "shard_step env ctx e = Some ctx'"
  shows "sx_now ctx' = ck_now (fst e) \<and> tick_by (sx_now ctx' + millis 50) ctx'"
proof -
  obtain ck ev where e: "e = (ck, ev)" by (cases e)
  let ?c = "set_clocks ck ctx"
  have fine: "lookups_fine (sx_lookups ?c)" "wheel_ok (sx_timers ?c)" and now: "sx_now ?c = ck_now ck"
    using assms(1) by (simp_all add: healthy_def set_clocks_def)
  have "tick_by (ck_now ck + millis 50) ?c"
    using assms(2,3) e by (force simp: tick_by_def set_clocks_def)
  then have I: "lookups_fine (sx_lookups ?c) \<and> sx_now ?c = ck_now ck \<and> tick_by (ck_now ck + millis 50) ?c"
    using fine now by simp
  show ?thesis
  proof (cases ev)
    case (EvDatagram src pkt)
    then show ?thesis
      using assms(4) e ticking.receive_inv [OF _ I] by simp
  next
    case (EvCommand cmd)
    have "command_ok (\<lambda>_. True) cmd"
      by (cases "(\<lambda>_ :: bytes. True, cmd)" rule: command_ok.cases) simp_all
    then show ?thesis
      using EvCommand assms(4) e ticking.handle_cmd_inv [OF I, of cmd env] by auto
  next
    case (EvTimer kind)
    then show ?thesis
      using assms(4) e ticking.on_timer_inv [OF I, of env kind] by auto
  next
    case EvTimers
    then show ?thesis
      using assms(4) e run_timers_tick [of ?c env] run_timers_now [of ?c env] fine now I by auto
  qed
qed

lemma run_tick:
  assumes "shard_run env ctx es = Some ctx'" "healthy env (bound_key (en_crypto env) UNIV) i ctx"
    "tick_by (sx_now ctx + millis 50) ctx" "sorted (sx_now ctx # map (\<lambda>e. ck_now (fst e)) es)"
  shows "tick_by (sx_now ctx' + millis 50) ctx' \<and> sx_now ctx' = last (sx_now ctx # map (\<lambda>e. ck_now (fst e)) es)"
  using assms
proof (induction es arbitrary: ctx)
  case (Cons e es)
  then obtain c where c: "shard_step env ctx e = Some c" "shard_run env c es = Some ctx'"
    by (auto split: bind_splits)
  have t: "sx_now c = ck_now (fst e)" "tick_by (sx_now c + millis 50) c"
    using step_tick [OF Cons.prems(2,3) _ c(1)] Cons.prems(4) by auto
  have h: "healthy env (bound_key (en_crypto env) UNIV) i c"
    using health.step_inv [OF c(1) event_ok_any Cons.prems(2)] .
  have "sorted (sx_now c # map (\<lambda>e. ck_now (fst e)) es)"
    using Cons.prems(4) t(1) by simp
  with Cons.IH [OF c(2) h t(2)] t(1) show ?case by auto
qed simp

lemma started_tick:
  assumes "shard_new env n ident cfg addr d ck0 = (bufs, ctx0)" "shard_run env ctx0 es = Some ctx"
    "sorted (ck_now ck0 # map (\<lambda>e. ck_now (fst e)) es)"
  shows "tick_by (sx_now ctx + millis 50) ctx" "sx_now ctx = last (ck_now ck0 # map (\<lambda>e. ck_now (fst e)) es)"
proof -
  have "sx_now ctx0 = ck_now ck0" "tick_by (sx_now ctx0 + millis 50) ctx0"
    using assms(1) by (auto simp: shard_new_def tick_by_def set_schedule split_beta Let_def)
  then show "tick_by (sx_now ctx + millis 50) ctx" "sx_now ctx = last (ck_now ck0 # map (\<lambda>e. ck_now (fst e)) es)"
    using run_tick [OF assms(2) shard_new_healthy [OF assms(1)]] assms(3) by auto
qed

text \<open>
  C11. A lookup is answered: when the clock does not run backwards, a turn of the timers that comes
  once the budget of 1.5 seconds of a waiting lookup is used up, and 50 ms after the last event or
  later, ends that lookup and answers its channel, whatever messages came before.
\<close>

theorem lookup_answered:
  assumes "shard_new env n ident cfg addr d ck0 = (bufs, ctx0)" and "shard_run env ctx0 es = Some ctx"
    and "sorted (ck_now ck0 # map (\<lambda>e. ck_now (fst e)) es)" and "iterates (it_lookups env)"
    and "sx_lookups ctx i = Some p" and "lk_started (pl_lookup p) + millis 1500 \<le> ck_now ck"
    and "sx_now ctx + millis 50 \<le> ck_now ck"
  shows "\<exists>ctx'. shard_step env ctx (ck, EvTimers) = Some ctx' \<and> sx_lookups ctx' i = None
    \<and> (\<forall>ch. pl_reply p = Some ch \<longrightarrow> ch \<in> fst ` set (sx_replies ctx'))"
proof -
  have h: "healthy env (bound_key (en_crypto env) UNIV) (identity_node_id (en_crypto env) ident) ctx"
    using shard_run_healthy [OF assms(1,2)] .
  note tick = started_tick(1) [OF assms(1-3)]
  let ?c = "set_clocks ck ctx"
  have "lookups_fine (sx_lookups ctx)" and wheel: "wheel_ok (sx_timers ctx)"
    using h by (simp_all add: healthy_def)
  then have "lk_budget (pl_lookup p) = millis 1500"
    using assms(5) by (auto simp: lookups_fine_def lookup_fine_def)
  then have "due i (pl_reply p) ?c"
    using assms(5,6) by (simp add: due_def set_clocks_def)
  moreover obtain u where "u \<in> set (sx_timers ctx)" "timer_kind u = LookupTick" "timer_at u \<le> ck_now ck"
    using tick assms(7) by (auto simp: tick_by_def)
  then have "LookupTick \<in> set (map timer_kind (filter (\<lambda>u. timer_at u \<le> sx_now ?c) (sx_timers ?c)))"
    by (force simp: set_clocks_def)
  ultimately have "answered i (pl_reply p) (run_timers env ?c)"
    using wheel timers_due [OF assms(4)] by (simp add: run_timers_def pop_due_eq set_clocks_def)
  then show ?thesis
    by (simp add: answered_def)
qed


section \<open>What a lookup starts with\<close>

lemma dispatch_done:
  "lk_done (fst (dispatch_lookup_batch env l ctx)) = lk_done (snd (next_batch (sx_now ctx) l))
   \<and> lk_started (fst (dispatch_lookup_batch env l ctx)) = lk_started l"
proof -
  have "lk_done (fst (foldl (dispatch_one env) s ps)) = lk_done (fst s)
      \<and> lk_started (fst (foldl (dispatch_one env) s ps)) = lk_started (fst s)" for s ps
    by (rule foldl_keeps [where P = "\<lambda>s'. lk_done (fst s') = lk_done (fst s) \<and> lk_started (fst s') = lk_started (fst s)"])
      (simp_all add: dispatch_one_def note_sent_def split_beta Let_def split: option.split)
  then show ?thesis
    by (simp add: dispatch_lookup_batch_def split_beta Let_def) (simp add: next_batch_def Let_def)
qed

lemma pick_batch_grows: "length batch \<le> length (pick_batch l batch ps)"
proof (induction ps arbitrary: batch)
  case (Cons p ps)
  show ?case
    using Cons.IH [of batch] Cons.IH [of "batch @ [p]"] by (auto simp: try_push_def)
qed simp

lemma first_batch: "(fst (next_batch now (lookup_new now kind k seeds privacy)) = []) = (seeds = [])"
proof (cases "sort_shortlist k seeds")
  case Nil
  then have "seeds = []"
    using sort_shortlist_simps(1) [of k seeds] by simp
  then show ?thesis
    using Nil by (simp add: next_batch_def lookup_new_def Let_def)
next
  case (Cons p ps)
  let ?l = "lookup_new now kind k seeds privacy"
  have "pick_batch ?l [] (lk_shortlist ?l) = pick_batch ?l [p] ps"
    using Cons by (simp add: lookup_new_def try_push_def alpha_consts)
  then have "fst (next_batch now ?l) = pick_batch ?l [p] ps"
    by (simp add: next_batch_def lookup_new_def Let_def millis_def)
  moreover have "seeds \<noteq> []"
    using Cons sort_shortlist_simps(1) [of k seeds] by auto
  ultimately show ?thesis
    using pick_batch_grows [of "[p]" ?l ps] by auto
qed

lemma first_batch_state:
  assumes "l = lookup_new now kind k seeds privacy"
  shows "snd (next_batch now l) = (if seeds = [] then l\<lparr>lk_done := True\<rparr> else l)"
proof -
  have "next_batch now l = (pick_batch l [] (lk_shortlist l),
      if pick_batch l [] (lk_shortlist l) = [] then l\<lparr>lk_done := True\<rparr> else l)"
    by (simp add: assms next_batch_def Let_def) (simp add: lookup_new_def millis_def)
  then show ?thesis
    using first_batch [of now kind k seeds privacy] by (simp add: assms)
qed

text \<open>
  Without any contact a lookup is answered at once with nothing found, and no message is sent;
  otherwise it waits with its channel, and no channel is answered.
\<close>

lemma start_lookup_spec:
  "(if closest (sx_table ctx) k ALPHA_DEFAULT = []
    then start_lookup env FindValue k (Some ch) ctx = send_reply ch (ReplyValue None) ctx
    else \<exists>i p. sx_lookups (start_lookup env FindValue k (Some ch) ctx) = (sx_lookups ctx)(i \<mapsto> p)
           \<and> pl_reply p = Some ch \<and> lk_started (pl_lookup p) = sx_now ctx
           \<and> sx_replies (start_lookup env FindValue k (Some ch) ctx) = sx_replies ctx)"
proof -
  let ?seeds = "closest (sx_table ctx) k ALPHA_DEFAULT"
  let ?l = "lookup_new (sx_now ctx) FindValue k ?seeds (if cf_query_blind (sx_cfg ctx) then Blind else PrivNone)"
  obtain l ctx1 where d: "dispatch_lookup_batch env ?l ctx = (l, ctx1)"
    by (cases "dispatch_lookup_batch env ?l ctx")
  have nb: "next_batch (sx_now ctx) ?l = (fst (next_batch (sx_now ctx) ?l), if ?seeds = [] then ?l\<lparr>lk_done := True\<rparr> else ?l)"
    by (simp only: prod_eq_iff fst_conv snd_conv first_batch_state [OF refl])
  have "\<not> lk_done ?l" "lk_started ?l = sx_now ctx"
    by (simp_all add: lookup_new_def)
  then have done_iff: "lk_done l \<longleftrightarrow> ?seeds = []" and started: "lk_started l = sx_now ctx"
    using dispatch_done [of env ?l ctx] d by (simp_all only: first_batch_state [OF refl] fst_conv split: if_split) simp_all
  show ?thesis
  proof (cases "?seeds = []")
    case True
    then have "dispatch_lookup_batch env ?l ctx = (?l\<lparr>lk_done := True\<rparr>, ctx)"
      using nb first_batch [of "sx_now ctx" FindValue k ?seeds] by (simp only: dispatch_lookup_batch_def) simp
    then show ?thesis
      using True by (simp add: start_lookup_def finish_lookup_def lookup_reply_def Let_def) (simp add: lookup_new_def)
  next
    case False
    then show ?thesis
      using d done_iff started dispatch_kept [of env ?l ctx]
      by (auto simp: start_lookup_def Let_def
          intro!: exI [of _ "sx_next_corr ctx1"] exI [of _ "\<lparr>pl_lookup = l, pl_reply = Some ch\<rparr>"])
  qed
qed


text \<open>
  C24. What a Get does: a record in the store that is live is the answer, at once, and nothing is
  sent. Otherwise, without any contact, the answer is at once that nothing was found, and nothing is
  sent; with contacts the channel waits with a lookup that started now, and no channel is answered.
\<close>

theorem cmd_get_spec:
  "case store_get (sx_unix ctx) (sx_store ctx) k of
     Some r \<Rightarrow> sx_replies (cmd_get env k ch ctx) = sx_replies ctx @ [(ch, ReplyRecord (Some r))]
       \<and> sx_lookups (cmd_get env k ch ctx) = sx_lookups ctx \<and> sx_out (cmd_get env k ch ctx) = sx_out ctx
   | None \<Rightarrow>
       (if closest (sx_table ctx) k ALPHA_DEFAULT = []
        then sx_replies (cmd_get env k ch ctx) = sx_replies ctx @ [(ch, ReplyValue None)]
          \<and> sx_lookups (cmd_get env k ch ctx) = sx_lookups ctx \<and> sx_out (cmd_get env k ch ctx) = sx_out ctx
        else sx_replies (cmd_get env k ch ctx) = sx_replies ctx
          \<and> (\<exists>i p. sx_lookups (cmd_get env k ch ctx) = (sx_lookups ctx)(i \<mapsto> p)
               \<and> pl_reply p = Some ch \<and> lk_started (pl_lookup p) = sx_now ctx))"
  using start_lookup_spec [of "bump (\<lambda>m. m\<lparr>m_lookups := metric_incr (m_lookups m)\<rparr>) ctx" k env ch]
  by (auto simp: cmd_get_def Let_def bump_def send_reply_def split: option.split if_splits)


section \<open>A lookup that waits\<close>

definition demo_at :: "nat \<Rightarrow> clocks" where
  "demo_at n = \<lparr>ck_now = n, ck_unix = 0, ck_unix_ms = 0\<rparr>"

lemma demo_self: "identity_node_id demo_crypto demo_identity = NodeId (replicate 32 7)"
  by (simp add: demo_identity_def identity_node_id_def identity_generate_def verifying_key_def demo_crypto_def
      node_id_from_pubkey_def pad_def)

lemma demo_closest:
  "closest (snd (rt_insert 10 demo_peer (rt_new (NodeId (replicate 32 7))))) (Key (replicate 32 9)) ALPHA_DEFAULT
    = [demo_peer]"
  by code_simp

lemma demo_shard_fields:
  "sx_table demo_shard = rt_new (NodeId (replicate 32 7))" "sx_store demo_shard = store_new" "sx_lookups demo_shard = Map.empty"
  by (simp_all add: demo_shard_def shard_new_def split_beta Let_def demo_self node_config_default_def)

lemma demo_injected:
  "sx_table (cmd_inject_peer demo_env demo_peer ctx) = snd (rt_insert (sx_now ctx) demo_peer (sx_table ctx))
   \<and> sx_store (cmd_inject_peer demo_env demo_peer ctx) = sx_store ctx"
  by (simp add: cmd_inject_peer_def demo_peer_def peer_info_new_def peers_upsert_def table_insert_def wg_add_peer_def Let_def
      split: option.split)

lemma demo_waiting:
  "\<exists>ctx i p. shard_run demo_env demo_shard [(demo_at 10, EvCommand (CmdInjectPeer demo_peer)),
        (demo_ck 20, EvCommand (CmdGet (Key (replicate 32 9)) 8))] = Some ctx
    \<and> sx_lookups ctx i = Some p \<and> pl_reply p = Some 8 \<and> lk_started (pl_lookup p) = millis 20"
proof -
  let ?k = "Key (replicate 32 9)"
  let ?c = "bump (\<lambda>m. m\<lparr>m_lookups := metric_incr (m_lookups m)\<rparr>)
      (set_clocks (demo_ck 20) (cmd_inject_peer demo_env demo_peer (set_clocks (demo_at 10) demo_shard)))"
  have t: "sx_table ?c = snd (rt_insert 10 demo_peer (rt_new (NodeId (replicate 32 7))))"
    and s: "sx_store ?c = store_new" and n: "sx_now ?c = millis 20"
    using demo_injected [of "set_clocks (demo_at 10) demo_shard"] demo_shard_fields
    by (simp_all add: bump_def set_clocks_def demo_ck_def demo_at_def)
  have "closest (sx_table ?c) ?k ALPHA_DEFAULT \<noteq> []"
    using demo_closest by (simp only: t) simp
  then obtain i p where p: "sx_lookups (start_lookup demo_env FindValue ?k (Some 8) ?c) = (sx_lookups ?c)(i \<mapsto> p)"
      "pl_reply p = Some 8" "lk_started (pl_lookup p) = millis 20"
    using start_lookup_spec [of ?c ?k demo_env 8] n by (auto split: if_splits)
  have "store_get (sx_unix ?c) (sx_store ?c) ?k = None"
    by (simp only: s) (simp add: store_get_def store_new_def)
  then have "handle_cmd demo_env (CmdGet ?k 8)
      (set_clocks (demo_ck 20) (cmd_inject_peer demo_env demo_peer (set_clocks (demo_at 10) demo_shard)))
      = start_lookup demo_env FindValue ?k (Some 8) ?c"
    by (simp add: cmd_get_def Let_def)
  with p show ?thesis by auto
qed

theorem lookup_answered_witness:
  "\<exists>ctx i p ctx'. shard_run demo_env demo_shard [(demo_at 10, EvCommand (CmdInjectPeer demo_peer)),
        (demo_ck 20, EvCommand (CmdGet (Key (replicate 32 9)) 8))] = Some ctx
    \<and> sx_lookups ctx i = Some p \<and> shard_step demo_env ctx (demo_ck 2000, EvTimers) = Some ctx'
    \<and> sx_lookups ctx' i = None \<and> 8 \<in> fst ` set (sx_replies ctx')"
proof -
  let ?es = "[(demo_at 10, EvCommand (CmdInjectPeer demo_peer)), (demo_ck 20, EvCommand (CmdGet (Key (replicate 32 9)) 8))]"
  obtain ctx i p where run: "shard_run demo_env demo_shard ?es = Some ctx" and p: "sx_lookups ctx i = Some p"
    "pl_reply p = Some 8" "lk_started (pl_lookup p) = millis 20"
    using demo_waiting by blast
  obtain bufs where new: "shard_new demo_env 0 demo_identity node_config_default (AddrV4 127 0 0 1 4000) empty_disk
      \<lparr>ck_now = 0, ck_unix = 0, ck_unix_ms = 0\<rparr> = (bufs, demo_shard)"
    by (simp add: demo_shard_def prod_eq_iff)
  have it: "iterates (it_lookups demo_env)"
    by (simp add: iterates_def)
  have mono: "sorted (ck_now \<lparr>ck_now = 0, ck_unix = 0, ck_unix_ms = 0\<rparr> # map (\<lambda>e. ck_now (fst e)) ?es)"
    by (simp add: demo_ck_def demo_at_def millis_def)
  have now: "sx_now ctx = millis 20"
    using started_tick(2) [OF new run mono] by (simp add: demo_ck_def demo_at_def)
  have "lk_started (pl_lookup p) + millis 1500 \<le> ck_now (demo_ck 2000)" "sx_now ctx + millis 50 \<le> ck_now (demo_ck 2000)"
    by (simp_all add: p(3) now demo_ck_def demo_at_def millis_def)
  from lookup_answered [OF new run mono it p(1) this] show ?thesis
    using run p(1,2) by blast
qed

end
