(* ===== verification/Shard_Data.thy ===== *)
theory Shard_Data
  imports Shard_Replies
begin

text \<open>
  What two shards do for a value: it is stored, sent to the closest contacts, stored by them, and
  found again. Peers survive being sent, a probe never gets a record, and large values are lost.
\<close>

section \<open>Kinds of datagrams\<close>

lemma wg_second_byte:
  assumes "looks_like_wg buf"
  shows "1 < length buf" and "buf ! 1 = 0"
proof -
  obtain a b c d rest where buf: "buf = a # b # c # d # rest"
    using assms by (cases buf rule: list.exhaust; cases "tl buf"; cases "tl (tl buf)"; cases "tl (tl (tl buf))")
      (auto simp: looks_like_wg_def parse_wg_header_def)
  then show "1 < length buf" by simp
  let ?n = "nat_of_le [a, b, c, d]"
  have "(of_nat ?n :: u32) \<le> 4"
    using assms by (auto simp: buf looks_like_wg_def parse_wg_header_def from_le_bytes_def Let_def
        simp del: nat_of_le.simps split: if_splits)
  moreover have "?n < 2 ^ 32"
    using nat_of_be_less [of "rev [a, b, c, d]"] by (simp only: nat_of_be_rev) simp
  ultimately have "?n \<le> 4"
    by (simp only: word_le_nat_alt unat_of_nat) simp
  then have "unat b = 0" by simp
  then show "buf ! 1 = 0"
    by (simp add: buf unat_eq_0)
qed


lemma message_not_wg: "header_decode buf = Some h \<Longrightarrow> \<not> looks_like_wg buf"
  using wg_second_byte [of buf] by (auto simp: header_decode_def message_type_from_u8_def split: if_splits)

text \<open>
  C19. The two kinds of datagrams on a socket are told apart by their first bytes: no datagram is both
  a WireGuard packet and a message. A datagram that decodes as a message therefore is handled as
  one, and one with a WireGuard type is never taken for a message.
\<close>

theorem datagram_kinds_disjoint:
  "(looks_like_wg pkt \<longrightarrow> header_decode pkt = None)
   \<and> (header_decode pkt \<noteq> None \<longrightarrow> handle_datagram env src pkt ctx = handle_app env src pkt False ctx)"
  using message_not_wg [of pkt] by (cases "header_decode pkt") (auto simp: handle_datagram_def)

theorem datagram_kinds_disjoint_witness:
  "(let pkt = [4, 0, 0, 0, 1, 0, 0, 0, 0, 0, 0, 0, 0, 0, 0, 0] in looks_like_wg pkt \<and> header_decode pkt = None)
   \<and> (let pkt = [1, 1, 0, 0, 0, 0, 0, 9, 0, 0, 0, 0]
      in header_decode pkt \<noteq> None
        \<and> handle_datagram demo_env (AddrV4 10 0 0 1 4000) pkt demo_shard
          = handle_app demo_env (AddrV4 10 0 0 1 4000) pkt False demo_shard)"
proof -
  let ?w = "[4, 0, 0, 0, 1, 0, 0, 0, 0, 0, 0, 0, 0, 0, 0, 0]" and ?m = "[1, 1, 0, 0, 0, 0, 0, 9, 0, 0, 0, 0]"
  have w: "looks_like_wg ?w"
    by (simp add: looks_like_wg_def parse_wg_header_def from_le_bytes_def)
  have m: "header_decode ?m \<noteq> None"
    by (simp add: header_decode_def HEADER_LEN_def PROTOCOL_VERSION_def message_type_from_u8_def)
  show ?thesis
    unfolding Let_def
    by (intro conjI w m datagram_kinds_disjoint [THEN conjunct1, rule_format]
        datagram_kinds_disjoint [THEN conjunct2, rule_format])
qed

section \<open>Sending a message\<close>

interpretation grows: ctx_send env "\<lambda>_. True" "\<lambda>_. True" "\<lambda>ctx. m \<in> set (sx_out ctx)" for env m
  by unfold_locales (auto simp: pending_push_def)

text \<open>A message that fits is sent whole: what goes out decodes to it again.\<close>

lemma send_message_whole:
  assumes "prost_ok c" "h_version h = PROTOCOL_VERSION" "HEADER_LEN + length (pb_encode c body) \<le> PMTU_FLOOR"
  shows "\<exists>bs pool1 buf out. header_decode bs = Some h \<and> decode_body c bs = Some body \<and> length bs \<le> PMTU_FLOOR
    \<and> fst (send_message c h body send ctx) \<noteq> None \<and> snd (send_message c h body send ctx)
      = (let c2 = send bs (ctx\<lparr>sx_pool := pool1\<rparr>) in c2\<lparr>sx_pool := pool_recycle (buf\<lparr>vec_data := out\<rparr>) (sx_pool c2)\<rparr>)"
proof -
  obtain buf p where p: "pool_take (sx_pool ctx) = (buf, p)" by (cases "pool_take (sx_pool ctx)")
  obtain r out where e: "encode_message c h body (vec_data buf) = (r, out)" by (cases "encode_message c h body (vec_data buf)")
  have "length (vec_data buf) = BUFFER_SIZE"
    using pool_take_len [OF p] .
  then have "HEADER_LEN + length (pb_encode c body) \<le> min (length (vec_data buf)) PMTU_FLOOR"
    using assms(3) by (simp add: BUFFER_SIZE_def PMTU_FLOOR_def)
  then obtain n where n: "r = Some n" "n \<le> PMTU_FLOOR" "header_decode (take n out) = Some h" "decode_body c (take n out) = Some body"
    using encode_message_decodes [OF assms(1,2) e] by auto
  show ?thesis
    by (rule exI [of _ "take n out"], rule exI [of _ p], rule exI [of _ buf], rule exI [of _ out])
      (use n p e in \<open>simp add: send_message_def Let_def\<close>)
qed

lemma send_app_plain:
  assumes "length bs \<le> PMTU_FLOOR" "relay_hop ctx dest = None" "cf_plaintext (sx_cfg ctx)" "en_send_ok env dest bs"
  shows "(dest, bs) \<in> set (sx_out (send_app env dest x bs ctx))"
  using assms by (auto simp: send_app_def send_plain_def io_send_def bump_def Let_def split: option.split)

lemma relay_hop_same:
  "sx_table a = sx_table b \<Longrightarrow> sx_via_relay a = sx_via_relay b \<Longrightarrow> relay_hop a dest = relay_hop b dest"
  by (simp only: relay_hop_def peer_id_for_def)

lemma settled_relay_hop: "settled w a = settled w b \<Longrightarrow> relay_hop a dest = relay_hop b dest"
  by (rule relay_hop_same [OF settled_fields(5,16)])

text \<open>A message that fits and whose destination is reached directly is sent, in plain.\<close>

lemma message_reaches:
  assumes "prost_ok c" "h_version h = PROTOCOL_VERSION" "HEADER_LEN + length (pb_encode c body) \<le> PMTU_FLOOR"
    and "relay_hop ctx dest = None" "cf_plaintext (sx_cfg ctx)" "\<forall>bs. en_send_ok env dest bs"
  shows "\<exists>bs. header_decode bs = Some h \<and> decode_body c bs = Some body
    \<and> (dest, bs) \<in> set (sx_out (snd (send_message c h body (send_app env dest x) ctx)))
    \<and> fst (send_message c h body (send_app env dest x) ctx) \<noteq> None \<and> length bs \<le> PMTU_FLOOR"
proof -
  obtain bs pool1 buf out where bs: "header_decode bs = Some h" "decode_body c bs = Some body" "length bs \<le> PMTU_FLOOR"
    and send: "fst (send_message c h body (send_app env dest x) ctx) \<noteq> None"
      "snd (send_message c h body (send_app env dest x) ctx) = (let c2 = send_app env dest x bs (ctx\<lparr>sx_pool := pool1\<rparr>)
        in c2\<lparr>sx_pool := pool_recycle (buf\<lparr>vec_data := out\<rparr>) (sx_pool c2)\<rparr>)"
    using send_message_whole [OF assms(1-3), of "send_app env dest x" ctx] by blast
  have "relay_hop (ctx\<lparr>sx_pool := pool1\<rparr>) dest = None" "cf_plaintext (sx_cfg (ctx\<lparr>sx_pool := pool1\<rparr>))"
    using assms(4,5) relay_hop_same [of "ctx\<lparr>sx_pool := pool1\<rparr>" ctx dest] by simp_all
  from send_app_plain [OF bs(3) this, of env x] assms(6) send bs show ?thesis
    by (auto simp: Let_def)
qed


section \<open>Replicating a value\<close>

text \<open>What a store request for a record looks like, and that it reaches each of the closest contacts.\<close>

definition store_body :: "'t shard_env \<Rightarrow> stored_record \<Rightarrow> proto_store_req" where
  "store_body env r = \<lparr>sq_record = record_encode (pb_record env) r, sq_admission_token = [], sq_cost_stamp = []\<rparr>"

lemma store_rpc_reaches:
  assumes "prost_ok (pb_store_req env)" "HEADER_LEN + length (pb_encode (pb_store_req env) (store_body env r)) \<le> PMTU_FLOOR"
    and "p \<in> set (closest (sx_table ctx) (sr_key r) K_DEFAULT)" "primary_addr p = Some dest"
    and "relay_hop ctx dest = None" "cf_plaintext (sx_cfg ctx)" "\<forall>bs. en_send_ok env dest bs"
  shows "\<exists>bs corr. (dest, bs) \<in> set (sx_out (send_store_rpc env r ctx))
    \<and> header_decode bs = Some (header_request StoreReq Coordination corr)
    \<and> decode_body (pb_store_req env) bs = Some (store_body env r)"
proof -
  define send where "send = (\<lambda>ctx p. case primary_addr p of None \<Rightarrow> ctx | Some dest \<Rightarrow>
      (let (corr, ctx1) = next_corr ctx
       in snd (send_message (pb_store_req env) (header_request StoreReq Coordination corr) (store_body env r)
            (send_app env dest (x25519 p)) ctx1)))"
  have rpc: "send_store_rpc env r ctx = foldl send ctx (closest (sx_table ctx) (sr_key r) K_DEFAULT)"
    by (simp only: send_store_rpc_def send_def store_body_def Let_def)
  have keep: "settled w (send c q) = settled w c" for w c q
    unfolding send_def using sent.next_corr_inv [of w c "settled w c"]
    by (auto split: option.splits prod.splits intro!: sent.request_inv)
  have grow: "m \<in> set (sx_out (send c q))" if "m \<in> set (sx_out c)" for m c q
    unfolding send_def using that grows.next_corr_inv [OF that]
    by (auto split: option.splits prod.splits intro!: grows.request_inv)
  obtain ps1 ps2 where ps: "closest (sx_table ctx) (sr_key r) K_DEFAULT = ps1 @ p # ps2"
    using assms(3) by (auto simp: in_set_conv_decomp)
  let ?c = "foldl send ctx ps1"
  have s: "settled (sx_wg ctx) ?c = settled (sx_wg ctx) ctx"
    by (rule sent.foldl_inv) (simp_all add: keep)
  obtain corr c1 where corr: "next_corr ?c = (corr, c1)" by (cases "next_corr ?c")
  have s1: "settled (sx_wg ctx) c1 = settled (sx_wg ctx) ctx"
    using sent.next_corr_inv [OF s] corr by simp
  have "relay_hop c1 dest = None" "cf_plaintext (sx_cfg c1)"
    using assms(5,6) settled_relay_hop [OF s1, of dest] settled_fields(3) [OF s1] by simp_all
  from message_reaches [OF assms(1) _ assms(2) this assms(7), of "header_request StoreReq Coordination corr" "x25519 p"]
  obtain bs where bs: "header_decode bs = Some (header_request StoreReq Coordination corr)"
    "decode_body (pb_store_req env) bs = Some (store_body env r)" and "(dest, bs) \<in> set (sx_out (send ?c p))"
    using assms(4) corr by (auto simp: send_def header_request_def)
  from this(3) have "(dest, bs) \<in> set (sx_out (foldl send (send ?c p) ps2))"
    by (rule grows.foldl_inv) (rule grow)
  then show ?thesis
    using bs(1,2) by (auto simp: rpc ps)
qed


lemma send_keeps [simp]:
  "sx_store (snd (send_message c h body (send_app env dest x) ctx)) = sx_store ctx"
  using settled_fields(6) [OF sent.request_inv(1) [OF refl]] .

text \<open>A datagram with a message that is not a relayed frame is counted and handled.\<close>

abbreviation counted :: "bytes \<Rightarrow> 't shard_ctx \<Rightarrow> 't shard_ctx" where
  "counted bs \<equiv> bump (\<lambda>m. m\<lparr>m_rx_packets := metric_incr (m_rx_packets m),
     m_rx_bytes := metric_add (m_rx_bytes m) (of_nat (length bs))\<rparr>)"

lemma receive_message:
  assumes "header_decode bs = Some h" "h_ty h \<noteq> Relay"
  shows "receive env ctx (src, bs) = Some (handle_message env src h bs False (counted bs ctx))"
  using message_not_wg [OF assms(1)] assms by (simp add: receive_def handle_datagram_def handle_app.simps)

text \<open>A store request for an authentic value is accepted, and the value is there.\<close>

lemma store_request_received:
  assumes "header_decode bs = Some (header_request StoreReq Coordination corr)"
    and "decode_body (pb_store_req env) bs = Some \<lparr>sq_record = rec, sq_admission_token = tok, sq_cost_stamp = stamp\<rparr>"
    and "pb_decode (pb_record env) rec = Some pr" "record_from_proto (sx_unix ctx) pr = Some r"
    and "sr_kind r = KIND_IMMUTABLE" "put_record_check (en_crypto env) r (sx_store ctx) = None"
    and "fst (pre_handshake src ctx)"
  shows "\<exists>ctx'. receive env ctx (src, bs) = Some ctx' \<and> st_records (sx_store ctx') (sr_key r) = Some r"
proof -
  let ?b = "counted bs ctx"
  have ty: "h_ty (header_request StoreReq Coordination corr) = StoreReq" "\<not> is_probe (header_request StoreReq Coordination corr)"
    by (simp_all add: header_request_def is_probe_def)
  have "receive env ctx (src, bs) = Some (on_store env src (header_request StoreReq Coordination corr) bs ?b)"
    using receive_message [OF assms(1)] ty by (simp add: handle_message_def)
  moreover have "st_records (sx_store (on_store env src (header_request StoreReq Coordination corr) bs ?b)) (sr_key r) = Some r"
  proof -
    obtain c1 where pre: "pre_handshake src ?b = (True, c1)" and c1: "sx_store c1 = sx_store ctx" "sx_unix c1 = sx_unix ctx"
      using assms(7) by (auto simp: pre_handshake_def bump_def split_beta Let_def)
    have "put_record (en_crypto env) (pb_record env) r False (sx_store c1) = (Inr (), insert_record (pb_record env) r (sx_store ctx))"
      using assms(5,6) c1 by (simp add: put_record_def kinds)
    then obtain c2 where req: "store_request env False rec c1 = ((STORE_CODE_OK, []), c2)"
      and c2: "sx_store c2 = insert_record (pb_record env) r (sx_store ctx)"
      using assms(3,4) c1 by (auto simp: store_request_def bump_def)
    show ?thesis
      using assms(2) pre req ty c2 by (simp add: on_store_def send_keeps insert_record_def Let_def)
  qed
  ultimately show ?thesis by blast
qed


lemma immutable_received:
  assumes "crypto_ok c"
  shows "\<exists>r. record_from_proto now (to_proto (immutable_record c t v ttl)) = Some r
    \<and> sr_key r = hash_value c v \<and> sr_value r = v \<and> sr_kind r = KIND_IMMUTABLE \<and> sr_signature r = [] \<and> \<not> expired r now"
proof -
  have "length (kbytes (hash_value c v)) = ID_LEN"
    using assms by (simp add: crypto_ok_def hash_value_def ID_LEN_def)
  then show ?thesis
    by (simp add: record_from_proto_def to_proto_def immutable_record_def key_from_bytes_def expired_def sat_sub_def)
qed

lemma cmd_put_small:
  assumes "length v \<le> PMTU_FLOOR * 64"
  shows "cmd_put env v ttl ch ctx = send_reply ch (ReplyKey (hash_value (en_crypto env) v))
    (send_store_rpc env (immutable_record (en_crypto env) (sx_unix ctx) v ttl)
      (bump (\<lambda>m. m\<lparr>m_store_ok := metric_incr (m_store_ok m)\<rparr>)
        (ctx\<lparr>sx_store := insert_record (pb_record env) (immutable_record (en_crypto env) (sx_unix ctx) v ttl) (sx_store ctx)\<rparr>)))"
  using assms by (simp add: cmd_put_def should_erasure_def THRESHOLD_def PMTU_FLOOR_def put_immutable_ttl_eq
      replicate_store_def bump_def immutable_record_def)

text \<open>
  C17. Replication from end to end: when one shard is asked to put a value that fits a datagram, then
  each of the closest contacts of its key that is reached directly is sent a datagram which, when
  another shard receives it from a source within its limits, leaves the value under its key there.
\<close>

theorem put_replicates:
  assumes "prost_ok (pb_store_req env)" and "prost_ok (pb_record env)" and "crypto_ok (en_crypto env)"
    and "length v \<le> 64 * 1024"
    and "HEADER_LEN + length (pb_encode (pb_store_req env) (store_body env (immutable_record (en_crypto env) 0 v ttl)))
      \<le> PMTU_FLOOR"
    and "p \<in> set (closest (sx_table ctx) (hash_value (en_crypto env) v) K_DEFAULT)" and "primary_addr p = Some dest"
    and "relay_hop ctx dest = None" and "cf_plaintext (sx_cfg ctx)" and "\<forall>bs. en_send_ok env dest bs"
    and "pb_store_req env' = pb_store_req env" and "pb_record env' = pb_record env" and "en_crypto env' = en_crypto env"
    and "fst (pre_handshake src ctx')"
  shows "\<exists>bs ctx''. (dest, bs) \<in> set (sx_out (cmd_put env v ttl ch ctx)) \<and> receive env' ctx' (src, bs) = Some ctx''
    \<and> (\<exists>r. store_get (sx_unix ctx') (sx_store ctx'') (hash_value (en_crypto env) v) = Some r \<and> sr_value r = v)"
proof -
  let ?c = "en_crypto env"
  let ?r = "immutable_record ?c (sx_unix ctx) v ttl"
  let ?c1 = "bump (\<lambda>m. m\<lparr>m_store_ok := metric_incr (m_store_ok m)\<rparr>) (ctx\<lparr>sx_store := insert_record (pb_record env) ?r (sx_store ctx)\<rparr>)"
  have cmd: "cmd_put env v ttl ch ctx = send_reply ch (ReplyKey (hash_value ?c v)) (send_store_rpc env ?r ?c1)"
    using assms(4) cmd_put_small [of v env ttl ch ctx] by (simp add: PMTU_FLOOR_def)
  have body: "store_body env ?r = store_body env (immutable_record ?c 0 v ttl)"
    by (simp add: store_body_def record_encode_def to_proto_def immutable_record_def)
  have hop: "relay_hop ?c1 dest = None" "cf_plaintext (sx_cfg ?c1)" "sx_table ?c1 = sx_table ctx"
    using assms(8,9) relay_hop_same [of ?c1 ctx dest] by (simp_all add: bump_def)
  obtain bs corr where bs: "(dest, bs) \<in> set (sx_out (send_store_rpc env ?r ?c1))"
    "header_decode bs = Some (header_request StoreReq Coordination corr)"
    "decode_body (pb_store_req env) bs = Some (store_body env ?r)"
    using store_rpc_reaches [of env ?r p ?c1 dest] assms(1,5,6,7,10) body hop by (auto simp: immutable_record_def)
  obtain r where r: "record_from_proto (sx_unix ctx') (to_proto ?r) = Some r" "sr_key r = hash_value ?c v" "sr_value r = v"
    "sr_kind r = KIND_IMMUTABLE" "sr_signature r = []" "\<not> expired r (sx_unix ctx')"
    using immutable_received [OF assms(3), of "sx_unix ctx'" "sx_unix ctx" v ttl] by blast
  have "put_record_check (en_crypto env') r (sx_store ctx') = None"
    using r assms(4,13) by (simp add: put_record_check_def)
  then obtain ctx'' where "receive env' ctx' (src, bs) = Some ctx''" "st_records (sx_store ctx'') (sr_key r) = Some r"
    using store_request_received [of bs corr env' "record_encode (pb_record env) ?r" "[]" "[]" "to_proto ?r" ctx' r src]
      bs(2,3) r assms(2,11,12,14) by (auto simp: store_body_def record_encode_def)
  moreover from this have "store_get (sx_unix ctx') (sx_store ctx'') (hash_value ?c v) = Some r"
    using r by (simp add: store_get_def kinds)
  ultimately show ?thesis
    using bs(1) r(3) by (auto simp: cmd send_reply_def)
qed


lemma fresh_allowed: "fst (allow_pre_handshake now src (sybil_new c))"
  by (simp add: allow_pre_handshake_def sybil_new_def entry_take_def bucket_new_def bucket_take_def as_secs_f64_def
      f64_add_def f64_mul_def f64_div_def split_beta Let_def split: ip_addr.split)

theorem put_replicates_witness:
  "\<exists>bs ctx''. (AddrV4 10 0 0 1 4000, bs)
      \<in> set (sx_out (cmd_put demo_env [1, 2, 3] 60 7 (cmd_inject_peer demo_env demo_peer (set_clocks (demo_at 10) demo_shard))))
    \<and> receive demo_env demo_shard (AddrV4 127 0 0 1 4000, bs) = Some ctx''
    \<and> (\<exists>r. store_get 0 (sx_store ctx'') (hash_value demo_crypto [1, 2, 3]) = Some r \<and> sr_value r = [1, 2, 3])"
proof -
  let ?ctx = "cmd_inject_peer demo_env demo_peer (set_clocks (demo_at 10) demo_shard)"
  have t: "sx_table ?ctx = snd (rt_insert 10 demo_peer (rt_new (NodeId (replicate 32 7))))"
    using demo_injected [of "set_clocks (demo_at 10) demo_shard"] demo_shard_fields by (simp add: set_clocks_def demo_at_def)
  have "closest (snd (rt_insert 10 demo_peer (rt_new (NodeId (replicate 32 7))))) (hash_value demo_crypto [1, 2, 3]) K_DEFAULT
      = [demo_peer]"
    by code_simp
  then have p: "demo_peer \<in> set (closest (sx_table ?ctx) (hash_value (en_crypto demo_env) [1, 2, 3]) K_DEFAULT)"
    by (simp only: t demo_env_fields) simp
  have "HEADER_LEN + length (pb_encode demo_store_req
      \<lparr>sq_record = record_encode demo_record_codec (immutable_record demo_crypto 0 [1, 2, 3] 60),
        sq_admission_token = [], sq_cost_stamp = []\<rparr>) \<le> PMTU_FLOOR"
    by code_simp
  then have size: "HEADER_LEN + length (pb_encode (pb_store_req demo_env)
      (store_body demo_env (immutable_record (en_crypto demo_env) 0 [1, 2, 3] 60))) \<le> PMTU_FLOOR"
    by (simp only: store_body_def demo_env_fields)
  have via: "sx_via_relay ?ctx = Map.empty" "sx_cfg ?ctx = node_config_default"
    by (simp_all add: cmd_inject_peer_def demo_peer_def peer_info_new_def peers_upsert_def table_insert_def wg_add_peer_def
        set_clocks_def demo_shard_def shard_new_def split_beta Let_def split: option.split)
  then have hop: "relay_hop ?ctx (AddrV4 10 0 0 1 4000) = None" "cf_plaintext (sx_cfg ?ctx)"
    by (simp_all add: relay_hop_def node_config_default_def split: option.split)
  have ok: "fst (pre_handshake (AddrV4 127 0 0 1 4000) demo_shard)"
    using fresh_allowed by (simp add: pre_handshake_def demo_shard_def shard_new_def split_beta Let_def)
  have addr: "primary_addr demo_peer = Some (AddrV4 10 0 0 1 4000)"
    by (simp add: demo_peer_def peer_info_new_def primary_addr_def try_push_def)
  have unix: "sx_unix demo_shard = 0"
    by (simp add: demo_shard_def shard_new_def split_beta Let_def)
  show ?thesis
    using put_replicates [OF _ _ _ _ size p addr hop _ refl refl refl ok, of 7] demo_crypto_ok unix by simp
qed


section \<open>A put by the size of its value\<close>

text \<open>
  C18. What a put does, by the size of the value. Up to 76800 bytes the key is answered and the value
  can be read at once. Between that and 1 MiB the put is refused, and nothing is stored or sent. From
  1 MiB on the key is answered as well, but no record is stored and nothing is sent: the value is lost.
\<close>

theorem put_by_size:
  assumes "ctx' = cmd_put env v ttl ch ctx" and "k = hash_value (en_crypto env) v"
  shows "(length v \<le> 76800 \<longrightarrow> sx_replies ctx' = sx_replies ctx @ [(ch, ReplyKey k)]
      \<and> (\<exists>r. store_get (sx_unix ctx') (sx_store ctx') k = Some r \<and> sr_value r = v))
    \<and> (76800 < length v \<and> length v < 1024 * 1024 \<longrightarrow>
      sx_replies ctx' = sx_replies ctx @ [(ch, ReplyErr ''store failed'')]
      \<and> sx_store ctx' = sx_store ctx \<and> sx_out ctx' = sx_out ctx)
    \<and> (1024 * 1024 \<le> length v \<and> erasure_encode (en_rs env) v \<noteq> None \<longrightarrow>
      sx_replies ctx' = sx_replies ctx @ [(ch, ReplyKey k)] \<and> sx_out ctx' = sx_out ctx
      \<and> (\<forall>now k. store_get now (sx_store ctx') k = store_get now (sx_store ctx) k))"
proof (intro conjI impI)
  assume "length v \<le> 76800"
  let ?r = "immutable_record (en_crypto env) (sx_unix ctx) v ttl"
  let ?c1 = "bump (\<lambda>m. m\<lparr>m_store_ok := metric_incr (m_store_ok m)\<rparr>) (ctx\<lparr>sx_store := insert_record (pb_record env) ?r (sx_store ctx)\<rparr>)"
  have cmd: "ctx' = send_reply ch (ReplyKey k) (send_store_rpc env ?r ?c1)"
    using \<open>length v \<le> 76800\<close> cmd_put_small [of v env ttl ch ctx] by (simp add: assms PMTU_FLOOR_def)
  have "settled (sx_wg ctx) (send_store_rpc env ?r ?c1) = settled (sx_wg ctx) ?c1"
    using sent.send_store_rpc_inv [OF refl] .
  note fields = settled_fields [OF this]
  show "sx_replies ctx' = sx_replies ctx @ [(ch, ReplyKey k)]"
    using fields(17) by (simp add: cmd send_reply_def bump_def)
  have "store_get (sx_unix ctx) (sx_store ?c1) k = Some ?r"
    by (simp add: store_get_def bump_def immutable_record_def assms(2) kinds expired_def sat_sub_def)
  then show "\<exists>r. store_get (sx_unix ctx') (sx_store ctx') k = Some r \<and> sr_value r = v"
    using fields(6,19) by (auto simp: cmd send_reply_def bump_def immutable_record_def)
next
  assume "76800 < length v \<and> length v < 1024 * 1024"
  then have "ctx' = send_reply ch (ReplyErr ''store failed'')
      (bump (\<lambda>m. m\<lparr>m_store_reject := metric_incr (m_store_reject m)\<rparr>) ctx)"
    by (simp add: assms cmd_put_def should_erasure_def THRESHOLD_def PMTU_FLOOR_def put_immutable_ttl_def)
  then show "sx_replies ctx' = sx_replies ctx @ [(ch, ReplyErr ''store failed'')]" "sx_store ctx' = sx_store ctx"
    "sx_out ctx' = sx_out ctx"
    by (simp_all add: send_reply_def bump_def)
next
  assume "1024 * 1024 \<le> length v \<and> erasure_encode (en_rs env) v \<noteq> None"
  then have "ctx' = send_reply ch (ReplyKey k) (ctx\<lparr>sx_store := announce_provider (sx_unix ctx) k (self_id env ctx)
      (erasure_meta (length v)) (sx_store ctx)\<rparr>)"
    by (simp add: assms cmd_put_def should_erasure_def THRESHOLD_def Let_def)
  then show "sx_replies ctx' = sx_replies ctx @ [(ch, ReplyKey k)]" "sx_out ctx' = sx_out ctx"
    "\<forall>now k. store_get now (sx_store ctx') k = store_get now (sx_store ctx) k"
    by (simp_all add: send_reply_def store_get_def announce_provider_def Let_def)
qed

theorem put_by_size_witness:
  "(\<exists>r. store_get (sx_unix (cmd_put demo_env [1, 2, 3] 60 7 demo_shard)) (sx_store (cmd_put demo_env [1, 2, 3] 60 7 demo_shard))
       (hash_value demo_crypto [1, 2, 3]) = Some r \<and> sr_value r = [1, 2, 3])
   \<and> (7, ReplyErr ''store failed'') \<in> set (sx_replies (cmd_put demo_env (replicate 100000 0) 60 7 demo_shard))
   \<and> (7, ReplyKey (hash_value demo_crypto (replicate (1024 * 1024) 0)))
       \<in> set (sx_replies (cmd_put demo_env (replicate (1024 * 1024) 0) 60 7 demo_shard))"
proof -
  have "erasure_encode (en_rs demo_env) v \<noteq> None" for v
    by (simp add: erasure_encode_def demo_rs_def)
  then show ?thesis
    using put_by_size [of _ demo_env "[1, 2, 3]" 60 7 demo_shard, OF refl refl]
      put_by_size [of _ demo_env "replicate 100000 0" 60 7 demo_shard, OF refl refl]
      put_by_size [of _ demo_env "replicate (1024 * 1024) 0" 60 7 demo_shard, OF refl refl]
    by simp
qed

end
