(* ===== verification/Shard_Find.thy ===== *)
theory Shard_Find
  imports Shard_Data
begin

text \<open>
  Finding a value over the network: the request of a lookup, the answer of a shard that has the
  value, and what the shard that asked does with the answer.
\<close>

section \<open>The answer to a lookup\<close>

text \<open>A lookup that is done but not yet answered, and one that was answered with a given reply.\<close>

definition concluded :: "u32 \<Rightarrow> channel \<Rightarrow> reply \<Rightarrow> 't shard_ctx \<Rightarrow> bool" where
  "concluded i ch rep ctx = (\<exists>p. sx_lookups ctx i = Some p \<and> pl_reply p = Some ch \<and> lk_done (pl_lookup p)
     \<and> lookup_reply (lk_kind (pl_lookup p)) (pl_lookup p) = rep)"

definition told :: "u32 \<Rightarrow> channel \<Rightarrow> reply \<Rightarrow> 't shard_ctx \<Rightarrow> bool" where
  "told i ch rep ctx = (sx_lookups ctx i = None \<and> (ch, rep) \<in> set (sx_replies ctx))"

lemma dispatch_finished: "lk_done l \<Longrightarrow> dispatch_lookup_batch env l ctx = (l, ctx)"
  by (simp add: dispatch_lookup_batch_def next_batch_def)

lemma sweep_one_tells: "concluded i ch rep ctx \<Longrightarrow> told i ch rep (sweep_one env ctx i)"
  by (auto simp: concluded_def told_def sweep_one_def dispatch_finished finish_lookup_def bump_def send_reply_def Let_def)

lemma sweep_one_keeps:
  assumes "concluded i ch rep ctx \<or> told i ch rep ctx"
  shows "concluded i ch rep (sweep_one env ctx j) \<or> told i ch rep (sweep_one env ctx j)"
proof (cases "j = i")
  case True
  then show ?thesis
    using assms sweep_one_tells [of i ch rep ctx env] by (auto simp: told_def sweep_one_def)
next
  case False
  then show ?thesis
    using assms sweep_one_frame [OF False, where env = env and ctx = ctx] by (auto simp: concluded_def told_def)
qed

lemma sweep_told:
  assumes "told i ch rep ctx"
  shows "told i ch rep (sweep_one env ctx j)"
proof (cases "j = i")
  case True
  then show ?thesis
    using assms by (simp add: told_def sweep_one_def)
next
  case False
  then show ?thesis
    using assms sweep_one_frame [OF False, where env = env and ctx = ctx] by (auto simp: told_def)
qed

lemma sweep_tells:
  assumes "iterates (it_lookups env)" and "concluded i ch rep ctx"
  shows "told i ch rep (sweep_lookups env ctx)"
proof -
  have "i \<in> set (it_lookups env (sx_lookups ctx))"
    using assms by (auto simp: iterates_def concluded_def)
  then obtain is1 js where ids: "it_lookups env (sx_lookups ctx) = is1 @ i # js"
    by (auto simp: in_set_conv_decomp)
  let ?c = "foldl (sweep_one env) ctx is1"
  have "concluded i ch rep ?c \<or> told i ch rep ?c"
    using assms(2) by (intro foldl_keeps [where P = "\<lambda>c. concluded i ch rep c \<or> told i ch rep c"] sweep_one_keeps) simp_all
  then have "told i ch rep (sweep_one env ?c i)"
    using sweep_one_tells sweep_told by blast
  then have "told i ch rep (foldl (sweep_one env) (sweep_one env ?c i) js)"
    by (rule foldl_keeps [where P = "told i ch rep"]) (rule sweep_told)
  then show ?thesis
    by (simp add: sweep_lookups_def ids)
qed


section \<open>Receiving an answer\<close>

lemma resp_punches:
  "sx_lookups (foldl (\<lambda>c p. start_punch env src (table_insert p c) p) ctx ps) = sx_lookups ctx
   \<and> sx_replies (foldl (\<lambda>c p. start_punch env src (table_insert p c) p) ctx ps) = sx_replies ctx
   \<and> sx_now (foldl (\<lambda>c p. start_punch env src (table_insert p c) p) ctx ps) = sx_now ctx"
  by (rule kept.foldl_inv) (simp_all add: kept.start_punch_inv kept.table_insert_inv)


interpretation dated: ctx_handle env "\<lambda>_. True" "\<lambda>_. True" "\<lambda>ctx. sx_unix ctx = U" "\<lambda>_. True" for env U
  by unfold_locales (simp_all add: pending_push_def list_all_iff)

lemma resp_unix: "sx_unix (foldl (\<lambda>c p. start_punch env src (table_insert p c) p) ctx ps) = sx_unix ctx"
  by (rule dated.foldl_inv) (simp_all add: dated.start_punch_inv dated.table_insert_inv)

lemma record_concludes:
  assumes "find_lookup env corr ctx = Some i" "sx_lookups ctx i = Some p" "pl_reply p = Some ch" "lk_kind (pl_lookup p) = FindValue"
  shows "concluded i ch (ReplyRecord (Some r)) (update_lookup env corr (on_record who r) ctx)"
  using assms by (simp add: concluded_def update_lookup_def on_record_def drop_in_flight_def lookup_reply_def)

lemma find_lookup_same: "sx_lookups a = sx_lookups b \<Longrightarrow> find_lookup env corr a = find_lookup env corr b"
  by (simp only: find_lookup_def)

text \<open>An answer with an authentic record ends the lookup that asked: the record is the reply.\<close>

lemma on_record_answers:
  assumes "iterates (it_lookups env)" and "decode_body (pb_find_value_resp env) bs = Some resp"
    and "fvr_result resp = Some (FvRecord rec)" and "pb_decode (pb_record env) rec = Some pr"
    and "record_from_proto (sx_unix ctx) pr = Some r" and "authentic (en_crypto env) r"
    and "find_lookup env (h_correlation h) ctx = Some i" and "sx_lookups ctx i = Some p" and "pl_reply p = Some ch"
    and "lk_kind (pl_lookup p) = FindValue"
  shows "told i ch (ReplyRecord (Some r)) (on_find_value_resp env src h bs ctx)"
proof -
  let ?c1 = "foldl (\<lambda>c p. start_punch env src (table_insert p c) p) ctx (peers_from_proto (en_text env) (fvr_closer_peers resp))"
  let ?c2 = "if is_probe h then ?c1 else ?c1\<lparr>sx_store := cache_hit (sx_unix ?c1) r (sx_store ?c1)\<rparr>"
  have l: "sx_lookups ?c2 = sx_lookups ctx"
    using resp_punches [of env src ctx] by simp
  have "on_find_value_resp env src h bs ctx
      = sweep_lookups env (update_lookup env (h_correlation h) (on_record (NodeId (replicate 32 0)) r) ?c2)"
    using assms(2-6) resp_unix [of env src ctx] by (simp add: on_find_value_resp_def Let_def)
  moreover have "concluded i ch (ReplyRecord (Some r)) (update_lookup env (h_correlation h) (on_record (NodeId (replicate 32 0)) r) ?c2)"
    using assms(7-10) l find_lookup_same [OF l] by (intro record_concludes) simp_all
  ultimately show ?thesis
    using sweep_tells [OF assms(1)] by simp
qed


section \<open>Asking for a value\<close>

definition find_body :: "key \<Rightarrow> proto_find_value_req" where
  "find_body k = \<lparr>fvq_key = kbytes k, fvq_provider_limit = 16\<rparr>"

text \<open>What is asked of a peer: the request is sent, and the lookup waits for its answer.\<close>

definition asks_peer :: "'t shard_env \<Rightarrow> key \<Rightarrow> socket_addr \<Rightarrow> lookup \<times> 't shard_ctx \<Rightarrow> bool" where
  "asks_peer env k dest s = (\<exists>bs corr. (dest, bs) \<in> set (sx_out (snd s))
     \<and> header_decode bs = Some (header_request FindValueReq Coordination corr)
     \<and> decode_body (pb_find_value_req env) bs = Some (find_body k)
     \<and> list_ex (\<lambda>(_, c, _). c = corr) (lk_in_flight (fst s)))"

lemma asks_peer_grows:
  assumes "asks_peer env k dest s"
  shows "asks_peer env k dest (dispatch_one env s p)"
proof -
  from assms obtain bs corr where bs: "(dest, bs) \<in> set (sx_out (snd s))"
    and rest: "header_decode bs = Some (header_request FindValueReq Coordination corr)"
      "decode_body (pb_find_value_req env) bs = Some (find_body k)"
    and wait: "list_ex (\<lambda>(_, c, _). c = corr) (lk_in_flight (fst s))"
    by (auto simp: asks_peer_def)
  have "list_ex (\<lambda>(_, c, _). c = corr) (lk_in_flight (fst (dispatch_one env s p)))"
    using dispatch_one_lookup [of env s p] wait by (auto simp: note_sent_def try_push_def)
  then show ?thesis
    using grows.dispatch_one_inv [OF bs, of env p] rest unfolding asks_peer_def by blast
qed

lemma dispatch_asks:
  assumes "prost_ok (pb_find_value_req env)" "HEADER_LEN + length (pb_encode (pb_find_value_req env) (find_body k)) \<le> PMTU_FLOOR"
    and "lk_kind l = FindValue" "lk_target l = k" "length (lk_in_flight l) < 8" "primary_addr p = Some dest"
    and "relay_hop ctx dest = None" "cf_plaintext (sx_cfg ctx)" "\<forall>bs. en_send_ok env dest bs"
  shows "asks_peer env k dest (dispatch_one env (l, ctx) p)"
proof -
  obtain corr c1 where corr: "next_corr ctx = (corr, c1)" by (cases "next_corr ctx")
  have s: "settled (sx_wg ctx) c1 = settled (sx_wg ctx) ctx"
    using sent.next_corr_inv [of "sx_wg ctx" ctx, OF refl] corr by simp
  have hop: "relay_hop c1 dest = None" "cf_plaintext (sx_cfg c1)"
    using assms(7,8) settled_relay_hop [OF s, of dest] settled_fields(3) [OF s] by simp_all
  let ?h = "header_request FindValueReq Coordination corr"
  obtain n c2 where send: "send_message (pb_find_value_req env) ?h (find_body k) (send_app env dest (x25519 p)) c1 = (n, c2)"
    by (cases "send_message (pb_find_value_req env) ?h (find_body k) (send_app env dest (x25519 p)) c1")
  from message_reaches [OF assms(1) _ assms(2) hop assms(9), of ?h "x25519 p"]
  obtain bs where bs: "header_decode bs = Some ?h" "decode_body (pb_find_value_req env) bs = Some (find_body k)"
    "(dest, bs) \<in> set (sx_out c2)" "n \<noteq> None"
    using send by (auto simp: header_request_def)
  have find: "send_find env l dest (x25519 p) corr c1 = (n, c2)"
    using send assms(3,4) by (simp add: send_find_def find_body_def)
  let ?l = "note_sent (sx_now c2) (pi_id p) corr l"
  have "fst (dispatch_one env (l, ctx) p) = ?l"
    using corr find bs(4) assms(6) by (simp add: dispatch_one_def Let_def)
  moreover have "list_ex (\<lambda>(_, c, _). c = corr) (lk_in_flight ?l)"
    using assms(5) by (simp add: note_sent_def try_push_def)
  moreover have "(dest, bs) \<in> set (sx_out (snd (dispatch_one env (l, ctx) p)))"
    using corr find bs(3,4) assms(6) by (auto simp: dispatch_one_def Let_def intro!: grows.foldl_inv grows.send_probe_inv)
  ultimately show ?thesis
    using bs(1,2) unfolding asks_peer_def by auto
qed


lemma pick_batch_all:
  assumes "lk_queried l = {}" "lk_in_flight l = []" "length batch + length ps \<le> lk_alpha l" "lk_alpha l \<le> 8"
  shows "pick_batch l batch ps = batch @ ps"
  using assms(3)
proof (induction ps arbitrary: batch)
  case (Cons p ps)
  then have "length batch < 8" "length batch < lk_alpha l"
    using assms(4) by simp_all
  then show ?case
    using Cons assms(1,2) by (simp add: try_push_def)
qed simp

lemma first_batch_all:
  assumes "length seeds \<le> ALPHA_DEFAULT"
  shows "fst (next_batch now (lookup_new now kind k seeds privacy)) = sort_shortlist k seeds"
proof -
  let ?l = "lookup_new now kind k seeds privacy"
  have l: "lk_queried ?l = {}" "lk_in_flight ?l = []" "lk_alpha ?l = 4" "lk_shortlist ?l = sort_shortlist k seeds"
    "\<not> lk_done ?l" "lk_started ?l = now" "lk_budget ?l = millis 1500"
    by (simp_all add: lookup_new_def ALPHA_DEFAULT_def)
  have "length (sort_shortlist k seeds) \<le> 4"
    using assms by (simp add: sort_shortlist_def ALPHA_DEFAULT_def)
  then have "pick_batch ?l [] (sort_shortlist k seeds) = sort_shortlist k seeds"
    using pick_batch_all [of ?l "[]"] l by simp
  then show ?thesis
    using l by (simp add: next_batch_def millis_def Let_def)
qed

lemma closest_few: "length (closest rt k n) \<le> n"
  by (simp add: closest_eq)

text \<open>The state of a batch that is being sent.\<close>

lemma dispatch_fold:
  assumes "s' = foldl (dispatch_one env) s ps"
  shows "lk_kind (fst s') = lk_kind (fst s)" and "lk_target (fst s') = lk_target (fst s)"
    and "length (lk_in_flight (fst s')) \<le> length (lk_in_flight (fst s)) + length ps"
    and "settled w (snd s') = settled w (snd s)"
proof -
  have one: "lk_kind (fst (dispatch_one env s p)) = lk_kind (fst s) \<and> lk_target (fst (dispatch_one env s p)) = lk_target (fst s)
      \<and> length (lk_in_flight (fst (dispatch_one env s p))) \<le> Suc (length (lk_in_flight (fst s)))
      \<and> settled w (snd (dispatch_one env s p)) = settled w (snd s)" for s p
    using dispatch_one_lookup [of env s p] sent.dispatch_one_inv [of w s "settled w (snd s)" env p]
    by (auto simp: note_sent_def try_push_def)
  have "lk_kind (fst (foldl (dispatch_one env) s ps)) = lk_kind (fst s)
      \<and> lk_target (fst (foldl (dispatch_one env) s ps)) = lk_target (fst s)
      \<and> length (lk_in_flight (fst (foldl (dispatch_one env) s ps))) \<le> length (lk_in_flight (fst s)) + length ps
      \<and> settled w (snd (foldl (dispatch_one env) s ps)) = settled w (snd s)" for s
  proof (induction ps arbitrary: s)
    case (Cons p ps)
    show ?case
      using Cons.IH [of "dispatch_one env s p"] one [of s p] by simp
  qed simp
  then show "lk_kind (fst s') = lk_kind (fst s)" "lk_target (fst s') = lk_target (fst s)"
    "length (lk_in_flight (fst s')) \<le> length (lk_in_flight (fst s)) + length ps" "settled w (snd s') = settled w (snd s)"
    by (simp_all add: assms)
qed

lemma start_lookup_asks:
  assumes "prost_ok (pb_find_value_req env)" "HEADER_LEN + length (pb_encode (pb_find_value_req env) (find_body k)) \<le> PMTU_FLOOR"
    and "p \<in> set (closest (sx_table ctx) k ALPHA_DEFAULT)" "primary_addr p = Some dest"
    and "relay_hop ctx dest = None" "cf_plaintext (sx_cfg ctx)" "\<forall>bs. en_send_ok env dest bs"
  shows "\<exists>i pl ctx'. start_lookup env FindValue k reply ctx = ctx'\<lparr>sx_lookups := (sx_lookups ctx)(i \<mapsto> pl)\<rparr>
    \<and> pl_reply pl = reply \<and> lk_kind (pl_lookup pl) = FindValue \<and> asks_peer env k dest (pl_lookup pl, ctx')"
proof -
  let ?seeds = "closest (sx_table ctx) k ALPHA_DEFAULT"
  let ?l = "lookup_new (sx_now ctx) FindValue k ?seeds (if cf_query_blind (sx_cfg ctx) then Blind else PrivNone)"
  obtain l c1 where d: "dispatch_lookup_batch env ?l ctx = (l, c1)"
    by (cases "dispatch_lookup_batch env ?l ctx")
  have some: "?seeds \<noteq> []" using assms(3) by auto
  then have nb: "next_batch (sx_now ctx) ?l = (sort_shortlist k ?seeds, ?l)"
    by (simp only: prod_eq_iff fst_conv snd_conv first_batch_state [OF refl] first_batch_all [OF closest_few] if_False simp_thms)
  have "p \<in> set (sort_shortlist k ?seeds)"
    using assms(3) by (simp add: sort_shortlist_def)
  then obtain ps1 ps2 where ps: "sort_shortlist k ?seeds = ps1 @ p # ps2"
    by (meson split_list)
  have "length (sort_shortlist k ?seeds) \<le> 4"
    using closest_few [of "sx_table ctx" k ALPHA_DEFAULT] by (simp add: sort_shortlist_def ALPHA_DEFAULT_def)
  then have few: "length ps1 < 8" by (simp add: ps)
  obtain l1 c2 where f: "foldl (dispatch_one env) (?l, ctx) ps1 = (l1, c2)"
    by (cases "foldl (dispatch_one env) (?l, ctx) ps1")
  note fold = dispatch_fold(1-3) [OF f [symmetric]] dispatch_fold(4) [OF f [symmetric], of "sx_wg ctx"]
  have "asks_peer env k dest (dispatch_one env (l1, c2) p)"
    using assms(4-6) few fold(1-3) settled_relay_hop [of "sx_wg ctx" c2 ctx dest] settled_fields(3) [of "sx_wg ctx" c2 ctx] fold(4)
    by (intro dispatch_asks [OF assms(1,2) _ _ _ assms(4) _ _ assms(7)]) (simp_all add: lookup_new_def)
  then have "asks_peer env k dest (foldl (dispatch_one env) (dispatch_one env (l1, c2) p) ps2)"
    by (rule foldl_keeps [where P = "asks_peer env k dest"]) (rule asks_peer_grows)
  then have "asks_peer env k dest (l, c1)"
    using d nb f by (simp add: dispatch_lookup_batch_def ps)
  moreover have "lk_kind l = FindValue"
    using dispatch_fold(1) [of "(l, c1)" env "(?l, ctx)" "sort_shortlist k ?seeds"] d nb
    by (simp add: dispatch_lookup_batch_def) (simp add: lookup_new_def)
  moreover have "\<not> lk_done l"
    using dispatch_done [of env ?l ctx] d nb by (simp add: lookup_new_def)
  moreover have "sx_lookups c1 = sx_lookups ctx"
    using dispatch_kept(1) [of env ?l ctx] d by simp
  ultimately show ?thesis
    using d by (auto simp: start_lookup_def Let_def intro!: exI [of _ "sx_next_corr c1"]
        exI [of _ "\<lparr>pl_lookup = l, pl_reply = reply\<rparr>"] exI [of _ c1])
qed


section \<open>A value found on another shard\<close>

lemma counted_fields:
  "sx_table (counted bs ctx) = sx_table ctx" "sx_store (counted bs ctx) = sx_store ctx" "sx_unix (counted bs ctx) = sx_unix ctx"
  "sx_cfg (counted bs ctx) = sx_cfg ctx" "sx_via_relay (counted bs ctx) = sx_via_relay ctx"
  "sx_lookups (counted bs ctx) = sx_lookups ctx"
  by (simp_all add: bump_def)

lemma find_value_served:
  assumes "header_decode bs = Some (header_request FindValueReq Coordination corr)"
    and "decode_body (pb_find_value_req env) bs = Some (find_body k)" and "id_ok (kbytes k)"
    and "prost_ok (pb_find_value_resp env)"
    and "HEADER_LEN + length (pb_encode (pb_find_value_resp env) (find_value_body env False k 16 ctx)) \<le> PMTU_FLOOR"
    and "relay_hop ctx src = None" "cf_plaintext (sx_cfg ctx)" "\<forall>bs. en_send_ok env src bs"
  shows "\<exists>ctx' resp. receive env ctx (src, bs) = Some ctx' \<and> (src, resp) \<in> set (sx_out ctx')
    \<and> header_decode resp = Some (header_response FindValueResp Coordination corr)
    \<and> decode_body (pb_find_value_resp env) resp = Some (find_value_body env False k 16 ctx) \<and> length resp \<le> PMTU_FLOOR"
proof -
  let ?q = "header_request FindValueReq Coordination corr" and ?h = "header_response FindValueResp Coordination corr"
  let ?c = "counted bs ctx"
  have "\<not> is_probe ?q" "h_ty ?q = FindValueReq" "h_correlation ?q = corr"
    by (simp_all add: header_request_def is_probe_def)
  moreover have "key_from_bytes (kbytes k) = Some k"
    using assms(3) by (simp add: key_from_bytes_def id_ok_def)
  moreover have body: "find_value_body env False k 16 ?c = find_value_body env False k 16 ctx"
    by (simp only: find_value_body_def counted_fields)
  ultimately have "handle_message env src ?q bs False ?c = snd (send_message (pb_find_value_resp env) ?h
      (find_value_body env False k 16 ctx) (send_app env src None) ?c)"
    using assms(2) by (simp add: handle_message_def on_find_value_def find_body_def)
  then have rcv: "receive env ctx (src, bs) = Some (snd (send_message (pb_find_value_resp env) ?h
      (find_value_body env False k 16 ctx) (send_app env src None) ?c))"
    using receive_message [OF assms(1), of env ctx src] by (simp add: header_request_def)
  have "relay_hop ?c src = None" "cf_plaintext (sx_cfg ?c)"
    using assms(6,7) relay_hop_same [of ?c ctx src] by (simp_all add: bump_def)
  from message_reaches [OF assms(4) _ assms(5) this assms(8), of ?h] rcv show ?thesis
    by (fastforce simp: header_response_def)
qed

text \<open>
  C15. A value is found over the network. Shard \<open>a\<close> does not have it, has no lookup under way, runs in
  plaintext and has among its four closest contacts of the key one that it reaches directly, not over
  a relay. Its Get then sends a request to this contact. Shard \<open>b\<close>, which gets this request, has an
  authentic record of the key with a lifetime that is not zero, runs in plaintext and answers directly;
  if the answer fits a datagram of 1200 bytes, it contains the record, and when it comes back as the next
  datagram of \<open>a\<close>, the channel of the Get gets a record of the key with the value.
\<close>

theorem get_over_network:
  assumes "prost_ok (pb_find_value_req env)" and "prost_ok (pb_find_value_resp env)" and "prost_ok (pb_record env)"
    and "iterates (it_lookups env)"
    and "store_get (sx_unix a) (sx_store a) k = None" and "sx_lookups a = Map.empty" and "id_ok (kbytes k)"
    and "p \<in> set (closest (sx_table a) k ALPHA_DEFAULT)" and "primary_addr p = Some dest"
    and "relay_hop a dest = None" and "cf_plaintext (sx_cfg a)" and "\<forall>bs. en_send_ok env dest bs"
    and "HEADER_LEN + length (pb_encode (pb_find_value_req env) (find_body k)) \<le> PMTU_FLOOR"
    and "pb_find_value_req env' = pb_find_value_req env" and "pb_find_value_resp env' = pb_find_value_resp env"
    and "pb_record env' = pb_record env"
    and "store_get (sx_unix b) (sx_store b) k = Some r" and "authentic (en_crypto env) r" and "sr_key r = k" and "sr_ttl_secs r \<noteq> 0"
    and "relay_hop b src = None" and "cf_plaintext (sx_cfg b)" and "\<forall>bs. en_send_ok env' src bs"
    and "HEADER_LEN + length (pb_encode (pb_find_value_resp env') (find_value_body env' False k 16 b)) \<le> PMTU_FLOOR"
  shows "\<exists>req b' resp a' r'. (dest, req) \<in> set (sx_out (cmd_get env k ch a)) \<and> receive env' b (src, req) = Some b'
    \<and> (src, resp) \<in> set (sx_out b') \<and> receive env (cmd_get env k ch a) (dest, resp) = Some a'
    \<and> (ch, ReplyRecord (Some r')) \<in> set (sx_replies a') \<and> sr_key r' = k \<and> sr_value r' = sr_value r"
proof -
  let ?a = "bump (\<lambda>m. m\<lparr>m_lookups := metric_incr (m_lookups m)\<rparr>) a"
  have get: "cmd_get env k ch a = start_lookup env FindValue k (Some ch) ?a"
    using assms(5) by (simp add: cmd_get_def Let_def bump_def)
  have "relay_hop ?a dest = None" "cf_plaintext (sx_cfg ?a)" "p \<in> set (closest (sx_table ?a) k ALPHA_DEFAULT)"
    using assms(8,10,11) relay_hop_same [of ?a a dest] by (simp_all add: bump_def)
  then obtain i pl c where start: "cmd_get env k ch a = c\<lparr>sx_lookups := [i \<mapsto> pl]\<rparr>"
    and pl: "pl_reply pl = Some ch" "lk_kind (pl_lookup pl) = FindValue" and asks: "asks_peer env k dest (pl_lookup pl, c)"
    using start_lookup_asks [OF assms(1,13) _ assms(9) _ _ assms(12), of ?a "Some ch"] get assms(6) by (auto simp: bump_def)
  from asks obtain req corr where req: "(dest, req) \<in> set (sx_out c)"
      "header_decode req = Some (header_request FindValueReq Coordination corr)"
      "decode_body (pb_find_value_req env') req = Some (find_body k)"
    and corr: "list_ex (\<lambda>(_, c, _). c = corr) (lk_in_flight (pl_lookup pl))"
    by (auto simp: asks_peer_def assms(14))
  from find_value_served [OF req(2,3) assms(7) _ assms(24,21,22,23)] assms(2,15)
  obtain b' resp where b': "receive env' b (src, req) = Some b'" "(src, resp) \<in> set (sx_out b')"
    and resp: "header_decode resp = Some (header_response FindValueResp Coordination corr)"
      "decode_body (pb_find_value_resp env) resp = Some (find_value_body env' False k 16 b)"
    by auto
  let ?h = "header_response FindValueResp Coordination corr" and ?c = "counted resp (cmd_get env k ch a)"
  have rec: "fvr_result (find_value_body env' False k 16 b) = Some (FvRecord (record_encode (pb_record env) r))"
    using assms(16,17) by (simp add: find_value_body_def Let_def)
  have l: "sx_lookups ?c = [i \<mapsto> pl]"
    by (simp add: start bump_def)
  have "set (it_lookups env (sx_lookups ?c)) = {i}"
    using assms(4) by (simp add: iterates_def l)
  then have "find_lookup env corr ?c = Some i"
    using corr unfolding find_lookup_def
    by (cases "it_lookups env (sx_lookups ?c)") (auto simp: l has_corr_def)
  then have "told i ch (ReplyRecord (Some (restamp (sx_unix ?c) r))) (on_find_value_resp env dest ?h resp ?c)"
    using assms(3,7,18,19,20) record_from_proto_restamp [of r "sx_unix ?c"] l pl
    by (intro on_record_answers [OF assms(4) resp(2) rec, of "to_proto r"])
      (auto simp: record_encode_def header_response_def authentic_def restamp_def)
  moreover have "receive env (cmd_get env k ch a) (dest, resp) = Some (on_find_value_resp env dest ?h resp ?c)"
    using receive_message [OF resp(1)] by (simp add: handle_message_def header_response_def)
  moreover have "(dest, req) \<in> set (sx_out (cmd_get env k ch a))"
    using req(1) by (simp add: start)
  moreover have "sr_key (restamp t r) = k" "sr_value (restamp t r) = sr_value r" for t
    using assms(19) by (simp_all add: restamp_def)
  ultimately show ?thesis
    using b' unfolding told_def by blast
qed


definition demo_holder :: "unit shard_ctx" where
  "demo_holder = demo_shard\<lparr>sx_store := insert_record demo_record_codec (immutable_record demo_crypto 0 [1, 2, 3] 60) store_new\<rparr>"

lemma demo_holder_get:
  "store_get (sx_unix demo_holder) (sx_store demo_holder) (hash_value demo_crypto [1, 2, 3])
    = Some (immutable_record demo_crypto 0 [1, 2, 3] 60)"
proof -
  have "sx_unix demo_holder = 0"
    by (simp add: demo_holder_def demo_shard_def shard_new_def split_beta Let_def)
  then show ?thesis
    by (simp add: demo_holder_def store_get_def immutable_record_def kinds expired_def sat_sub_def)
qed

lemma demo_holder_body:
  "find_value_body demo_env False (hash_value demo_crypto [1, 2, 3]) 16 demo_holder
    = \<lparr>fvr_result = Some (FvRecord (record_encode demo_record_codec (immutable_record demo_crypto 0 [1, 2, 3] 60))),
       fvr_closer_peers = []\<rparr>"
proof -
  have "closest (rt_new (NodeId (replicate 32 7))) (hash_value demo_crypto [1, 2, 3]) MAX_CLOSER_PEERS = []"
    by code_simp
  moreover have "sx_table demo_holder = rt_new (NodeId (replicate 32 7))"
    by (simp add: demo_holder_def demo_shard_fields)
  ultimately show ?thesis
    using demo_holder_get by (simp add: find_value_body_def peers_to_proto_def)
qed

theorem get_over_network_witness:
  "\<exists>a k req b' resp a' r'. a = cmd_inject_peer demo_env demo_peer (set_clocks (demo_at 10) demo_shard)
    \<and> k = hash_value demo_crypto [1, 2, 3]
    \<and> (AddrV4 10 0 0 1 4000, req) \<in> set (sx_out (cmd_get demo_env k 8 a))
    \<and> receive demo_env demo_holder (AddrV4 10 0 0 2 4000, req) = Some b' \<and> (AddrV4 10 0 0 2 4000, resp) \<in> set (sx_out b')
    \<and> receive demo_env (cmd_get demo_env k 8 a) (AddrV4 10 0 0 1 4000, resp) = Some a'
    \<and> (8, ReplyRecord (Some r')) \<in> set (sx_replies a') \<and> sr_key r' = k \<and> sr_value r' = [1, 2, 3]"
proof -
  let ?a = "cmd_inject_peer demo_env demo_peer (set_clocks (demo_at 10) demo_shard)" and ?k = "hash_value demo_crypto [1, 2, 3]"
  let ?r = "immutable_record demo_crypto 0 [1, 2, 3] 60"
  have t: "sx_table ?a = snd (rt_insert 10 demo_peer (rt_new (NodeId (replicate 32 7))))" and s: "sx_store ?a = store_new"
    using demo_injected [of "set_clocks (demo_at 10) demo_shard"] demo_shard_fields by (simp_all add: set_clocks_def demo_at_def)
  have "closest (snd (rt_insert 10 demo_peer (rt_new (NodeId (replicate 32 7))))) ?k ALPHA_DEFAULT = [demo_peer]"
    by code_simp
  then have p: "demo_peer \<in> set (closest (sx_table ?a) ?k ALPHA_DEFAULT)"
    by (simp only: t) simp
  have none: "store_get (sx_unix ?a) (sx_store ?a) ?k = None"
    by (simp only: s) (simp add: store_get_def store_new_def)
  have req: "HEADER_LEN + length (pb_encode demo_find_value_req (find_body ?k)) \<le> PMTU_FLOOR"
    by code_simp
  have resp: "HEADER_LEN + length (pb_encode demo_find_value_resp
      \<lparr>fvr_result = Some (FvRecord (record_encode demo_record_codec ?r)), fvr_closer_peers = []\<rparr>) \<le> PMTU_FLOOR"
    by code_simp
  have id: "id_ok (kbytes ?k)" by code_simp
  have via: "sx_via_relay ?a = Map.empty" "sx_cfg ?a = node_config_default" "sx_lookups ?a = Map.empty"
    "sx_via_relay demo_holder = Map.empty" "sx_cfg demo_holder = node_config_default"
    by (simp_all add: cmd_inject_peer_def demo_peer_def peer_info_new_def peers_upsert_def table_insert_def wg_add_peer_def
        demo_holder_def set_clocks_def demo_shard_def shard_new_def split_beta Let_def split: option.split)
  then have hop: "relay_hop ?a (AddrV4 10 0 0 1 4000) = None" "cf_plaintext (sx_cfg ?a)"
    "relay_hop demo_holder (AddrV4 10 0 0 2 4000) = None" "cf_plaintext (sx_cfg demo_holder)"
    by (simp_all add: relay_hop_def node_config_default_def split: option.split)
  have addr: "primary_addr demo_peer = Some (AddrV4 10 0 0 1 4000)"
    by (simp add: demo_peer_def peer_info_new_def primary_addr_def try_push_def)
  have it: "iterates (it_lookups demo_env)"
    by (simp add: iterates_def)
  have r: "sr_key ?r = ?k" "sr_ttl_secs ?r \<noteq> 0" "sr_value ?r = [1, 2, 3]"
    by (simp_all add: immutable_record_def)
  have "\<exists>req b' resp a' r'. (AddrV4 10 0 0 1 4000, req) \<in> set (sx_out (cmd_get demo_env ?k 8 ?a))
    \<and> receive demo_env demo_holder (AddrV4 10 0 0 2 4000, req) = Some b' \<and> (AddrV4 10 0 0 2 4000, resp) \<in> set (sx_out b')
    \<and> receive demo_env (cmd_get demo_env ?k 8 ?a) (AddrV4 10 0 0 1 4000, resp) = Some a'
    \<and> (8, ReplyRecord (Some r')) \<in> set (sx_replies a') \<and> sr_key r' = ?k \<and> sr_value r' = sr_value ?r"
    by (rule get_over_network [where p = demo_peer and r = ?r])
      (use p none req resp id via(3) hop addr it demo_holder_get demo_holder_body r in simp_all)
  then show ?thesis
    by (simp only: r) blast
qed


section \<open>A forged answer\<close>

definition forged_record :: "key \<Rightarrow> bytes \<Rightarrow> stored_record" where
  "forged_record k v =
     \<lparr>sr_key = k, sr_value = v, sr_sequence = 0, sr_ttl_secs = 60, sr_not_before_unix = 0, sr_owner_pubkey = [],
      sr_signature = [], sr_kind = KIND_PROVIDER, sr_namespace = [], sr_salt = [], sr_stored_unix = 0, sr_cache = False\<rparr>"

definition forged_answer :: "'t shard_env \<Rightarrow> u32 \<Rightarrow> key \<Rightarrow> bytes \<Rightarrow> nat option \<times> bytes" where
  "forged_answer env corr k v = encode_message (pb_find_value_resp env) (header_response FindValueResp Coordination corr)
     \<lparr>fvr_result = Some (FvRecord (record_encode (pb_record env) (forged_record k v))), fvr_closer_peers = []\<rparr>
     (replicate PMTU_FLOOR 0)"

text \<open>
  C20. What a Get over the network finds can be forged: for every key and every value there is a
  datagram, made without any key or signature, that a shard with a lookup under way takes, from any
  address, as the answer, if it has the number of one of the lookup's requests: the channel gets a
  record with that value. The record is of the provider kind, which counts as authentic.
\<close>

theorem get_forgeable:
  assumes "prost_ok (pb_find_value_resp env)" and "prost_ok (pb_record env)" and "iterates (it_lookups env)"
    and "find_lookup env corr ctx = Some i" and "sx_lookups ctx i = Some p" and "pl_reply p = Some ch"
    and "lk_kind (pl_lookup p) = FindValue" and "id_ok (kbytes k)"
    and "forged_answer env corr k v = (Some n, out)"
  shows "\<exists>ctx' r. receive env ctx (src, take n out) = Some ctx' \<and> sx_lookups ctx' i = None
    \<and> (ch, ReplyRecord (Some r)) \<in> set (sx_replies ctx') \<and> sr_key r = k \<and> sr_value r = v"
proof -
  let ?h = "header_response FindValueResp Coordination corr" and ?bs = "take n out" and ?r = "forged_record k v"
  let ?c = "counted ?bs ctx"
  have ver: "h_version ?h = PROTOCOL_VERSION"
    by (simp add: header_response_def)
  have dec: "header_decode ?bs = Some ?h" "decode_body (pb_find_value_resp env) ?bs
      = Some \<lparr>fvr_result = Some (FvRecord (record_encode (pb_record env) ?r)), fvr_closer_peers = []\<rparr>"
    using encode_message_decodes [OF assms(1) ver assms(9) [unfolded forged_answer_def]] by (auto split: if_splits)
  have find: "find_lookup env corr ?c = Some i" "sx_lookups ?c i = Some p"
    using assms(4,5) find_lookup_same [of ?c ctx] by (simp_all add: bump_def)
  have "record_from_proto (sx_unix ?c) (to_proto ?r) = Some (restamp (sx_unix ?c) ?r)"
    using assms(8) by (intro record_from_proto_restamp) (simp_all add: forged_record_def)
  then have "told i ch (ReplyRecord (Some (restamp (sx_unix ?c) ?r))) (on_find_value_resp env src ?h ?bs ?c)"
    using assms(2,6,7) find
    by (intro on_record_answers [OF assms(3) dec(2), of "record_encode (pb_record env) ?r" "to_proto ?r"])
      (auto simp: record_encode_def header_response_def authentic_def restamp_def forged_record_def kinds)
  moreover have "receive env ctx (src, ?bs) = Some (on_find_value_resp env src ?h ?bs ?c)"
    using receive_message [OF dec(1), of env ctx src] by (simp add: handle_message_def header_response_def)
  moreover have "sr_key (restamp t ?r) = k" "sr_value (restamp t ?r) = v" for t
    by (simp_all add: restamp_def forged_record_def)
  ultimately show ?thesis
    unfolding told_def by blast
qed


theorem get_forgeable_witness:
  "\<exists>ctx n out ctx' r. ctx = demo_shard\<lparr>sx_lookups := [5 \<mapsto>
        \<lparr>pl_lookup = note_sent 0 (NodeId (replicate 32 1)) 9 (lookup_new 0 FindValue (Key (replicate 32 9)) [] PrivNone),
         pl_reply = Some 8\<rparr>]\<rparr>
    \<and> forged_answer demo_env 9 (Key (replicate 32 9)) [6, 6, 6] = (Some n, out)
    \<and> receive demo_env ctx (AddrV4 6 6 6 6 666, take n out) = Some ctx'
    \<and> (8, ReplyRecord (Some r)) \<in> set (sx_replies ctx') \<and> sr_key r = Key (replicate 32 9) \<and> sr_value r = [6, 6, 6]"
proof -
  let ?k = "Key (replicate 32 9)"
  let ?p = "\<lparr>pl_lookup = note_sent 0 (NodeId (replicate 32 1)) 9 (lookup_new 0 FindValue ?k [] PrivNone), pl_reply = Some 8\<rparr>"
  let ?ctx = "demo_shard\<lparr>sx_lookups := [5 \<mapsto> ?p]\<rparr>"
  let ?body = "\<lparr>fvr_result = Some (FvRecord (record_encode demo_record_codec (forged_record ?k [6, 6, 6]))), fvr_closer_peers = []\<rparr>"
  have size: "HEADER_LEN + length (pb_encode demo_find_value_resp ?body) \<le> PMTU_FLOOR"
    by code_simp
  obtain m out where e: "forged_answer demo_env 9 ?k [6, 6, 6] = (m, out)"
    by (cases "forged_answer demo_env 9 ?k [6, 6, 6]")
  have "prost_ok demo_find_value_resp" "h_version (header_response FindValueResp Coordination 9) = PROTOCOL_VERSION"
    by (simp_all add: header_response_def)
  then obtain n where n: "m = Some n"
    using encode_message_decodes [of demo_find_value_resp _ ?body "replicate PMTU_FLOOR 0" m out] e size
    by (auto simp: forged_answer_def)
  have p: "find_lookup demo_env 9 ?ctx = Some 5"
    by (simp add: find_lookup_def has_corr_def note_sent_def lookup_new_def try_push_def)
  have kind: "lk_kind (pl_lookup ?p) = FindValue"
    by (simp add: note_sent_def lookup_new_def)
  have "\<exists>ctx' r. receive demo_env ?ctx (AddrV4 6 6 6 6 666, take n out) = Some ctx' \<and> sx_lookups ctx' 5 = None
    \<and> (8, ReplyRecord (Some r)) \<in> set (sx_replies ctx') \<and> sr_key r = ?k \<and> sr_value r = [6, 6, 6]"
    by (rule get_forgeable [where p = ?p and corr = 9]) (use p kind e n in \<open>simp_all add: iterates_def id_ok_def ID_LEN_def\<close>)
  then show ?thesis
    using e n by blast
qed

end
