(* ===== verification/Webrtc_Rpc.thy ===== *)
theory Webrtc_Rpc
  imports Webrtc_Http Webrtc_Rooms Shard_Find
begin

text \<open>
  A browser that talks to the network: its request to the gateway, over HTTP or a data channel, the
  call of the node's shard, and the answer on its way back.
\<close>

section \<open>Waiting for the reply\<close>

text \<open>What does not end the waiting: nothing to read, and datagrams that are not the reply.\<close>

fun unrelated :: "u32 \<Rightarrow> udp_recv \<Rightarrow> bool" where
  "unrelated want (UdpGot d) = (case header_decode (take 2048 d) of Some h \<Rightarrow> h_correlation h \<noteq> want | None \<Rightarrow> True)"
| "unrelated want UdpWouldBlock = True"
| "unrelated want _ = False"

definition reply_arrives :: "u32 \<Rightarrow> bytes \<Rightarrow> rpc_socket \<Rightarrow> bool" where
  "reply_arrives want resp sock \<longleftrightarrow> rs_set_up sock \<and> rs_sent sock
     \<and> (\<exists>before t later. rs_rounds sock = before @ (t, UdpGot resp) # later
          \<and> list_all (\<lambda>(t, r). t < rs_start sock + millis 1500 \<and> unrelated want r) before \<and> t < rs_start sock + millis 1500)"

lemma await_reply_found:
  assumes "list_all (\<lambda>(t, r). t < deadline \<and> unrelated want r) before" "t < deadline"
    and "header_decode resp = Some h" "h_correlation h = want" "length resp \<le> 2048"
  shows "await_reply deadline want (before @ (t, UdpGot resp) # later) = Some resp"
  using assms
proof (induction before)
  case (Cons x before)
  then show ?case
    by (cases x; cases "snd x") (auto split: option.splits)
qed simp

lemma rpc_answered:
  assumes "header_decode bs = Some q" "header_decode resp = Some h" "h_correlation h = h_correlation q" "length resp \<le> 2048"
    and "reply_arrives (h_correlation q) resp sock"
  shows "accept_rpc_to_node sock bs = Some resp"
  using assms await_reply_found [OF _ _ assms(2,3,4)] by (auto simp: accept_rpc_to_node_def reply_arrives_def)

text \<open>What comes back, when anything does, is a message with the number of the request.\<close>

lemma await_reply_matches:
  "await_reply deadline want rounds = Some d \<Longrightarrow> \<exists>h. header_decode d = Some h \<and> h_correlation h = want \<and> length d \<le> 2048"
  by (induction deadline want rounds rule: await_reply.induct)
    (auto simp: Let_def split: if_splits udp_recv.splits option.splits)

lemma post_rpc_route:
  assumes "accept_rpc body"
  shows "route env os (Some node) (of_chars ''POST'') (of_chars ''/rpc'') body g
    = (Respond (case accept_rpc_to_node (go_rpc os) body of
         Some reply \<Rightarrow> \<lparr>rsp_status = 200, rsp_ctype = of_chars ''application/octet-stream'', rsp_body = reply\<rparr>
       | None \<Rightarrow> no_content), g)"
  using assms by (simp add: route_def)

section \<open>A value for a browser\<close>

text \<open>
  C16. A browser gets a value of the network through the gateway. It posts a request for a key, in
  whatever pieces it arrives, with a request head of less than 64 KiB, and the shard that gets the
  request over UDP has the record, runs in plaintext and reaches the gateway directly; if the answer
  with the record fits a datagram of 1200 bytes, the shard sends it. When this answer is read from the
  gateway's socket within 1.5 seconds, and whatever was read before it is no message with the number of
  the request, it is the body of the response. On a data channel the same answer is written to the
  channel the request came from.
\<close>

theorem browser_gets_value:
  assumes "header_decode bs = Some (header_request FindValueReq Coordination corr)"
    and "decode_body (pb_find_value_req env) bs = Some (find_body k)" and "id_ok (kbytes k)" and "length bs < 2 ^ 64"
    and "prost_ok (pb_find_value_resp env)"
    and "HEADER_LEN + length (pb_encode (pb_find_value_resp env) (find_value_body env False k 16 ctx)) \<le> PMTU_FLOOR"
    and "relay_hop ctx src = None" and "cf_plaintext (sx_cfg ctx)" and "\<forall>bs. en_send_ok env src bs"
    and "store_get (sx_unix ctx) (sx_store ctx) k = Some r"
    and "request_ok (of_chars ''POST'') (of_chars ''/rpc'') hs"
    and "length (request_head (of_chars ''POST'') (of_chars ''/rpc'') hs bs) + 4 \<le> 64 * 1024"
    and "concat cs = request_head (of_chars ''POST'') (of_chars ''/rpc'') hs bs @ crlf @ crlf @ bs" and "[] \<notin> set cs"
  shows "\<exists>ctx' resp body. receive env ctx (src, bs) = Some ctx' \<and> (src, resp) \<in> set (sx_out ctx')
    \<and> decode_body (pb_find_value_resp env) resp = Some body \<and> fvr_result body = Some (FvRecord (record_encode (pb_record env) r))
    \<and> (\<forall>os node g chan has t. reply_arrives corr resp (go_rpc os) \<longrightarrow>
        (\<exists>out i. handle_http genv os (Some node) (map TcpChunk cs) g = (HttpWrote out, g)
           \<and> find_double_crlf out = Some i \<and> drop (i + 4) out = resp)
        \<and> (has chan \<longrightarrow> drive_outputs (accept_rpc_to_node (go_rpc os)) has dc [RtcChannelData chan bs, RtcTimeout t]
             = Some (DriveWait t, dc, [DriveWrite chan resp])))"
proof -
  let ?q = "header_request FindValueReq Coordination corr"
  obtain ctx' resp where r: "receive env ctx (src, bs) = Some ctx'" "(src, resp) \<in> set (sx_out ctx')"
      "decode_body (pb_find_value_resp env) resp = Some (find_value_body env False k 16 ctx)"
    and h: "header_decode resp = Some (header_response FindValueResp Coordination corr)" "length resp \<le> PMTU_FLOOR"
    using find_value_served [OF assms(1-3,5-9)] by blast
  have rec: "fvr_result (find_value_body env False k 16 ctx) = Some (FvRecord (record_encode (pb_record env) r))"
    using assms(10) by (simp add: find_value_body_def Let_def)
  have corr: "h_correlation ?q = corr" "h_correlation (header_response FindValueResp Coordination corr) = h_correlation ?q"
    "length resp \<le> 2048"
    using h(2) by (simp_all add: header_request_def header_response_def PMTU_FLOOR_def)
  have req: "read_request (map TcpChunk cs) = Inr (of_chars ''POST'', of_chars ''/rpc'', bs)"
    using request_read [OF assms(11,4,12), of cs "[]" "[]"] assms(13,14) by simp
  let ?r = "\<lparr>rsp_status = 200, rsp_ctype = of_chars ''application/octet-stream'', rsp_body = resp\<rparr>"
  have "13 \<notin> set (rsp_ctype ?r)"
    by code_simp
  note body = response_body [OF this]
  have "accept_rpc_to_node (go_rpc os) bs = Some resp" if "reply_arrives corr resp (go_rpc os)" for os :: gateway_os
    using rpc_answered [OF assms(1) h(1) corr(2,3)] that corr(1) by simp
  then have "handle_http genv os (Some node) (map TcpChunk cs) g = (HttpWrote (write_resp ?r), g)"
      "has chan \<Longrightarrow> drive_outputs (accept_rpc_to_node (go_rpc os)) has dc [RtcChannelData chan bs, RtcTimeout t]
        = Some (DriveWait t, dc, [DriveWrite chan resp])"
    if "reply_arrives corr resp (go_rpc os)" for os node g chan t and has :: "nat \<Rightarrow> bool"
    using req assms(1) post_rpc_route [of bs genv os node g] that by (simp_all add: handle_http_def accept_rpc_def)
  then show ?thesis
    using r rec body by (intro exI [of _ ctx'] exI [of _ resp] exI [of _ "find_value_body env False k 16 ctx"]) fastforce
qed

definition demo_find_request :: bytes where
  "demo_find_request = (case encode_message demo_find_value_req (header_request FindValueReq Coordination 5)
     (find_body (hash_value demo_crypto [1, 2, 3])) (replicate PMTU_FLOOR 0) of (n, out) \<Rightarrow> take (the n) out)"

lemma demo_find_request:
  "header_decode demo_find_request = Some (header_request FindValueReq Coordination 5)"
  "decode_body demo_find_value_req demo_find_request = Some (find_body (hash_value demo_crypto [1, 2, 3]))"
  "length demo_find_request \<le> PMTU_FLOOR"
proof -
  let ?body = "find_body (hash_value demo_crypto [1, 2, 3])" and ?h = "header_request FindValueReq Coordination 5"
  obtain r out where e: "encode_message demo_find_value_req ?h ?body (replicate PMTU_FLOOR 0) = (r, out)"
    by (rule prod.exhaust)
  have "HEADER_LEN + length (pb_encode demo_find_value_req ?body) \<le> PMTU_FLOOR"
    by code_simp
  then obtain n where "r = Some n" "n \<le> PMTU_FLOOR" "header_decode (take n out) = Some ?h"
      "decode_body demo_find_value_req (take n out) = Some ?body"
    using encode_message_decodes [OF _ _ e] by (auto simp: header_request_def)
  with e show "header_decode demo_find_request = Some ?h" "decode_body demo_find_value_req demo_find_request = Some ?body"
      "length demo_find_request \<le> PMTU_FLOOR"
    by (simp_all add: demo_find_request_def)
qed

lemma print_dec_length: "length (print_dec n) \<le> Suc n"
  by (induction n rule: print_dec.induct) (subst print_dec.simps, auto)

definition demo_reply_os :: "bytes \<Rightarrow> gateway_os" where
  "demo_reply_os resp = demo_gateway_os\<lparr>go_rpc := \<lparr>rs_set_up = True, rs_sent = True, rs_start = 0, rs_rounds = [(0, UdpWouldBlock), (1, UdpGot resp)]\<rparr>\<rparr>"

theorem browser_gets_value_witness:
  "\<exists>ctx' resp out i. receive demo_env demo_holder (AddrV4 127 0 0 1 5001, demo_find_request) = Some ctx'
    \<and> (AddrV4 127 0 0 1 5001, resp) \<in> set (sx_out ctx')
    \<and> handle_http demo_gateway (demo_reply_os resp) (Some (AddrV4 127 0 0 1 4000))
        [TcpChunk (request_head (of_chars ''POST'') (of_chars ''/rpc'') [] demo_find_request @ crlf), TcpChunk (crlf @ demo_find_request)] Map.empty
      = (HttpWrote out, Map.empty)
    \<and> find_double_crlf out = Some i \<and> drop (i + 4) out = resp"
proof -
  let ?k = "hash_value demo_crypto [1, 2, 3]" and ?r = "immutable_record demo_crypto 0 [1, 2, 3] 60"
  let ?src = "AddrV4 127 0 0 1 5001" and ?cs = "[request_head (of_chars ''POST'') (of_chars ''/rpc'') [] demo_find_request @ crlf, crlf @ demo_find_request]"
  note req = demo_find_request
  have rest: "id_ok (kbytes ?k)" "request_ok (of_chars ''POST'') (of_chars ''/rpc'') []"
    by code_simp+
  have resp: "HEADER_LEN + length (pb_encode demo_find_value_resp
      \<lparr>fvr_result = Some (FvRecord (record_encode demo_record_codec ?r)), fvr_closer_peers = []\<rparr>) \<le> PMTU_FLOOR"
    by code_simp
  have "sx_via_relay demo_holder = Map.empty" "sx_cfg demo_holder = node_config_default"
    by (simp_all add: demo_holder_def demo_shard_def shard_new_def split_beta Let_def)
  then have hop: "relay_hop demo_holder ?src = None" "cf_plaintext (sx_cfg demo_holder)"
    by (simp_all add: relay_hop_def node_config_default_def split: option.split)
  have len: "length demo_find_request < 2 ^ 64"
      "length (request_head (of_chars ''POST'') (of_chars ''/rpc'') [] demo_find_request) + 4 \<le> 64 * 1024"
    using req(3) print_dec_length [of "length demo_find_request"]
    by (simp_all add: request_head_def request_lines_def header_line_def of_chars_def crlf_def PMTU_FLOOR_def)
  have ne: "[] \<notin> set ?cs"
    by (simp add: crlf_def)
  have cs: "concat ?cs = request_head (of_chars ''POST'') (of_chars ''/rpc'') [] demo_find_request @ crlf @ crlf @ demo_find_request"
    by simp
  have arrives: "reply_arrives 5 resp (go_rpc (demo_reply_os resp))" for resp
    unfolding reply_arrives_def
    by (intro conjI exI [of _ "[(0, UdpWouldBlock)]"] exI [of _ 1] exI [of _ "[]"]) (simp_all add: demo_reply_os_def millis_def)
  have env: "decode_body (pb_find_value_req demo_env) demo_find_request = Some (find_body ?k)" "prost_ok (pb_find_value_resp demo_env)"
      "HEADER_LEN + length (pb_encode (pb_find_value_resp demo_env) (find_value_body demo_env False ?k 16 demo_holder)) \<le> PMTU_FLOOR"
      "\<forall>bs. en_send_ok demo_env ?src bs"
    using req(2) resp by (simp_all add: demo_holder_body)
  obtain ctx' resp where r: "receive demo_env demo_holder (?src, demo_find_request) = Some ctx'" "(?src, resp) \<in> set (sx_out ctx')"
      "\<And>os node g. reply_arrives 5 resp (go_rpc os) \<Longrightarrow> \<exists>out i. handle_http demo_gateway os (Some node) (map TcpChunk ?cs) g = (HttpWrote out, g)
           \<and> find_double_crlf out = Some i \<and> drop (i + 4) out = resp"
    using browser_gets_value [where genv = demo_gateway and dc = None, OF req(1) env(1) rest(1) len(1) env(2,3) hop env(4) demo_holder_get rest(2) len(2) cs ne]
    by (elim exE conjE) (rule that, assumption, assumption, blast)
  show ?thesis
    using r(1,2) r(3) [OF arrives, of "AddrV4 127 0 0 1 4000" Map.empty] by (simp only: list.map) blast
qed

end
