(* ===== verification/Node.thy ===== *)
theory Node
  imports Shard_Find Metrics
begin

text \<open>
  A node: its shards, each a thread with its own state and a queue of commands, and the calls of a
  client, which go to the shard that owns the key (\<^verbatim>\<open>node.rs\<close>).
\<close>

section \<open>State\<close>

text \<open>
  A handle stands for the thread as well: its queue, its receive buffers and its state. The thread
  is alive while it has not left its loop; sending to it then succeeds.
\<close>

record 't shard_handle =
  sh_id :: u32
  sh_local :: socket_addr
  sh_rx :: "shard_cmd list"
  sh_bufs :: "vec_u8 list"
  sh_ctx :: "'t shard_ctx"
  sh_alive :: bool
  sh_join :: bool

text \<open>Reply channels are numbered in the order in which they are made.\<close>

record 't node =
  nd_identity :: identity
  nd_cfg :: node_config
  nd_shards :: "'t shard_handle list"
  nd_running :: bool
  nd_next_ch :: channel

text \<open>
  What the operating system gives a new shard: the address its socket is bound to, or an error, the
  files of its directory and the time.
\<close>

record spawn_os =
  so_bound :: "socket_addr option"
  so_disk :: disk
  so_clocks :: clocks

section \<open>Start\<close>

definition spawn_shard :: "'t shard_env \<Rightarrow> u32 \<Rightarrow> identity \<Rightarrow> node_config \<Rightarrow> spawn_os \<Rightarrow> 't shard_handle option" where
  "spawn_shard env i ident cfg os =
     (case so_bound os of
        None \<Rightarrow> None
      | Some local \<Rightarrow>
          let (bufs, ctx) = shard_new env i ident cfg local (so_disk os) (so_clocks os)
          in Some \<lparr>sh_id = i, sh_local = local, sh_rx = [], sh_bufs = bufs, sh_ctx = ctx, sh_alive = True, sh_join = True\<rparr>)"

fun spawn_all :: "'t shard_env \<Rightarrow> identity \<Rightarrow> node_config \<Rightarrow> (u32 \<Rightarrow> spawn_os) \<Rightarrow> u32 list \<Rightarrow> 't shard_handle list option" where
  "spawn_all env ident cfg os [] = Some []"
| "spawn_all env ident cfg os (i # ids) =
     (case spawn_shard env i ident cfg (os i) of
        None \<Rightarrow> None
      | Some h \<Rightarrow> map_option (\<lambda>hs. h # hs) (spawn_all env ident cfg os ids))"

definition tx_send :: "shard_cmd \<Rightarrow> 't shard_handle \<Rightarrow> 't shard_handle option" where
  "tx_send cmd h = (if sh_alive h then Some (h\<lparr>sh_rx := sh_rx h @ [cmd]\<rparr>) else None)"

text \<open>A command for every shard; that a thread is gone is ignored.\<close>

definition send_all :: "shard_cmd \<Rightarrow> 't node \<Rightarrow> 't node" where
  "send_all cmd nd = nd\<lparr>nd_shards := map (\<lambda>h. case tx_send cmd h of Some h' \<Rightarrow> h' | None \<Rightarrow> h) (nd_shards nd)\<rparr>"

definition node_bootstrap :: "socket_addr list \<Rightarrow> 't node \<Rightarrow> 't node" where
  "node_bootstrap seeds nd = send_all (CmdBootstrap seeds) nd"

definition inject_peer :: "peer_info \<Rightarrow> 't node \<Rightarrow> 't node" where
  "inject_peer info nd = send_all (CmdInjectPeer info) nd"

definition node_start :: "'t shard_env \<Rightarrow> identity \<Rightarrow> node_config \<Rightarrow> (u32 \<Rightarrow> spawn_os) \<Rightarrow> 't node option" where
  "node_start env ident cfg os =
     (case spawn_all env ident cfg os (map of_nat [0..<unat (max (cf_shard_count cfg) 1)]) of
        None \<Rightarrow> None
      | Some hs \<Rightarrow>
          let nd = \<lparr>nd_identity = ident, nd_cfg = cfg, nd_shards = hs, nd_running = True, nd_next_ch = 0\<rparr>
          in Some (if cf_bootstrap cfg \<noteq> [] then node_bootstrap (cf_bootstrap cfg) nd else nd))"

definition node_node_id :: "'t shard_env \<Rightarrow> 't node \<Rightarrow> node_id" where
  "node_node_id env nd = identity_node_id (en_crypto env) (nd_identity nd)"

definition node_wg_public :: "'t shard_env \<Rightarrow> 't node \<Rightarrow> bytes" where
  "node_wg_public env nd = wg_public (en_crypto env) (nd_identity nd)"

definition node_local_addr :: "'t node \<Rightarrow> socket_addr" where
  "node_local_addr nd = sh_local (nd_shards nd ! 0)"

definition node_addrs :: "'t node \<Rightarrow> socket_addr list" where
  "node_addrs nd = map sh_local (nd_shards nd)"

section \<open>The threads\<close>

text \<open>
  What happens to a node while a client waits: a thread does a turn of its loop, which it only starts
  while the node runs, or it leaves the loop, when the node no longer runs.
\<close>

datatype node_event = Turn nat clocks "(socket_addr \<times> bytes) list" | Exit nat

definition shard_exit :: "'t shard_env \<Rightarrow> 't shard_handle \<Rightarrow> 't shard_handle" where
  "shard_exit env h = h\<lparr>sh_ctx := shard_stop env (sh_bufs h) (sh_ctx h), sh_bufs := [], sh_rx := [], sh_alive := False\<rparr>"

fun node_step :: "'t shard_env \<Rightarrow> 't node \<Rightarrow> node_event \<Rightarrow> 't node option" where
  "node_step env nd (Turn i c batch) =
     (if i < length (nd_shards nd) \<and> sh_alive (nd_shards nd ! i) \<and> nd_running nd
      then case shard_turn env c batch (sh_rx (nd_shards nd ! i)) (sh_ctx (nd_shards nd ! i)) of
             None \<Rightarrow> None
           | Some (run, rx, ctx) \<Rightarrow>
               Some (nd\<lparr>nd_shards := (nd_shards nd)[i := (nd_shards nd ! i)\<lparr>sh_rx := rx, sh_ctx := ctx\<rparr>],
                        nd_running := run\<rparr>)
      else Some nd)"
| "node_step env nd (Exit i) =
     Some (if i < length (nd_shards nd) \<and> sh_alive (nd_shards nd ! i) \<and> \<not> nd_running nd
           then nd\<lparr>nd_shards := (nd_shards nd)[i := shard_exit env (nd_shards nd ! i)]\<rparr> else nd)"

fun node_run :: "'t shard_env \<Rightarrow> 't node \<Rightarrow> node_event list \<Rightarrow> 't node option" where
  "node_run env nd [] = Some nd"
| "node_run env nd (e # es) = Option.bind (node_step env nd e) (\<lambda>nd1. node_run env nd1 es)"

section \<open>Calls\<close>

definition owner :: "'t shard_env \<Rightarrow> key \<Rightarrow> 't node \<Rightarrow> nat" where
  "owner env k nd = unat (shard_id (node_node_id env nd) k (of_nat (length (nd_shards nd))))"

text \<open>
  A call sends a command with a new channel and waits for the answer. What the threads do until the
  answer or the timeout is the argument \<open>es\<close>; an answer that is not there then is a timeout.
\<close>

definition node_call ::
    "'t shard_env \<Rightarrow> node_event list \<Rightarrow> nat \<Rightarrow> (channel \<Rightarrow> shard_cmd) \<Rightarrow> 't node \<Rightarrow> ((string + reply) \<times> 't node) option" where
  "node_call env es i cmd nd =
     (let ch = nd_next_ch nd; nd1 = nd\<lparr>nd_next_ch := Suc ch\<rparr>
      in case tx_send (cmd ch) (nd_shards nd1 ! i) of
           None \<Rightarrow> Some (Inl ''shard gone'', nd1)
         | Some h \<Rightarrow>
             (case node_run env (nd1\<lparr>nd_shards := (nd_shards nd1)[i := h]\<rparr>) es of
                None \<Rightarrow> None
              | Some nd2 \<Rightarrow>
                  Some (case map_of (sx_replies (sh_ctx (nd_shards nd2 ! i))) ch of
                          Some r \<Rightarrow> Inr r | None \<Rightarrow> Inl ''timeout'', nd2)))"

text \<open>What each call makes of the reply.\<close>

fun key_result :: "reply \<Rightarrow> string + key" where
  "key_result (ReplyKey k) = Inr k"
| "key_result (ReplyErr e) = Inl e"
| "key_result _ = Inl ''unexpected''"

fun value_result :: "reply \<Rightarrow> string + bytes option" where
  "value_result (ReplyRecord r) = Inr (map_option sr_value r)"
| "value_result (ReplyValue v) = Inr v"
| "value_result (ReplyErr e) = Inl e"
| "value_result _ = Inl ''unexpected''"

fun record_result :: "key \<Rightarrow> reply \<Rightarrow> string + stored_record option" where
  "record_result k (ReplyRecord r) = Inr r"
| "record_result k (ReplyValue (Some v)) = Inr (Some
     \<lparr>sr_key = k, sr_value = v, sr_sequence = 0, sr_ttl_secs = 0, sr_not_before_unix = 0, sr_owner_pubkey = [],
      sr_signature = [], sr_kind = KIND_IMMUTABLE, sr_namespace = [], sr_salt = [], sr_stored_unix = 0, sr_cache = False\<rparr>)"
| "record_result k (ReplyValue None) = Inr None"
| "record_result k (ReplyErr e) = Inl e"
| "record_result k _ = Inl ''unexpected''"

fun ok_result :: "reply \<Rightarrow> string + unit" where
  "ok_result ReplyOk = Inr ()"
| "ok_result (ReplyErr e) = Inl e"
| "ok_result _ = Inl ''unexpected''"

fun providers_result :: "reply \<Rightarrow> string + (node_id \<times> bytes) list" where
  "providers_result (ReplyProviders p) = Inr p"
| "providers_result (ReplyValue _) = Inr []"
| "providers_result (ReplyErr e) = Inl e"
| "providers_result _ = Inl ''unexpected''"

definition and_then :: "(reply \<Rightarrow> string + 'r) \<Rightarrow> ((string + reply) \<times> 't node) option \<Rightarrow> ((string + 'r) \<times> 't node) option" where
  "and_then f = map_option (\<lambda>(r, nd). (case r of Inl e \<Rightarrow> Inl e | Inr x \<Rightarrow> f x, nd))"

definition put_ttl :: "'t shard_env \<Rightarrow> node_event list \<Rightarrow> bytes \<Rightarrow> u64 \<Rightarrow> 't node \<Rightarrow> ((string + key) \<times> 't node) option" where
  "put_ttl env es v ttl nd =
     and_then key_result (node_call env es (owner env (hash_value (en_crypto env) v) nd) (CmdPut v ttl) nd)"

definition node_put :: "'t shard_env \<Rightarrow> node_event list \<Rightarrow> bytes \<Rightarrow> 't node \<Rightarrow> ((string + key) \<times> 't node) option" where
  "node_put env es v nd = put_ttl env es v MUTABLE_TTL_SECS nd"

definition node_get :: "'t shard_env \<Rightarrow> node_event list \<Rightarrow> key \<Rightarrow> 't node \<Rightarrow> ((string + bytes option) \<times> 't node) option" where
  "node_get env es k nd = and_then value_result (node_call env es (owner env k nd) (CmdGet k) nd)"

definition get_record :: "'t shard_env \<Rightarrow> node_event list \<Rightarrow> key \<Rightarrow> 't node \<Rightarrow> ((string + stored_record option) \<times> 't node) option" where
  "get_record env es k nd = and_then (record_result k) (node_call env es (owner env k nd) (CmdGet k) nd)"

definition mutable_result :: "crypto \<Rightarrow> bytes \<Rightarrow> bytes \<Rightarrow> bytes \<Rightarrow> stored_record option \<Rightarrow> string + bytes option" where
  "mutable_result c owner_pk ns salt found =
     (case found of
        None \<Rightarrow> Inr None
      | Some r \<Rightarrow>
          if sr_key r \<noteq> mutable_key c owner_pk ns salt \<or> sr_namespace r \<noteq> ns \<or> sr_salt r \<noteq> salt then Inl ''key mismatch''
          else if \<not> signed_by c r owner_pk then Inl ''bad signature''
          else Inr (Some (sr_value r)))"

definition get_mutable ::
    "'t shard_env \<Rightarrow> node_event list \<Rightarrow> bytes \<Rightarrow> bytes \<Rightarrow> bytes \<Rightarrow> 't node \<Rightarrow> ((string + bytes option) \<times> 't node) option" where
  "get_mutable env es owner_pk ns salt nd =
     map_option (\<lambda>(r, nd'). (case r of Inl e \<Rightarrow> Inl e | Inr x \<Rightarrow> mutable_result (en_crypto env) owner_pk ns salt x, nd'))
       (get_record env es (mutable_key (en_crypto env) owner_pk ns salt) nd)"

text \<open>The record that \<^verbatim>\<open>put_mutable_ttl\<close> makes, signed by the node.\<close>

definition mutable_record :: "crypto \<Rightarrow> identity \<Rightarrow> u64 \<Rightarrow> bytes \<Rightarrow> bytes \<Rightarrow> bytes \<Rightarrow> u64 \<Rightarrow> u64 \<Rightarrow> stored_record" where
  "mutable_record c ident now ns salt v seq ttl =
     (let pk = verifying_key ident; k = mutable_key c pk ns salt
      in \<lparr>sr_key = k, sr_value = v, sr_sequence = seq, sr_ttl_secs = ttl, sr_not_before_unix = 0, sr_owner_pubkey = pk,
          sr_signature = sign_record c (signing ident) k v seq ttl 0, sr_kind = KIND_MUTABLE, sr_namespace = ns,
          sr_salt = salt, sr_stored_unix = now, sr_cache = False\<rparr>)"

definition put_mutable_ttl ::
    "'t shard_env \<Rightarrow> node_event list \<Rightarrow> u64 \<Rightarrow> bytes \<Rightarrow> bytes \<Rightarrow> bytes \<Rightarrow> u64 \<Rightarrow> u64 \<Rightarrow> 't node
      \<Rightarrow> ((string + key) \<times> 't node) option" where
  "put_mutable_ttl env es now ns salt v seq ttl nd =
     (let r = mutable_record (en_crypto env) (nd_identity nd) now ns salt v seq ttl
      in and_then key_result (node_call env es (owner env (sr_key r) nd) (CmdPutMutable r) nd))"

definition put_mutable ::
    "'t shard_env \<Rightarrow> node_event list \<Rightarrow> u64 \<Rightarrow> bytes \<Rightarrow> bytes \<Rightarrow> bytes \<Rightarrow> u64 \<Rightarrow> 't node \<Rightarrow> ((string + key) \<times> 't node) option" where
  "put_mutable env es now ns salt v seq nd = put_mutable_ttl env es now ns salt v seq MUTABLE_TTL_SECS nd"

definition node_announce ::
    "'t shard_env \<Rightarrow> node_event list \<Rightarrow> key \<Rightarrow> bytes \<Rightarrow> 't node \<Rightarrow> ((string + unit) \<times> 't node) option" where
  "node_announce env es k meta nd = and_then ok_result (node_call env es (owner env k nd) (CmdAnnounce k meta) nd)"

definition find_providers ::
    "'t shard_env \<Rightarrow> node_event list \<Rightarrow> key \<Rightarrow> 't node \<Rightarrow> ((string + (node_id \<times> bytes) list) \<times> 't node) option" where
  "find_providers env es k nd = and_then providers_result (node_call env es (owner env k nd) (CmdFindProviders k) nd)"

definition node_metrics :: "'t node \<Rightarrow> snapshot" where
  "node_metrics nd = aggregate (map (\<lambda>h. sx_metrics (sh_ctx h)) (nd_shards nd))"

definition prometheus :: "'t node \<Rightarrow> bytes" where
  "prometheus nd = prometheus_text (node_metrics nd)"

section \<open>Shutdown\<close>

text \<open>
  Joining a thread waits until it has left its loop, which it does as the node no longer runs. A turn
  that is under way when the flag is cleared is the last \<open>Turn\<close> of the schedule before the shutdown.
\<close>

definition handle_join :: "'t shard_env \<Rightarrow> 't shard_handle \<Rightarrow> 't shard_handle" where
  "handle_join env h = (if sh_join h then (if sh_alive h then shard_exit env h else h)\<lparr>sh_join := False\<rparr> else h)"

definition node_shutdown :: "'t shard_env \<Rightarrow> 't node \<Rightarrow> 't node" where
  "node_shutdown env nd =
     (let nd1 = send_all CmdShutdown (nd\<lparr>nd_running := False\<rparr>)
      in nd1\<lparr>nd_shards := map (handle_join env) (nd_shards nd1)\<rparr>)"

definition node_drop :: "'t shard_env \<Rightarrow> 't node \<Rightarrow> 't node" where
  "node_drop env nd = (if nd_running nd then node_shutdown env nd else nd)"

end
