(* ===== verification/Node_Inv.thy ===== *)
theory Node_Inv
  imports Node
begin

text \<open>
  The states a node can reach, through calls of clients and steps of its threads, and what holds in
  all of them: every shard is a shard that was started and handled events, a channel is used by one
  call only, and every call returns.
\<close>

section \<open>Reachable nodes\<close>

inductive node_reachable :: "'t shard_env \<Rightarrow> identity \<Rightarrow> node_config \<Rightarrow> 't node \<Rightarrow> bool" for env ident cfg where
  start: "node_start env ident cfg os = Some nd \<Longrightarrow> node_reachable env ident cfg nd"
| event: "node_reachable env ident cfg nd \<Longrightarrow> node_step env nd e = Some nd' \<Longrightarrow> node_reachable env ident cfg nd'"
| call: "node_reachable env ident cfg nd \<Longrightarrow> i < length (nd_shards nd) \<Longrightarrow> asked_by (EvCommand cmd) = {#nd_next_ch nd#}
    \<Longrightarrow> tx_send cmd (nd_shards nd ! i) = Some h
    \<Longrightarrow> node_reachable env ident cfg (nd\<lparr>nd_next_ch := Suc (nd_next_ch nd), nd_shards := (nd_shards nd)[i := h]\<rparr>)"
| gone: "node_reachable env ident cfg nd \<Longrightarrow> node_reachable env ident cfg (nd\<lparr>nd_next_ch := Suc (nd_next_ch nd)\<rparr>)"
| every: "node_reachable env ident cfg nd \<Longrightarrow> asked_by (EvCommand cmd) = {#} \<Longrightarrow> node_reachable env ident cfg (send_all cmd nd)"
| shutdown: "node_reachable env ident cfg nd \<Longrightarrow> node_reachable env ident cfg (node_shutdown env nd)"

section \<open>The invariant\<close>

text \<open>A state of a shard that was started and has handled some events.\<close>

definition reached :: "'t shard_env \<Rightarrow> identity \<Rightarrow> node_config \<Rightarrow> 't shard_ctx \<Rightarrow> bool" where
  "reached env ident cfg ctx = (\<exists>i addr d ck bufs ctx0 es.
     shard_new env i ident cfg addr d ck = (bufs, ctx0) \<and> shard_run env ctx0 es = Some ctx)"

definition queue_asks :: "shard_cmd list \<Rightarrow> channel multiset" where
  "queue_asks rx = (\<Sum>c \<leftarrow> rx. asked_by (EvCommand c))"

definition handle_ok :: "'t shard_env \<Rightarrow> identity \<Rightarrow> node_config \<Rightarrow> channel \<Rightarrow> 't shard_handle \<Rightarrow> bool" where
  "handle_ok env ident cfg n h =
     ((if sh_alive h then reached env ident cfg (sh_ctx h)
       else \<exists>bufs ctx. reached env ident cfg ctx \<and> sh_ctx h = shard_stop env bufs ctx)
      \<and> set_mset (ledger (sh_ctx h) + queue_asks (sh_rx h)) \<subseteq> {..<n})"

definition node_ok :: "'t shard_env \<Rightarrow> identity \<Rightarrow> node_config \<Rightarrow> 't node \<Rightarrow> bool" where
  "node_ok env ident cfg nd =
     (nd_identity nd = ident \<and> nd_cfg nd = cfg \<and> length (nd_shards nd) = unat (max (cf_shard_count cfg) 1)
      \<and> (\<forall>h \<in> set (nd_shards nd). handle_ok env ident cfg (nd_next_ch nd) h))"

lemma queue_asks_simps [simp]:
  "queue_asks [] = {#}" "queue_asks (c # rx) = asked_by (EvCommand c) + queue_asks rx"
  "queue_asks (rx @ rx') = queue_asks rx + queue_asks rx'"
  by (simp_all add: queue_asks_def)

lemma ledger_stop [simp]: "ledger (shard_stop env bufs ctx) = ledger ctx"
proof -
  have "ledger (flush_stores env c) = ledger c" for c
    by (simp add: flush_stores_def split_beta Let_def ledger_def)
  moreover have "ledger (foldl (\<lambda>c b. recycle b c) ctx bufs) = ledger ctx"
    by (rule foldl_keeps [where P = "\<lambda>c. ledger c = ledger ctx"]) (simp_all add: recycle_def ledger_def)
  ultimately show ?thesis
    by (simp add: shard_stop_def)
qed

lemma asked_turn: "asked (turn_events ck batch cmds) \<subseteq># queue_asks cmds"
proof -
  have "asked (map (\<lambda>(src, pkt). (ck, EvDatagram src pkt)) batch) = {#}"
    by (induction batch) (auto simp: asked_def)
  moreover have "asked (map (\<lambda>cmd. (ck, EvCommand cmd)) (takeWhile P cmds)) \<subseteq># queue_asks cmds" for P
    by (induction cmds) (auto simp: asked_def intro: subset_mset.add_mono subset_mset.add_increasing)
  ultimately show ?thesis
    by (simp add: turn_events_def asked_def)
qed

lemma handle_ok_mono: "handle_ok env ident cfg n h \<Longrightarrow> n \<le> m \<Longrightarrow> handle_ok env ident cfg m h"
  by (fastforce simp: handle_ok_def)

lemma handle_ok_send:
  assumes "handle_ok env ident cfg n h" "tx_send cmd h = Some h'" "set_mset (asked_by (EvCommand cmd)) \<subseteq> {..<m}" "n \<le> m"
  shows "handle_ok env ident cfg m h'"
  using assms by (fastforce simp: tx_send_def handle_ok_def split: if_splits)

lemma handle_ok_exit:
  assumes "handle_ok env ident cfg n h" "sh_alive h"
  shows "handle_ok env ident cfg n (shard_exit env h)"
  using assms by (auto simp: handle_ok_def shard_exit_def)

text \<open>A turn takes a shard that was reached to another one.\<close>

lemma turn_reached:
  assumes "reached env ident cfg ctx" "shard_turn env ck batch rx ctx = Some (run, rx', ctx')"
  shows "reached env ident cfg ctx'" and "rx' = drop DRAIN_BATCH rx" and "run = (CmdShutdown \<notin> set (take DRAIN_BATCH rx))"
    and "ledger ctx' \<subseteq># ledger ctx + queue_asks (take DRAIN_BATCH rx)"
proof -
  from assms(1) obtain i addr d ck0 bufs ctx0 es
    where new: "shard_new env i ident cfg addr d ck0 = (bufs, ctx0)" "shard_run env ctx0 es = Some ctx"
    by (auto simp: reached_def)
  let ?es = "turn_events ck batch (take DRAIN_BATCH rx)"
  have run: "shard_run env ctx ?es = Some ctx'"
    and rest: "rx' = drop DRAIN_BATCH rx" "run = (CmdShutdown \<notin> set (take DRAIN_BATCH rx))"
    using turn_run [OF new, of ck batch rx] assms(2) by (cases "shard_run env ctx ?es"; simp)+
  have "shard_run env ctx0 (es @ ?es) = Some ctx'"
    using new(2) run by (simp add: run_append)
  then show "reached env ident cfg ctx'"
    using new(1) unfolding reached_def by blast
  show "rx' = drop DRAIN_BATCH rx" "run = (CmdShutdown \<notin> set (take DRAIN_BATCH rx))"
    using rest .
  show "ledger ctx' \<subseteq># ledger ctx + queue_asks (take DRAIN_BATCH rx)"
    using ledger_run [OF run] asked_turn [of ck batch "take DRAIN_BATCH rx"]
    by (meson subset_mset.add_left_mono subset_mset.order_trans)
qed

lemma turn_asks:
  assumes "reached env ident cfg ctx" "shard_turn env ck batch rx ctx = Some (run, rx', ctx')"
  shows "ledger ctx' + queue_asks rx' \<subseteq># ledger ctx + queue_asks rx"
proof -
  have "queue_asks rx = queue_asks (take DRAIN_BATCH rx) + queue_asks (drop DRAIN_BATCH rx)"
    by (metis append_take_drop_id queue_asks_simps(3))
  then show ?thesis
    using turn_reached(2,4) [OF assms] by (simp add: add.assoc [symmetric])
qed

lemma handle_ok_turn:
  assumes "handle_ok env ident cfg n h" "sh_alive h" "shard_turn env ck batch (sh_rx h) (sh_ctx h) = Some (run, rx, ctx)"
  shows "handle_ok env ident cfg n (h\<lparr>sh_rx := rx, sh_ctx := ctx\<rparr>)"
proof -
  have r: "reached env ident cfg (sh_ctx h)" and ch: "set_mset (ledger (sh_ctx h) + queue_asks (sh_rx h)) \<subseteq> {..<n}"
    using assms(1,2) by (auto simp: handle_ok_def)
  note t = turn_reached [OF r assms(3)]
  have "ledger ctx + queue_asks rx \<subseteq># ledger (sh_ctx h) + queue_asks (sh_rx h)"
    using turn_asks [OF r assms(3)] .
  then have "set_mset (ledger ctx + queue_asks rx) \<subseteq> {..<n}"
    using ch set_mset_mono by blast
  then show ?thesis
    using assms(2) t(1) by (simp add: handle_ok_def)
qed


section \<open>Every reachable node\<close>

lemma spawn_shard_ok: "spawn_shard env i ident cfg os = Some h \<Longrightarrow> handle_ok env ident cfg n h"
proof -
  assume "spawn_shard env i ident cfg os = Some h"
  then obtain bufs ctx addr where new: "shard_new env i ident cfg addr (so_disk os) (so_clocks os) = (bufs, ctx)"
    and h: "sh_ctx h = ctx" "sh_alive h" "sh_rx h = []"
    by (auto simp: spawn_shard_def Let_def split: option.splits prod.splits)
  have "shard_run env ctx [] = Some ctx" by simp
  with new have "reached env ident cfg ctx"
    unfolding reached_def by blast
  moreover have "sx_replies ctx = [] \<and> sx_lookups ctx = Map.empty"
    using new by (auto simp: shard_new_def split_beta Let_def)
  ultimately show ?thesis
    by (simp add: handle_ok_def h ledger_def waiting_def)
qed

lemma spawn_all_ok:
  assumes "spawn_all env ident cfg os ids = Some hs"
  shows "length hs = length ids" and "\<forall>h \<in> set hs. handle_ok env ident cfg n h"
  using assms
  by (induction ids arbitrary: hs) (auto split: option.splits dest: spawn_shard_ok [where n = n])

lemma send_all_ok:
  assumes "node_ok env ident cfg nd" "asked_by (EvCommand cmd) = {#}"
  shows "node_ok env ident cfg (send_all cmd nd)"
proof -
  have "handle_ok env ident cfg n (case tx_send cmd h of Some h' \<Rightarrow> h' | None \<Rightarrow> h)" if "handle_ok env ident cfg n h" for n h
    using that assms(2) by (auto split: option.split intro: handle_ok_send)
  then show ?thesis
    using assms(1) by (simp add: node_ok_def send_all_def)
qed

lemma node_start_ok:
  assumes "node_start env ident cfg os = Some nd"
  shows "node_ok env ident cfg nd"
proof -
  let ?ids = "map of_nat [0..<unat (max (cf_shard_count cfg) 1)]"
  from assms obtain hs where hs: "spawn_all env ident cfg os ?ids = Some hs"
    by (auto simp: node_start_def split: option.splits)
  let ?nd = "\<lparr>nd_identity = ident, nd_cfg = cfg, nd_shards = hs, nd_running = True, nd_next_ch = 0\<rparr>"
  have "node_ok env ident cfg ?nd"
    using spawn_all_ok [OF hs] by (simp add: node_ok_def)
  with send_all_ok [OF this, of "CmdBootstrap (cf_bootstrap cfg)"] show ?thesis
    using assms hs by (auto simp: node_start_def node_bootstrap_def Let_def split: if_splits)
qed

lemma node_ok_upd:
  assumes "node_ok env ident cfg nd" "handle_ok env ident cfg (nd_next_ch nd) h"
  shows "node_ok env ident cfg (nd\<lparr>nd_shards := (nd_shards nd)[i := h]\<rparr>)"
  using assms by (auto simp: node_ok_def dest!: subsetD [OF set_update_subset_insert])

lemma node_ok_running [simp]: "node_ok env ident cfg (nd\<lparr>nd_running := b\<rparr>) = node_ok env ident cfg nd"
  by (simp add: node_ok_def)

lemma node_ok_next: "node_ok env ident cfg nd \<Longrightarrow> nd_next_ch nd \<le> m \<Longrightarrow> node_ok env ident cfg (nd\<lparr>nd_next_ch := m\<rparr>)"
  by (auto simp: node_ok_def intro: handle_ok_mono)

lemma node_step_ok:
  assumes "node_ok env ident cfg nd" "node_step env nd e = Some nd'"
  shows "node_ok env ident cfg nd'"
proof (cases e)
  case (Turn i c batch)
  show ?thesis
  proof (cases "i < length (nd_shards nd) \<and> sh_alive (nd_shards nd ! i) \<and> nd_running nd")
    case True
    then obtain run rx ctx where t: "shard_turn env c batch (sh_rx (nd_shards nd ! i)) (sh_ctx (nd_shards nd ! i)) = Some (run, rx, ctx)"
      and nd': "nd' = nd\<lparr>nd_shards := (nd_shards nd)[i := (nd_shards nd ! i)\<lparr>sh_rx := rx, sh_ctx := ctx\<rparr>], nd_running := run\<rparr>"
      using assms(2) by (auto simp: Turn split: option.splits)
    have "handle_ok env ident cfg (nd_next_ch nd) (nd_shards nd ! i)"
      using assms(1) True by (simp add: node_ok_def)
    from node_ok_upd [OF assms(1) handle_ok_turn [OF this _ t], of i] True show ?thesis
      by (simp add: nd')
  next
    case False
    then show ?thesis
      using assms by (simp add: Turn split: if_splits)
  qed
next
  case (Exit i)
  have "handle_ok env ident cfg (nd_next_ch nd) (shard_exit env (nd_shards nd ! i))"
    if "i < length (nd_shards nd)" "sh_alive (nd_shards nd ! i)"
    using assms(1) that by (intro handle_ok_exit) (simp_all add: node_ok_def)
  from node_ok_upd [OF assms(1) this, of i] assms show ?thesis
    by (auto simp: Exit split: if_splits)
qed

lemma node_shutdown_ok:
  assumes "node_ok env ident cfg nd"
  shows "node_ok env ident cfg (node_shutdown env nd)"
proof -
  let ?nd = "send_all CmdShutdown (nd\<lparr>nd_running := False\<rparr>)"
  have ok: "node_ok env ident cfg ?nd"
    using assms by (intro send_all_ok) simp_all
  have "handle_ok env ident cfg n (handle_join env h)" if "handle_ok env ident cfg n h" for n h
    using that handle_ok_exit [OF that] by (auto simp: handle_join_def) (simp_all add: handle_ok_def)
  with ok show ?thesis
    by (auto simp: node_shutdown_def Let_def node_ok_def)
qed

lemma node_ok_call:
  assumes "node_ok env ident cfg nd" "i < length (nd_shards nd)" "asked_by (EvCommand cmd) = {#nd_next_ch nd#}"
    and "tx_send cmd (nd_shards nd ! i) = Some h"
  shows "node_ok env ident cfg (nd\<lparr>nd_next_ch := Suc (nd_next_ch nd), nd_shards := (nd_shards nd)[i := h]\<rparr>)"
proof -
  have "handle_ok env ident cfg (nd_next_ch nd) (nd_shards nd ! i)"
    using assms(1,2) by (simp add: node_ok_def)
  then have "handle_ok env ident cfg (Suc (nd_next_ch nd)) h"
    by (rule handle_ok_send [OF _ assms(4)]) (simp_all add: assms(3))
  moreover have "node_ok env ident cfg (nd\<lparr>nd_next_ch := Suc (nd_next_ch nd)\<rparr>)"
    using assms(1) by (rule node_ok_next) simp
  ultimately show ?thesis
    using node_ok_upd [of env ident cfg "nd\<lparr>nd_next_ch := Suc (nd_next_ch nd)\<rparr>" h i] by simp
qed

lemma reachable_ok: "node_reachable env ident cfg nd \<Longrightarrow> node_ok env ident cfg nd"
proof (induction rule: node_reachable.induct)
  case (start os nd)
  then show ?case by (rule node_start_ok)
next
  case (event nd e nd')
  then show ?case by (blast intro: node_step_ok)
next
  case (call nd i cmd h)
  then show ?case by (blast intro: node_ok_call)
next
  case (gone nd)
  then show ?case by (simp add: node_ok_next)
next
  case (every nd cmd)
  then show ?case by (blast intro: send_all_ok)
next
  case (shutdown nd)
  then show ?case by (blast intro: node_shutdown_ok)
qed


text \<open>Running the threads keeps a node reachable, and so does a call.\<close>

lemma run_reachable: "node_run env nd es = Some nd' \<Longrightarrow> node_reachable env ident cfg nd \<Longrightarrow> node_reachable env ident cfg nd'"
  by (induction es arbitrary: nd) (auto split: bind_splits intro: node_reachable.event)

lemma call_reachable:
  assumes "node_reachable env ident cfg nd" "i < length (nd_shards nd)" "\<And>ch. asked_by (EvCommand (cmd ch)) = {#ch#}"
    and "node_call env es i cmd nd = Some (r, nd')"
  shows "node_reachable env ident cfg nd'"
proof (cases "tx_send (cmd (nd_next_ch nd)) (nd_shards nd ! i)")
  case None
  then show ?thesis
    using assms(1,4) by (auto simp: node_call_def Let_def intro: node_reachable.gone)
next
  case (Some h)
  let ?nd = "nd\<lparr>nd_next_ch := Suc (nd_next_ch nd), nd_shards := (nd_shards nd)[i := h]\<rparr>"
  have "node_reachable env ident cfg ?nd"
    using assms(1,2,3) Some by (intro node_reachable.call)
  moreover have "node_run env ?nd es = Some nd'"
    using assms(4) Some by (auto simp: node_call_def Let_def split: option.splits)
  ultimately show ?thesis
    using run_reachable by blast
qed

lemma shard_turn_defined:
  assumes "relay_part (pb_relay env)" "tunn_drains (en_tunn env) q" "reached env ident cfg ctx"
  shows "shard_turn env ck batch rx ctx \<noteq> None"
proof -
  from assms(3) obtain i addr d ck0 bufs ctx0 es
    where new: "shard_new env i ident cfg addr d ck0 = (bufs, ctx0)" "shard_run env ctx0 es = Some ctx"
    by (auto simp: reached_def)
  show ?thesis
    using turn_run [OF new, of ck batch rx] shard_run_defined [OF assms(1,2), of ctx "turn_events ck batch (take DRAIN_BATCH rx)"]
    by auto
qed

lemma node_run_defined:
  assumes "relay_part (pb_relay env)" "tunn_drains (en_tunn env) q" "node_reachable env ident cfg nd"
  shows "node_run env nd es \<noteq> None"
  using assms(3)
proof (induction es arbitrary: nd)
  case (Cons e es)
  have "node_step env nd e \<noteq> None"
  proof (cases e)
    case (Turn i c batch)
    have "reached env ident cfg (sh_ctx (nd_shards nd ! i))" if "i < length (nd_shards nd)" "sh_alive (nd_shards nd ! i)"
      using reachable_ok [OF Cons.prems] that by (auto simp: node_ok_def handle_ok_def dest!: bspec [OF _ nth_mem])
    then have "shard_turn env c batch (sh_rx (nd_shards nd ! i)) (sh_ctx (nd_shards nd ! i)) \<noteq> None"
      if "i < length (nd_shards nd)" "sh_alive (nd_shards nd ! i)"
      using that by (intro shard_turn_defined [OF assms(1,2)]) blast
    then show ?thesis
      by (auto simp: Turn split: option.splits)
  qed simp
  then obtain nd1 where nd1: "node_step env nd e = Some nd1" by blast
  with Cons.IH [OF node_reachable.event [OF Cons.prems nd1]] show ?case
    by simp
qed simp

lemma call_defined:
  assumes "relay_part (pb_relay env)" "tunn_drains (en_tunn env) q" "node_reachable env ident cfg nd"
    and "i < length (nd_shards nd)" "\<And>ch. asked_by (EvCommand (cmd ch)) = {#ch#}"
  shows "\<exists>r nd'. node_call env es i cmd nd = Some (r, nd') \<and> node_reachable env ident cfg nd'"
proof -
  have "node_call env es i cmd nd \<noteq> None"
  proof (cases "tx_send (cmd (nd_next_ch nd)) (nd_shards nd ! i)")
    case (Some h)
    let ?nd = "nd\<lparr>nd_next_ch := Suc (nd_next_ch nd), nd_shards := (nd_shards nd)[i := h]\<rparr>"
    have "node_reachable env ident cfg ?nd"
      using assms(3,4,5) Some by (intro node_reachable.call)
    from node_run_defined [OF assms(1,2) this, of es] Some show ?thesis
      by (auto simp: node_call_def Let_def)
  qed (simp add: node_call_def Let_def)
  then show ?thesis
    using call_reachable [OF assms(3,4,5)] by auto
qed

lemma owner_less:
  assumes "node_reachable env ident cfg nd"
  shows "owner env k nd < length (nd_shards nd)"
proof -
  let ?n = "max (cf_shard_count cfg) 1"
  have len: "length (nd_shards nd) = unat ?n"
    using reachable_ok [OF assms] by (simp add: node_ok_def)
  then have "(of_nat (length (nd_shards nd)) :: u32) = ?n" by simp
  moreover have "?n \<noteq> 0"
    by (auto simp: max_def)
  ultimately show ?thesis
    using shard_id_in_range [of ?n "node_node_id env nd" k] len
    unfolding owner_def by (metis word_less_nat_alt)
qed


section \<open>Clients\<close>

text \<open>
  The calls of the interface of a node. A client that waits for its answer is \<open>Call\<close>, with what the
  threads do in the meantime; the request of a client that waits while others call is \<open>Ask\<close>, and
  \<open>Threads\<close> is what the threads do then.
\<close>

datatype api_call =
    ApiPut bytes u64
  | ApiGet key
  | ApiGetMutable bytes bytes bytes
  | ApiPutMutable u64 bytes bytes bytes u64 u64
  | ApiAnnounce key bytes
  | ApiFindProviders key

datatype client_op =
    Call "node_event list" api_call
  | Ask api_call
  | Threads "node_event list"
  | Inject peer_info
  | Bootstrap "socket_addr list"
  | Shutdown

fun api_return :: "'t shard_env \<Rightarrow> node_event list \<Rightarrow> api_call \<Rightarrow> 't node \<Rightarrow> 't node option" where
  "api_return env es (ApiPut v ttl) nd = map_option snd (put_ttl env es v ttl nd)"
| "api_return env es (ApiGet k) nd = map_option snd (node_get env es k nd)"
| "api_return env es (ApiGetMutable pk ns salt) nd = map_option snd (get_mutable env es pk ns salt nd)"
| "api_return env es (ApiPutMutable now ns salt v seq ttl) nd = map_option snd (put_mutable_ttl env es now ns salt v seq ttl nd)"
| "api_return env es (ApiAnnounce k meta) nd = map_option snd (node_announce env es k meta nd)"
| "api_return env es (ApiFindProviders k) nd = map_option snd (find_providers env es k nd)"

fun api_cmd :: "'t shard_env \<Rightarrow> 't node \<Rightarrow> api_call \<Rightarrow> key \<times> (channel \<Rightarrow> shard_cmd)" where
  "api_cmd env nd (ApiPut v ttl) = (hash_value (en_crypto env) v, CmdPut v ttl)"
| "api_cmd env nd (ApiGet k) = (k, CmdGet k)"
| "api_cmd env nd (ApiGetMutable pk ns salt) =
     (mutable_key (en_crypto env) pk ns salt, CmdGet (mutable_key (en_crypto env) pk ns salt))"
| "api_cmd env nd (ApiPutMutable now ns salt v seq ttl) =
     (let r = mutable_record (en_crypto env) (nd_identity nd) now ns salt v seq ttl in (sr_key r, CmdPutMutable r))"
| "api_cmd env nd (ApiAnnounce k meta) = (k, CmdAnnounce k meta)"
| "api_cmd env nd (ApiFindProviders k) = (k, CmdFindProviders k)"

fun node_op :: "'t shard_env \<Rightarrow> 't node \<Rightarrow> client_op \<Rightarrow> 't node option" where
  "node_op env nd (Call es a) = api_return env es a nd"
| "node_op env nd (Ask a) =
     (case api_cmd env nd a of (k, cmd) \<Rightarrow> map_option snd (node_call env [] (owner env k nd) cmd nd))"
| "node_op env nd (Threads es) = node_run env nd es"
| "node_op env nd (Inject info) = Some (inject_peer info nd)"
| "node_op env nd (Bootstrap seeds) = Some (node_bootstrap seeds nd)"
| "node_op env nd Shutdown = Some (node_shutdown env nd)"

fun node_ops :: "'t shard_env \<Rightarrow> 't node \<Rightarrow> client_op list \<Rightarrow> 't node option" where
  "node_ops env nd [] = Some nd"
| "node_ops env nd (a # as) = Option.bind (node_op env nd a) (\<lambda>nd1. node_ops env nd1 as)"

lemma api_return_call:
  "api_return env es a nd
    = map_option snd (node_call env es (owner env (fst (api_cmd env nd a)) nd) (snd (api_cmd env nd a)) nd)"
  by (cases a) (auto simp: put_ttl_def node_get_def get_mutable_def get_record_def put_mutable_ttl_def node_announce_def
      find_providers_def and_then_def Let_def option.map_comp comp_def split_beta)

lemma api_cmd_asks: "asked_by (EvCommand (snd (api_cmd env nd a) ch)) = {#ch#}"
  "command_ok K (snd (api_cmd env nd a) ch)"
  by (cases a; simp add: Let_def)+

section \<open>Health and progress of a node\<close>

lemma reached_healthy:
  "reached env ident cfg ctx \<Longrightarrow> healthy env (bound_key (en_crypto env) UNIV) (identity_node_id (en_crypto env) ident) ctx"
  by (auto simp: reached_def intro: shard_run_healthy)

text \<open>
  What holds of a node whose injected peers have keys in \<open>X\<close>: every shard is healthy, and every
  channel is at most once among the answers, the waiting lookups and the queues of all shards.
\<close>

definition handle_keys :: "'t shard_env \<Rightarrow> identity \<Rightarrow> bytes set \<Rightarrow> 't shard_handle \<Rightarrow> bool" where
  "handle_keys env ident X h =
     (healthy env (bound_key (en_crypto env) X) (identity_node_id (en_crypto env) ident) (sh_ctx h)
      \<and> list_all (command_ok (bound_key (en_crypto env) X)) (sh_rx h))"

definition handle_asks :: "'t shard_handle \<Rightarrow> channel multiset" where
  "handle_asks h = ledger (sh_ctx h) + queue_asks (sh_rx h)"

definition node_asks :: "'t node \<Rightarrow> channel multiset" where
  "node_asks nd = (\<Sum>h \<leftarrow> nd_shards nd. handle_asks h)"

definition node_sane :: "'t shard_env \<Rightarrow> identity \<Rightarrow> node_config \<Rightarrow> bytes set \<Rightarrow> 't node \<Rightarrow> bool" where
  "node_sane env ident cfg X nd =
     (node_reachable env ident cfg nd \<and> (\<forall>h \<in> set (nd_shards nd). handle_keys env ident X h)
      \<and> node_asks nd \<subseteq># mset [0..<nd_next_ch nd])"

lemma sum_update_mono:
  fixes f :: "'a \<Rightarrow> 'b multiset"
  shows "i < length xs \<Longrightarrow> f h \<subseteq># f (xs ! i) + d \<Longrightarrow> (\<Sum>x \<leftarrow> xs[i := h]. f x) \<subseteq># (\<Sum>x \<leftarrow> xs. f x) + d"
proof (induction xs arbitrary: i)
  case (Cons x xs)
  show ?case
  proof (cases i)
    case 0
    then have "f h + (\<Sum>x \<leftarrow> xs. f x) \<subseteq># (f x + d) + (\<Sum>x \<leftarrow> xs. f x)"
      using Cons.prems by (intro subset_mset.add_right_mono) simp
    then show ?thesis
      using 0 by (simp add: ac_simps)
  next
    case (Suc j)
    then show ?thesis
      using Cons by (simp add: add.assoc)
  qed
qed simp

lemma sum_map_mono:
  fixes f :: "'a \<Rightarrow> 'b multiset"
  shows "(\<And>x. f (g x) \<subseteq># f x) \<Longrightarrow> (\<Sum>x \<leftarrow> map g xs. f x) \<subseteq># (\<Sum>x \<leftarrow> xs. f x)"
  by (induction xs) (simp_all add: subset_mset.add_mono)

lemma turn_keys:
  assumes "reached env ident cfg (sh_ctx h)" "handle_keys env ident X h"
    and "shard_turn env ck batch (sh_rx h) (sh_ctx h) = Some (run, rx, ctx)"
  shows "handle_keys env ident X (h\<lparr>sh_rx := rx, sh_ctx := ctx\<rparr>)"
proof -
  let ?K = "bound_key (en_crypto env) X" and ?cmds = "take DRAIN_BATCH (sh_rx h)"
  from assms(1) obtain i addr d ck0 bufs ctx0 es
    where new: "shard_new env i ident cfg addr d ck0 = (bufs, ctx0)" "shard_run env ctx0 es = Some (sh_ctx h)"
    by (auto simp: reached_def)
  have cmds: "list_all (command_ok ?K) (sh_rx h)"
    using assms(2) by (simp add: handle_keys_def)
  then have "list_all (command_ok ?K) ?cmds" "list_all (command_ok ?K) (drop DRAIN_BATCH (sh_rx h))"
    by (auto simp: list_all_iff dest: in_set_takeD in_set_dropD)
  then have "list_all (event_ok ?K \<circ> snd) (turn_events ck batch ?cmds)"
    by (auto simp: turn_events_def list_all_iff dest: set_takeWhileD)
  moreover have "shard_run env (sh_ctx h) (turn_events ck batch ?cmds) = Some ctx" "rx = drop DRAIN_BATCH (sh_rx h)"
    using turn_run [OF new, of ck batch "sh_rx h"] assms(3)
    by (cases "shard_run env (sh_ctx h) (turn_events ck batch ?cmds)"; simp)+
  ultimately show ?thesis
    using health.run_inv [of env "sh_ctx h"] assms(2) \<open>list_all (command_ok ?K) (drop _ _)\<close>
    by (simp add: handle_keys_def)
qed

lemma handle_keys_exit: "handle_keys env ident X h \<Longrightarrow> handle_keys env ident X (shard_exit env h)"
  by (simp add: handle_keys_def shard_exit_def health.stop_inv)

lemma handle_asks_exit: "handle_asks (shard_exit env h) \<subseteq># handle_asks h"
  by (simp add: handle_asks_def shard_exit_def)

lemma sane_upd:
  assumes "node_sane env ident cfg X nd" "i < length (nd_shards nd)" "handle_keys env ident X h"
    and "handle_asks h \<subseteq># handle_asks (nd_shards nd ! i)"
  shows "(\<forall>q \<in> set ((nd_shards nd)[i := h]). handle_keys env ident X q)
    \<and> (\<Sum>q \<leftarrow> (nd_shards nd)[i := h]. handle_asks q) \<subseteq># mset [0..<nd_next_ch nd]"
proof -
  have "(\<Sum>q \<leftarrow> (nd_shards nd)[i := h]. handle_asks q) \<subseteq># node_asks nd"
    using sum_update_mono [OF assms(2), of handle_asks h "{#}"] assms(4) by (simp add: node_asks_def)
  then show ?thesis
    using assms(1,3) unfolding node_sane_def
    by (auto dest!: subsetD [OF set_update_subset_insert] intro: subset_mset.order_trans)
qed

lemma sane_step:
  assumes "node_sane env ident cfg X nd" "node_step env nd e = Some nd'"
  shows "node_sane env ident cfg X nd'"
proof -
  have reach: "node_reachable env ident cfg nd'"
    using assms by (auto simp: node_sane_def intro: node_reachable.event)
  have keys: "i < length (nd_shards nd) \<Longrightarrow> handle_keys env ident X (nd_shards nd ! i)" for i
    using assms(1) by (simp add: node_sane_def)
  show ?thesis
  proof (cases e)
    case (Turn i c batch)
    show ?thesis
    proof (cases "i < length (nd_shards nd) \<and> sh_alive (nd_shards nd ! i) \<and> nd_running nd")
      case True
      then obtain run rx ctx where t: "shard_turn env c batch (sh_rx (nd_shards nd ! i)) (sh_ctx (nd_shards nd ! i)) = Some (run, rx, ctx)"
        and nd': "nd' = nd\<lparr>nd_shards := (nd_shards nd)[i := (nd_shards nd ! i)\<lparr>sh_rx := rx, sh_ctx := ctx\<rparr>], nd_running := run\<rparr>"
        using assms(2) by (auto simp: Turn split: option.splits)
      have r: "reached env ident cfg (sh_ctx (nd_shards nd ! i))"
        using reachable_ok [of env ident cfg nd] assms(1) True
        by (auto simp: node_sane_def node_ok_def handle_ok_def dest!: bspec [OF _ nth_mem])
      show ?thesis
        using sane_upd [OF assms(1) _ turn_keys [OF r _ t]] keys turn_asks [OF r t] True reach
        by (auto simp: node_sane_def nd' node_asks_def handle_asks_def)
    qed (use assms in \<open>auto simp: Turn split: if_splits\<close>)
  next
    case (Exit i)
    then show ?thesis
      using assms reach sane_upd [OF assms(1) _ handle_keys_exit handle_asks_exit, of i] keys [of i]
      by (auto simp: node_sane_def node_asks_def split: if_splits)
  qed
qed

lemma sane_run: "node_run env nd es = Some nd' \<Longrightarrow> node_sane env ident cfg X nd \<Longrightarrow> node_sane env ident cfg X nd'"
  by (induction es arbitrary: nd) (auto split: bind_splits intro: sane_step)

lemma sane_all:
  assumes "node_sane env ident cfg X nd" "asked_by (EvCommand cmd) = {#}" "command_ok (bound_key (en_crypto env) X) cmd"
  shows "node_sane env ident cfg X (send_all cmd nd)"
proof -
  let ?f = "\<lambda>h. case tx_send cmd h of Some h' \<Rightarrow> h' | None \<Rightarrow> h"
  have "handle_asks (?f h) \<subseteq># handle_asks h" "handle_keys env ident X h \<Longrightarrow> handle_keys env ident X (?f h)" for h
    using assms(2,3) by (auto simp: tx_send_def handle_asks_def handle_keys_def)
  then show ?thesis
    using assms(1) node_reachable.every [of env ident cfg nd cmd] assms(2)
      sum_map_mono [of handle_asks ?f "nd_shards nd"]
    by (auto simp: node_sane_def send_all_def node_asks_def intro: subset_mset.order_trans)
qed

lemma sane_shutdown:
  assumes "node_sane env ident cfg X nd"
  shows "node_sane env ident cfg X (node_shutdown env nd)"
proof -
  let ?g = "\<lambda>h. case tx_send CmdShutdown h of Some h' \<Rightarrow> h' | None \<Rightarrow> h"
  let ?f = "\<lambda>h. handle_join env (?g h)"
  have g: "handle_asks (?g h) = handle_asks h" "handle_keys env ident X h \<Longrightarrow> handle_keys env ident X (?g h)" for h
    by (auto simp: tx_send_def handle_asks_def handle_keys_def)
  have j: "handle_asks (handle_join env h) \<subseteq># handle_asks h"
    "handle_keys env ident X h \<Longrightarrow> handle_keys env ident X (handle_join env h)" for h
    using handle_asks_exit [of env h] handle_keys_exit [of env ident X h]
    by (auto simp: handle_join_def handle_asks_def handle_keys_def)
  have sh: "nd_shards (node_shutdown env nd) = map ?f (nd_shards nd)" "nd_next_ch (node_shutdown env nd) = nd_next_ch nd"
    by (simp_all add: node_shutdown_def send_all_def Let_def)
  have "(\<Sum>h \<leftarrow> map ?f (nd_shards nd). handle_asks h) \<subseteq># node_asks nd"
    unfolding node_asks_def using j(1) [of "?g _"] g(1) by (intro sum_map_mono) simp
  then show ?thesis
    using assms j(2) g(2) node_reachable.shutdown [of env ident cfg nd]
    by (auto simp: node_sane_def sh node_asks_def intro: subset_mset.order_trans)
qed

lemma sane_ask:
  assumes "node_sane env ident cfg X nd" "i < length (nd_shards nd)" "asked_by (EvCommand cmd) = {#nd_next_ch nd#}"
    and "command_ok (bound_key (en_crypto env) X) cmd" "tx_send cmd (nd_shards nd ! i) = Some h"
  shows "node_sane env ident cfg X (nd\<lparr>nd_next_ch := Suc (nd_next_ch nd), nd_shards := (nd_shards nd)[i := h]\<rparr>)"
proof -
  have h: "h = (nd_shards nd ! i)\<lparr>sh_rx := sh_rx (nd_shards nd ! i) @ [cmd]\<rparr>"
    using assms(5) by (auto simp: tx_send_def split: if_splits)
  have "handle_keys env ident X h"
    using assms(1,2,4) by (auto simp: node_sane_def h handle_keys_def dest!: bspec [OF _ nth_mem])
  moreover have "handle_asks h \<subseteq># handle_asks (nd_shards nd ! i) + {#nd_next_ch nd#}"
    using assms(3) by (simp add: handle_asks_def h)
  from sum_update_mono [OF assms(2) this]
  have "(\<Sum>q \<leftarrow> (nd_shards nd)[i := h]. handle_asks q) \<subseteq># node_asks nd + {#nd_next_ch nd#}"
    by (simp add: node_asks_def)
  then have "(\<Sum>q \<leftarrow> (nd_shards nd)[i := h]. handle_asks q) \<subseteq># mset [0..<Suc (nd_next_ch nd)]"
    using assms(1) by (auto simp: node_sane_def elim!: subset_mset.order_trans)
  ultimately show ?thesis
    using assms(1) node_reachable.call [OF _ assms(2,3,5)]
    by (auto simp: node_sane_def node_asks_def dest!: subsetD [OF set_update_subset_insert])
qed

lemma sane_gone: "node_sane env ident cfg X nd \<Longrightarrow> node_sane env ident cfg X (nd\<lparr>nd_next_ch := Suc (nd_next_ch nd)\<rparr>)"
  by (auto simp: node_sane_def node_asks_def intro: node_reachable.gone subset_mset.order_trans)

lemma sane_call:
  assumes "relay_part (pb_relay env)" "tunn_drains (en_tunn env) q" "node_sane env ident cfg X nd"
    and "\<And>ch. asked_by (EvCommand (cmd ch)) = {#ch#}" "\<And>ch. command_ok (bound_key (en_crypto env) X) (cmd ch)"
  shows "\<exists>r nd'. node_call env es (owner env k nd) cmd nd = Some (r, nd') \<and> node_sane env ident cfg X nd'"
proof -
  let ?i = "owner env k nd" and ?n = "nd_next_ch nd"
  have reach: "node_reachable env ident cfg nd"
    using assms(3) by (simp add: node_sane_def)
  show ?thesis
  proof (cases "tx_send (cmd ?n) (nd_shards nd ! ?i)")
    case None
    then show ?thesis
      using sane_gone [OF assms(3)] by (simp add: node_call_def Let_def)
  next
    case (Some h)
    let ?nd = "nd\<lparr>nd_next_ch := Suc ?n, nd_shards := (nd_shards nd)[?i := h]\<rparr>"
    have sane: "node_sane env ident cfg X ?nd"
      using sane_ask [OF assms(3) owner_less [OF reach] assms(4,5) Some] .
    then obtain nd' where nd': "node_run env ?nd es = Some nd'"
      using node_run_defined [OF assms(1,2), of ident cfg ?nd es] by (auto simp: node_sane_def)
    show ?thesis
      using Some nd' sane_run [OF nd' sane] by (simp add: node_call_def Let_def)
  qed
qed

lemma spawn_all_keys:
  "spawn_all env ident cfg os ids = Some hs \<Longrightarrow>
     (\<forall>h \<in> set hs. handle_keys env ident X h) \<and> (\<Sum>h \<leftarrow> hs. handle_asks h) = {#}"
proof (induction ids arbitrary: hs)
  case (Cons i ids)
  then obtain h hs' where h: "spawn_shard env i ident cfg (os i) = Some h" "spawn_all env ident cfg os ids = Some hs'" "hs = h # hs'"
    by (auto split: option.splits)
  from h(1) obtain bufs ctx addr where new: "shard_new env i ident cfg addr (so_disk (os i)) (so_clocks (os i)) = (bufs, ctx)"
    and ctx: "sh_ctx h = ctx" "sh_rx h = []"
    by (auto simp: spawn_shard_def Let_def split: option.splits prod.splits)
  moreover have "sx_replies ctx = [] \<and> sx_lookups ctx = Map.empty"
    using new by (auto simp: shard_new_def split_beta Let_def)
  ultimately have "handle_keys env ident X h \<and> handle_asks h = {#}"
    using shard_new_healthy [OF new] by (simp add: handle_keys_def handle_asks_def ledger_def waiting_def)
  then show ?case
    using Cons.IH [OF h(2)] h(3) by simp
qed simp

lemma sane_start:
  assumes "node_start env ident cfg os = Some nd"
  shows "node_sane env ident cfg X nd"
proof -
  let ?ids = "map of_nat [0..<unat (max (cf_shard_count cfg) 1)]"
  from assms obtain hs where hs: "spawn_all env ident cfg os ?ids = Some hs"
    by (auto simp: node_start_def split: option.splits)
  let ?nd = "\<lparr>nd_identity = ident, nd_cfg = cfg, nd_shards = hs, nd_running = True, nd_next_ch = 0\<rparr>"
  have nd: "nd = (if cf_bootstrap cfg \<noteq> [] then send_all (CmdBootstrap (cf_bootstrap cfg)) ?nd else ?nd)"
    using assms hs by (auto simp: node_start_def node_bootstrap_def Let_def split: if_splits)
  let ?g = "\<lambda>h. case tx_send (CmdBootstrap (cf_bootstrap cfg)) h of Some h' \<Rightarrow> h' | None \<Rightarrow> h"
  have "handle_asks (?g h) \<subseteq># handle_asks h" "handle_keys env ident X h \<Longrightarrow> handle_keys env ident X (?g h)" for h
    by (auto simp: tx_send_def handle_asks_def handle_keys_def)
  then show ?thesis
    using node_reachable.start [OF assms] spawn_all_keys [OF hs, of X] sum_map_mono [of handle_asks ?g hs]
    by (auto simp: node_sane_def nd send_all_def node_asks_def)
qed

text \<open>The keys of the peers that the clients inject.\<close>

definition injected_keys :: "client_op list \<Rightarrow> bytes set" where
  "injected_keys as = {x. \<exists>info. Inject info \<in> set as \<and> x25519 info = Some x}"

lemma sane_op:
  assumes "relay_part (pb_relay env)" "tunn_drains (en_tunn env) q" "node_sane env ident cfg X nd" "injected_keys [a] \<subseteq> X"
  shows "\<exists>nd'. node_op env nd a = Some nd' \<and> node_sane env ident cfg X nd'"
proof (cases a)
  case (Threads es)
  then show ?thesis
    using node_run_defined [OF assms(1,2), of ident cfg nd es] assms(3) sane_run by (fastforce simp: node_sane_def)
next
  case (Call es c)
  then show ?thesis
    using sane_call [OF assms(1-3) api_cmd_asks, of es] by (fastforce simp: api_return_call)
next
  case (Ask c)
  then show ?thesis
    using sane_call [OF assms(1-3) api_cmd_asks, where es = "[]" and k = "fst (api_cmd env nd c)"]
    by (fastforce simp: split_beta)
next
  case (Inject info)
  then have "command_ok (bound_key (en_crypto env) X) (CmdInjectPeer info)"
    using assms(4) by (auto simp: injected_keys_def bound_key_def)
  then show ?thesis
    using sane_all [OF assms(3)] Inject by (simp add: inject_peer_def)
next
  case (Bootstrap seeds)
  then show ?thesis
    using sane_all [OF assms(3)] by (simp add: node_bootstrap_def)
next
  case Shutdown
  then show ?thesis
    using sane_shutdown [OF assms(3)] by simp
qed

lemma sane_ops:
  assumes "relay_part (pb_relay env)" "tunn_drains (en_tunn env) q" "node_sane env ident cfg X nd" "injected_keys as \<subseteq> X"
  shows "\<exists>nd'. node_ops env nd as = Some nd' \<and> node_sane env ident cfg X nd'"
  using assms(3,4)
proof (induction "as" arbitrary: nd)
  case (Cons a "as")
  then obtain nd1 where "node_op env nd a = Some nd1" "node_sane env ident cfg X nd1"
    using sane_op [OF assms(1,2) Cons.prems(1), of a] by (auto simp: injected_keys_def)
  moreover have "injected_keys as \<subseteq> X"
    using Cons.prems(2) by (auto simp: injected_keys_def)
  ultimately show ?case
    using Cons.IH [of nd1] by simp
qed simp

text \<open>
  C4. A node stays sound under every sequence of calls of its interface, also overlapping ones, with
  the threads of its shards taking turns on arbitrary datagrams in any order between and during the
  calls, and across a shutdown: every call returns, the node keeps the number of shards it was started
  with, every key belongs to one of them, each shard is healthy as above with the keys that the calls
  inject, and the channel of a call is at most once among the answers given, the lookups that wait and
  the commands queued in all shards. The protobuf library is assumed to decode a relayed frame to a
  shorter one, and a tunnel to run out of packets.
\<close>

theorem node_sound:
  assumes "relay_part (pb_relay env)" and "tunn_drains (en_tunn env) q" and "node_start env ident cfg os = Some nd0"
  shows "\<exists>nd. node_ops env nd0 as = Some nd
    \<and> length (nd_shards nd) = unat (max (cf_shard_count cfg) 1) \<and> owner env k nd < length (nd_shards nd)
    \<and> (\<forall>h \<in> set (nd_shards nd).
         healthy env (bound_key (en_crypto env) (injected_keys as)) (identity_node_id (en_crypto env) ident) (sh_ctx h))
    \<and> (\<forall>ch. count (\<Sum>h \<leftarrow> nd_shards nd. ledger (sh_ctx h) + queue_asks (sh_rx h)) ch \<le> 1)"
proof -
  obtain nd where nd: "node_ops env nd0 as = Some nd" "node_sane env ident cfg (injected_keys as) nd"
    using sane_ops [OF assms(1,2) sane_start [OF assms(3)] subset_refl] by blast
  have reach: "node_reachable env ident cfg nd" and asks: "node_asks nd \<subseteq># mset [0..<nd_next_ch nd]"
    using nd(2) by (simp_all add: node_sane_def)
  have "count (node_asks nd) ch \<le> 1" for ch
    using mset_subset_eq_count [OF asks, of ch] by (simp add: count_mset_set' split: if_splits)
  then show ?thesis
    using nd reachable_ok [OF reach] owner_less [OF reach]
    by (auto simp: node_sane_def node_ok_def handle_keys_def node_asks_def handle_asks_def)
qed

section \<open>An example\<close>

definition demo_os :: "u32 \<Rightarrow> spawn_os" where
  "demo_os i = \<lparr>so_bound = Some (AddrV4 127 0 0 1 4000), so_disk = empty_disk,
     so_clocks = \<lparr>ck_now = 0, ck_unix = 0, ck_unix_ms = 0\<rparr>\<rparr>"

definition demo_handle :: "unit shard_handle" where
  "demo_handle = \<lparr>sh_id = 0, sh_local = AddrV4 127 0 0 1 4000, sh_rx = [],
     sh_bufs = fst (shard_new demo_env 0 demo_identity node_config_default (AddrV4 127 0 0 1 4000) empty_disk
       \<lparr>ck_now = 0, ck_unix = 0, ck_unix_ms = 0\<rparr>),
     sh_ctx = demo_shard, sh_alive = True, sh_join = True\<rparr>"

definition demo_node :: "unit node" where
  "demo_node = \<lparr>nd_identity = demo_identity, nd_cfg = node_config_default, nd_shards = [demo_handle],
     nd_running = True, nd_next_ch = 0\<rparr>"

lemma demo_node_start: "node_start demo_env demo_identity node_config_default demo_os = Some demo_node"
proof -
  have c: "max (cf_shard_count node_config_default) 1 = 1" "cf_bootstrap node_config_default = []"
    by (simp_all add: node_config_default_def)
  have "spawn_shard demo_env 0 demo_identity node_config_default (demo_os 0) = Some demo_handle"
    by (simp add: spawn_shard_def demo_os_def demo_handle_def demo_shard_def split_beta Let_def)
  then show ?thesis
    by (simp add: node_start_def c demo_node_def)
qed

lemma demo_node_reachable: "node_reachable demo_env demo_identity node_config_default demo_node"
  using demo_node_start by (rule node_reachable.start)

theorem node_sound_witness:
  "\<exists>nd. node_ops demo_env demo_node
        [Inject demo_peer, Ask (ApiPut [4] 60), Call [Turn 0 (demo_ck 10) [(AddrV4 1 2 3 4 5, [1, 2, 3])]] (ApiPut [1, 2, 3] 60), Shutdown]
        = Some nd
     \<and> length (nd_shards nd) = 1
     \<and> (\<forall>h \<in> set (nd_shards nd). healthy demo_env (bound_key demo_crypto {replicate 32 1})
          (identity_node_id demo_crypto demo_identity) (sh_ctx h))"
proof -
  let ?as = "[Inject demo_peer, Ask (ApiPut [4] 60),
    Call [Turn 0 (demo_ck 10) [(AddrV4 1 2 3 4 5, [1, 2, 3])]] (ApiPut [1, 2, 3] 60), Shutdown]"
  have keys: "injected_keys ?as = {replicate 32 1}"
    by (auto simp: injected_keys_def demo_peer_def peer_info_new_def)
  have "max (cf_shard_count node_config_default) 1 = 1"
    by (simp add: node_config_default_def)
  with node_sound [of demo_env "\<lambda>_. 0" demo_identity node_config_default demo_os demo_node ?as]
    demo_relay_part demo_tunn_drains demo_node_start keys show ?thesis
    by (simp del: node_ops.simps) blast
qed

end
