(* ===== verification/Node_Calls.thy ===== *)
theory Node_Calls
  imports Node_Inv
begin

text \<open>
  What the calls of a client return. Timers keep the records that are live, shards do not touch one
  another's state, and so a value that was put is found again by the next call.
\<close>

section \<open>Timers and the store\<close>

text \<open>What is stored, and the time: no timer changes it but those that flush it and collect garbage.\<close>

definition shelf :: "'t shard_ctx \<Rightarrow> store \<times> peerstore \<times> disk \<times> u64" where
  "shelf ctx = (sx_store ctx, sx_peers ctx, sx_disk ctx, sx_unix ctx)"

lemma shelf_fields [simp]:
  "shelf (ctx\<lparr>sx_pool := pool\<rparr>) = shelf ctx" "shelf (ctx\<lparr>sx_wg := wg\<rparr>) = shelf ctx"
  "shelf (ctx\<lparr>sx_lookups := ls\<rparr>) = shelf ctx" "shelf (ctx\<lparr>sx_punches := ps\<rparr>) = shelf ctx"
  "shelf (ctx\<lparr>sx_via_relay := vs\<rparr>) = shelf ctx" "shelf (ctx\<lparr>sx_timers := ts\<rparr>) = shelf ctx"
  "shelf (bump f ctx) = shelf ctx" "shelf (recycle b ctx) = shelf ctx" "shelf (schedule_at t tk ctx) = shelf ctx"
  "shelf (send_reply ch r ctx) = shelf ctx" "shelf (finish_lookup kind l reply ctx) = shelf ctx"
  by (simp_all add: shelf_def bump_def recycle_def schedule_at_def send_reply_def finish_lookup_def split: option.split)

lemma settled_shelf:
  assumes "settled w a = settled w b"
  shows "shelf a = shelf b"
  using settled_fields(6,7,8,19) [OF assms] by (simp add: shelf_def)

lemma shelf_ping [simp]: "shelf (ping env dest ctx) = shelf ctx"
  by (rule settled_shelf [OF sent.ping_inv [OF refl]])

lemma shelf_dispatch [simp]: "shelf (snd (dispatch_lookup_batch env l ctx)) = shelf ctx"
  by (rule settled_shelf [OF sent.dispatch_batch_inv [OF refl]])

lemma shelf_io_send [simp]: "shelf (snd (io_send env bs dest ctx)) = shelf ctx"
  by (simp add: io_send_def shelf_def)

lemma shelf_penalize [simp]: "shelf (penalize_peer ctx i) = shelf ctx"
  by (simp add: penalize_peer_def shelf_def)

lemma shelf_foldl [simp]: "(\<And>c x. shelf (f c x) = shelf c) \<Longrightarrow> shelf (foldl f ctx xs) = shelf ctx"
  by (rule foldl_keeps [where P = "\<lambda>c. shelf c = shelf ctx"]) simp_all

lemma shelf_sweep [simp]: "shelf (sweep_lookups env ctx) = shelf ctx"
proof -
  have "shelf (sweep_one env c i) = shelf c" for c i
    by (simp add: sweep_one_def split_beta Let_def split: option.split)
  then show ?thesis
    by (simp add: sweep_lookups_def)
qed

lemma shelf_burst [simp]: "shelf (burst_punch env i ctx) = shelf ctx"
  by (simp add: burst_punch_def Let_def split: option.split)

lemma shelf_punch_timer [simp]: "shelf (on_punch_timer env ctx) = shelf ctx"
proof -
  have "shelf (snd (punch_timer_one env s i)) = shelf (snd s)" for s i
    by (simp add: punch_timer_one_def split_beta Let_def split: option.split)
  then have "shelf (snd (foldl (punch_timer_one env) (False, ctx) ids)) = shelf ctx" for ids
    by (intro foldl_keeps [where P = "\<lambda>s. shelf (snd s) = shelf ctx"]) simp_all
  then show ?thesis
    by (simp add: on_punch_timer_def split_beta Let_def)
qed

lemma shelf_keepalive [simp]: "shelf (timer_keepalive env ctx) = shelf ctx"
  by (simp add: timer_keepalive_def wg_keepalive_def split_beta Let_def)

lemma shelf_tick [simp]: "shelf (timer_lookup_tick env ctx) = shelf ctx"
  by (simp add: timer_lookup_tick_def split_beta Let_def)

lemma shelf_timer: "kind \<noteq> Gc \<Longrightarrow> kind \<noteq> PeerstoreFlush \<Longrightarrow> shelf (on_timer env kind ctx) = shelf ctx"
  by (cases kind) simp_all

text \<open>A live record survives the timers.\<close>

definition keeps_record :: "key \<Rightarrow> stored_record \<Rightarrow> u64 \<Rightarrow> 't shard_ctx \<Rightarrow> bool" where
  "keeps_record k r u ctx = (st_records (sx_store ctx) k = Some r \<and> sx_unix ctx = u)"

lemma keeps_shelf: "shelf a = shelf b \<Longrightarrow> keeps_record k r u a = keeps_record k r u b"
  by (simp add: keeps_record_def shelf_def)

lemma timer_keeps:
  assumes "\<not> expired r u" "keeps_record k r u ctx"
  shows "keeps_record k r u (on_timer env kind ctx)"
proof (cases "kind = Gc \<or> kind = PeerstoreFlush")
  case True
  then show ?thesis
    using assms by (auto simp: keeps_record_def schedule_at_def store_gc_def retain_live_def flush_stores_def
        flush_wal_def split_beta Let_def)
next
  case False
  then show ?thesis
    using assms(2) keeps_shelf [OF shelf_timer] by blast
qed

lemma timers_keep:
  assumes "\<not> expired r u" "keeps_record k r u ctx"
  shows "keeps_record k r u (run_timers env ctx)"
proof -
  let ?p = "pop_due (sx_now ctx) (sx_timers ctx)"
  have "keeps_record k r u (foldl (\<lambda>c kind. on_timer env kind c) (ctx\<lparr>sx_timers := snd ?p\<rparr>) (fst ?p))"
    using assms by (intro foldl_keeps [where P = "keeps_record k r u"] timer_keeps) (simp_all add: keeps_record_def)
  then show ?thesis
    by (simp add: run_timers_def split_beta Let_def)
qed


text \<open>
  The log of a shard with everything that is queued for it: the timers only move the queues to the
  file.
\<close>

definition journal :: "'t shard_env \<Rightarrow> 't shard_ctx \<Rightarrow> bytes" where
  "journal env ctx = (case wal_log (sx_disk ctx) of None \<Rightarrow> [] | Some w \<Rightarrow> w)
     @ wal_bytes (en_crc env) (ps_pending (sx_peers ctx) @ map (Pair TYPE_RECORD) (st_pending_wal (sx_store ctx)))"

definition journals :: "'t shard_env \<Rightarrow> bytes \<Rightarrow> 't shard_ctx \<Rightarrow> bool" where
  "journals env j ctx = (ps_wal (sx_peers ctx) \<and> st_dir (sx_store ctx) \<noteq> None \<and> journal env ctx = j)"

lemma journals_shelf: "shelf a = shelf b \<Longrightarrow> journals env j a = journals env j b"
  by (simp add: journals_def journal_def shelf_def)

lemma flush_journals:
  assumes "journals env j ctx"
  shows "journals env j (flush_stores env ctx)" and "wal_log (sx_disk (flush_stores env ctx)) = Some j"
proof -
  have w: "ps_wal (snd (flush_wal (sx_store ctx) (sx_peers ctx)))"
    using assms by (simp add: journals_def flush_wal_pending)
  then show "wal_log (sx_disk (flush_stores env ctx)) = Some j"
    using assms by (auto simp: journals_def journal_def flush_stores_def ps_flush_def flush_wal_pending split_beta Let_def)
  with w assms show "journals env j (flush_stores env ctx)"
    by (auto simp: journals_def journal_def flush_stores_def ps_flush_def flush_wal_pending split_beta Let_def)
      (simp_all add: flush_wal_def)
qed

lemma timer_journals:
  assumes "journals env j ctx"
  shows "journals env j (on_timer env kind ctx)"
proof (cases "kind = Gc \<or> kind = PeerstoreFlush")
  case True
  then show ?thesis
    using assms flush_journals(1) [OF assms] by (auto simp: journals_def journal_def schedule_at_def store_gc_def)
next
  case False
  then show ?thesis
    using assms journals_shelf [OF shelf_timer] by blast
qed

lemma timers_journal:
  assumes "journals env j ctx"
  shows "journals env j (run_timers env ctx)"
proof -
  let ?p = "pop_due (sx_now ctx) (sx_timers ctx)"
  have "journals env j (foldl (\<lambda>c kind. on_timer env kind c) (ctx\<lparr>sx_timers := snd ?p\<rparr>) (fst ?p))"
    using assms by (intro foldl_keeps [where P = "journals env j"] timer_journals) (simp_all add: journals_def journal_def)
  then show ?thesis
    by (simp add: run_timers_def split_beta Let_def)
qed

lemma stop_journals:
  assumes "journals env j ctx"
  shows "wal_log (sx_disk (shard_stop env bufs ctx)) = Some j"
proof -
  have "shelf (foldl (\<lambda>c b. recycle b c) ctx bufs) = shelf ctx"
    by simp
  then have "journals env j (foldl (\<lambda>c b. recycle b c) ctx bufs)"
    using assms journals_shelf by blast
  then show ?thesis
    by (simp add: shard_stop_def flush_journals(2))
qed

section \<open>Replies\<close>

text \<open>What was answered stays answered.\<close>

interpretation said: ctx_steps env "\<lambda>_. True" "\<lambda>_. True"
    "\<lambda>ctx. lookups_fine (sx_lookups ctx) \<and> (\<exists>more. sx_replies ctx = R @ more)" "\<lambda>_. True" for env R
  by unfold_locales (auto simp: pending_push_def flush_stores_def set_clocks_def split_beta Let_def list_all_iff)

lemma timers_said:
  assumes "lookups_fine (sx_lookups ctx)"
  shows "\<exists>more. sx_replies (run_timers env ctx) = sx_replies ctx @ more"
  using said.run_timers_inv [of ctx "sx_replies ctx"] assms by blast

lemma reached_fine: "reached env ident cfg ctx \<Longrightarrow> lookups_fine (sx_lookups ctx)"
  using reached_healthy by (auto simp: healthy_def)

lemma fine_cmd:
  assumes "lookups_fine (sx_lookups ctx)"
  shows "lookups_fine (sx_lookups (handle_cmd env cmd ctx))"
proof -
  have "command_ok (\<lambda>_. True) cmd"
    by (cases "(\<lambda>_::bytes. True, cmd)" rule: command_ok.cases) auto
  then show ?thesis
    using steady.handle_cmd_inv [of ctx "sx_now ctx" cmd env] assms by simp
qed

section \<open>Other shards\<close>

fun ev_shard :: "node_event \<Rightarrow> nat" where
  "ev_shard (Turn i c batch) = i"
| "ev_shard (Exit i) = i"

definition no_stop :: "'t node \<Rightarrow> bool" where
  "no_stop nd = (nd_running nd \<and> (\<forall>h \<in> set (nd_shards nd). CmdShutdown \<notin> set (sh_rx h)))"

lemma node_step_frame:
  assumes "node_reachable env ident cfg nd" "no_stop nd" "node_step env nd e = Some nd'"
  shows "no_stop nd'" and "length (nd_shards nd') = length (nd_shards nd)" and "nd_identity nd' = nd_identity nd"
    and "i \<noteq> ev_shard e \<Longrightarrow> nd_shards nd' ! i = nd_shards nd ! i"
proof -
  have "no_stop nd' \<and> length (nd_shards nd') = length (nd_shards nd) \<and> nd_identity nd' = nd_identity nd
    \<and> (i \<noteq> ev_shard e \<longrightarrow> nd_shards nd' ! i = nd_shards nd ! i)"
  proof (cases "\<exists>j c batch. e = Turn j c batch \<and> j < length (nd_shards nd) \<and> sh_alive (nd_shards nd ! j)")
    case False
    then show ?thesis
      using assms(2,3) by (cases e) (auto simp: no_stop_def)
  next
    case True
    then obtain j c batch where e: "e = Turn j c batch" and j: "j < length (nd_shards nd)" "sh_alive (nd_shards nd ! j)"
      by blast
    let ?h = "nd_shards nd ! j"
    obtain run rx ctx where t: "shard_turn env c batch (sh_rx ?h) (sh_ctx ?h) = Some (run, rx, ctx)"
      and nd': "nd' = nd\<lparr>nd_shards := (nd_shards nd)[j := ?h\<lparr>sh_rx := rx, sh_ctx := ctx\<rparr>], nd_running := run\<rparr>"
      using assms(2,3) j by (auto simp: e no_stop_def split: option.splits)
    have r: "reached env ident cfg (sh_ctx ?h)"
      using reachable_ok [OF assms(1)] j by (auto simp: node_ok_def handle_ok_def dest!: bspec [OF _ nth_mem])
    have "CmdShutdown \<notin> set (sh_rx ?h)"
      using assms(2) j(1) by (simp add: no_stop_def)
    then have "run" "CmdShutdown \<notin> set rx"
      using turn_reached(2,3) [OF r t] by (auto dest: in_set_takeD in_set_dropD)
    then show ?thesis
      using assms(2) by (auto simp: nd' no_stop_def e dest!: subsetD [OF set_update_subset_insert])
  qed
  then show "no_stop nd'" "length (nd_shards nd') = length (nd_shards nd)" "nd_identity nd' = nd_identity nd"
    "i \<noteq> ev_shard e \<Longrightarrow> nd_shards nd' ! i = nd_shards nd ! i"
    by blast+
qed

lemma node_run_frame:
  assumes "node_reachable env ident cfg nd" "no_stop nd" "node_run env nd es = Some nd'" "\<forall>e \<in> set es. ev_shard e \<noteq> i"
  shows "no_stop nd' \<and> length (nd_shards nd') = length (nd_shards nd) \<and> nd_identity nd' = nd_identity nd
    \<and> nd_shards nd' ! i = nd_shards nd ! i"
  using assms
proof (induction es arbitrary: nd)
  case (Cons e es)
  then obtain nd1 where nd1: "node_step env nd e = Some nd1" "node_run env nd1 es = Some nd'"
    by (auto split: bind_splits)
  have "node_reachable env ident cfg nd1"
    using Cons.prems(1) nd1(1) by (rule node_reachable.event)
  with Cons.IH [of nd1] node_step_frame(1-3) [OF Cons.prems(1,2) nd1(1)]
    node_step_frame(4) [OF Cons.prems(1,2) nd1(1), of i] nd1(2) Cons.prems(4) show ?case
    by simp
qed simp

lemma node_run_append: "node_run env nd (es @ fs) = Option.bind (node_run env nd es) (\<lambda>n. node_run env n fs)"
  by (induction es arbitrary: nd) (auto split: bind_splits)


section \<open>Commands that are answered at once\<close>

text \<open>
  A schedule in which the shard \<open>i\<close> has one turn, at the time \<open>c\<close> and without datagrams, while the
  other shards do anything.
\<close>

definition one_turn :: "nat \<Rightarrow> clocks \<Rightarrow> node_event list \<Rightarrow> bool" where
  "one_turn i c es = (\<exists>pre post. es = pre @ Turn i c [] # post \<and> (\<forall>e \<in> set (pre @ post). ev_shard e \<noteq> i))"

text \<open>The shard is idle: alive, with nothing in its queue, and no shutdown is under way.\<close>

definition idle :: "nat \<Rightarrow> 't node \<Rightarrow> bool" where
  "idle i nd = (i < length (nd_shards nd) \<and> no_stop nd \<and> sh_alive (nd_shards nd ! i) \<and> sh_rx (nd_shards nd ! i) = [])"

lemma turn_one:
  "cmd \<noteq> CmdShutdown \<Longrightarrow> shard_turn env c [] [cmd] ctx = Some (True, [], run_timers env (handle_cmd env cmd (set_clocks c ctx)))"
  by (simp add: shard_turn_def drain_cmds_eq DRAIN_BATCH_def)

lemma run_one_turn:
  assumes env: "relay_part (pb_relay env)" "tunn_drains (en_tunn env) q"
    and nd: "node_reachable env ident cfg nd" "no_stop nd" and i: "i < length (nd_shards nd)" "nd_shards nd ! i = h"
    and h: "sh_alive h" "sh_rx h = [cmd]" "cmd \<noteq> CmdShutdown" and es: "one_turn i c es"
  shows "\<exists>nd'. node_run env nd es = Some nd' \<and> node_reachable env ident cfg nd' \<and> idle i nd'
    \<and> length (nd_shards nd') = length (nd_shards nd) \<and> nd_identity nd' = nd_identity nd
    \<and> sh_join (nd_shards nd' ! i) = sh_join h
    \<and> sh_ctx (nd_shards nd' ! i) = run_timers env (handle_cmd env cmd (set_clocks c (sh_ctx h)))"
proof -
  let ?ctx = "run_timers env (handle_cmd env cmd (set_clocks c (sh_ctx h)))"
  obtain pre post where es: "es = pre @ Turn i c [] # post" "\<forall>e \<in> set pre. ev_shard e \<noteq> i" "\<forall>e \<in> set post. ev_shard e \<noteq> i"
    using es by (auto simp: one_turn_def)
  obtain nd2 where nd2: "node_run env nd pre = Some nd2"
    using node_run_defined [OF env nd(1), of pre] by blast
  note f2 = node_run_frame [OF nd nd2 es(2)]
  have h2: "nd_shards nd2 ! i = h" "i < length (nd_shards nd2)" "nd_running nd2"
    using f2 i by (simp_all add: no_stop_def)
  let ?nd3 = "nd2\<lparr>nd_shards := (nd_shards nd2)[i := h\<lparr>sh_rx := [], sh_ctx := ?ctx\<rparr>], nd_running := True\<rparr>"
  have step: "node_step env nd2 (Turn i c []) = Some ?nd3"
    using h2 h turn_one [OF h(3), of env c "sh_ctx h"] by simp
  have r2: "node_reachable env ident cfg nd2" and r3: "node_reachable env ident cfg ?nd3"
    using run_reachable [OF nd2 nd(1)] node_reachable.event [OF _ step] by blast+
  obtain nd4 where nd4: "node_run env ?nd3 post = Some nd4"
    using node_run_defined [OF env r3, of post] by blast
  have n3: "no_stop ?nd3"
    using node_step_frame(1) [OF r2 _ step] f2 by blast
  note f4 = node_run_frame [OF r3 n3 nd4 es(3)]
  have "nd_shards nd4 ! i = h\<lparr>sh_rx := [], sh_ctx := ?ctx\<rparr>"
    using f4 h2(2) by simp
  moreover have "node_run env nd es = Some nd4"
    using nd2 step nd4 by (simp add: es(1) node_run_append)
  ultimately show ?thesis
    using run_reachable [OF nd4 r3] f4 f2 h(1) i(1) by (auto simp: idle_def)
qed

lemma call_at_once:
  assumes env: "relay_part (pb_relay env)" "tunn_drains (en_tunn env) q"
    and nd: "node_reachable env ident cfg nd" "idle i nd" and es: "one_turn i c es"
    and cmd: "\<And>ch. asked_by (EvCommand (cmd ch)) = {#ch#}"
    and reply: "\<And>ch ctx. ctx = set_clocks c (sh_ctx (nd_shards nd ! i)) \<Longrightarrow>
      sx_replies (handle_cmd env (cmd ch) ctx) = sx_replies ctx @ [(ch, r)]"
  shows "\<exists>nd'. node_call env es i cmd nd = Some (Inr r, nd') \<and> node_reachable env ident cfg nd' \<and> idle i nd'
    \<and> length (nd_shards nd') = length (nd_shards nd) \<and> nd_identity nd' = nd_identity nd
    \<and> sh_join (nd_shards nd' ! i) = sh_join (nd_shards nd ! i)
    \<and> sh_ctx (nd_shards nd' ! i)
      = run_timers env (handle_cmd env (cmd (nd_next_ch nd)) (set_clocks c (sh_ctx (nd_shards nd ! i))))"
proof -
  let ?ch = "nd_next_ch nd" and ?h = "nd_shards nd ! i"
  let ?h1 = "?h\<lparr>sh_rx := [cmd ?ch]\<rparr>" and ?c = "set_clocks c (sh_ctx (nd_shards nd ! i))"
  let ?nd1 = "nd\<lparr>nd_next_ch := Suc ?ch, nd_shards := (nd_shards nd)[i := ?h1]\<rparr>"
  let ?ctx = "run_timers env (handle_cmd env (cmd ?ch) ?c)"
  have i: "i < length (nd_shards nd)" "sh_alive ?h" "sh_rx ?h = []" "no_stop nd"
    using nd(2) by (simp_all add: idle_def)
  have tx: "tx_send (cmd ?ch) ?h = Some ?h1"
    using i by (simp add: tx_send_def)
  have stop: "cmd ?ch \<noteq> CmdShutdown"
    using cmd [of ?ch] by auto
  have "node_reachable env ident cfg ?nd1"
    using nd(1) i(1) cmd tx by (intro node_reachable.call)
  moreover have "no_stop ?nd1"
    using i(4) stop stop [symmetric] by (auto simp: no_stop_def dest!: subsetD [OF set_update_subset_insert])
  ultimately obtain nd' where run: "node_run env ?nd1 es = Some nd'" and nd': "node_reachable env ident cfg nd'" "idle i nd'"
      "length (nd_shards nd') = length (nd_shards nd)" "nd_identity nd' = nd_identity nd" "sh_ctx (nd_shards nd' ! i) = ?ctx"
      "sh_join (nd_shards nd' ! i) = sh_join ?h"
    using run_one_turn [OF env, of ident cfg ?nd1 i ?h1 "cmd ?ch" c es] i stop es by auto
  have "reached env ident cfg (sh_ctx ?h)" and ledger: "set_mset (ledger (sh_ctx ?h)) \<subseteq> {..<?ch}"
    using reachable_ok [OF nd(1)] i by (auto simp: node_ok_def handle_ok_def dest!: bspec [OF _ nth_mem])
  then have "lookups_fine (sx_lookups (handle_cmd env (cmd ?ch) ?c))"
    using reached_fine by (intro fine_cmd) (simp add: set_clocks_def)
  then obtain more where "sx_replies ?ctx = sx_replies (sh_ctx ?h) @ (?ch, r) # more"
    using timers_said [of "handle_cmd env (cmd ?ch) ?c" env] reply [OF refl, of ?ch] by (auto simp: set_clocks_def)
  moreover have "map_of (sx_replies (sh_ctx ?h)) ?ch = None"
    using ledger by (auto simp: ledger_def map_of_eq_None_iff)
  ultimately have "map_of (sx_replies (sh_ctx (nd_shards nd' ! i))) ?ch = Some r"
    by (simp add: nd'(5) map_add_def)
  then have "node_call env es i cmd nd = Some (Inr r, nd')"
    using tx run by (simp add: node_call_def)
  then show ?thesis
    using nd' by blast
qed


section \<open>Reading what was written\<close>

lemma owner_same:
  "length (nd_shards nd') = length (nd_shards nd) \<Longrightarrow> nd_identity nd' = nd_identity nd \<Longrightarrow> owner env k nd' = owner env k nd"
  by (simp add: owner_def node_node_id_def)

lemma get_at_once:
  "store_get (sx_unix ctx) (sx_store ctx) k = Some r \<Longrightarrow>
   sx_replies (handle_cmd env (CmdGet k ch) ctx) = sx_replies ctx @ [(ch, ReplyRecord (Some r))]"
  by (simp add: cmd_get_def Let_def bump_def send_reply_def)

text \<open>The record a shard keeps is what it answers while it lives.\<close>

lemma kept_get:
  assumes "keeps_record k r u ctx" "\<not> expired r (ck_unix c)" "sr_kind r \<noteq> KIND_TOMBSTONE"
  shows "store_get (sx_unix (set_clocks c ctx)) (sx_store (set_clocks c ctx)) k = Some r"
  using assms by (simp add: keeps_record_def set_clocks_def store_get_def)

lemma call_reads:
  assumes "relay_part (pb_relay env)" "tunn_drains (en_tunn env) q" "node_reachable env ident cfg nd"
    and "idle (owner env k nd) nd" "one_turn (owner env k nd) c es"
    and "keeps_record k r u (sh_ctx (nd_shards nd ! owner env k nd))" "\<not> expired r (ck_unix c)" "sr_kind r \<noteq> KIND_TOMBSTONE"
  shows "\<exists>nd'. node_call env es (owner env k nd) (CmdGet k) nd = Some (Inr (ReplyRecord (Some r)), nd')"
proof -
  have "sx_replies (handle_cmd env (CmdGet k ch) ctx) = sx_replies ctx @ [(ch, ReplyRecord (Some r))]"
    if "ctx = set_clocks c (sh_ctx (nd_shards nd ! owner env k nd))" for ch ctx
    using get_at_once [OF kept_get [OF assms(6-8)]] that by blast
  from call_at_once [OF assms(1-5) _ this] show ?thesis
    by auto
qed

lemma put_at_once:
  assumes "length v \<le> PMTU_FLOOR * 64"
  shows "sx_replies (handle_cmd env (CmdPut v ttl ch) ctx) = sx_replies ctx @ [(ch, ReplyKey (hash_value (en_crypto env) v))]"
    and "keeps_record (hash_value (en_crypto env) v) (immutable_record (en_crypto env) (sx_unix ctx) v ttl) (sx_unix ctx)
      (handle_cmd env (CmdPut v ttl ch) ctx)"
proof -
  let ?r = "immutable_record (en_crypto env) (sx_unix ctx) v ttl"
  let ?c1 = "bump (\<lambda>m. m\<lparr>m_store_ok := metric_incr (m_store_ok m)\<rparr>) (ctx\<lparr>sx_store := insert_record (pb_record env) ?r (sx_store ctx)\<rparr>)"
  have "settled (sx_wg ctx) (send_store_rpc env ?r ?c1) = settled (sx_wg ctx) ?c1"
    using sent.send_store_rpc_inv [OF refl] .
  note f = settled_fields(17) [OF this] settled_shelf [OF this]
  show "sx_replies (handle_cmd env (CmdPut v ttl ch) ctx) = sx_replies ctx @ [(ch, ReplyKey (hash_value (en_crypto env) v))]"
    using f(1) cmd_put_small [OF assms, of env ttl ch ctx] by (simp add: send_reply_def bump_def)
  show "keeps_record (hash_value (en_crypto env) v) ?r (sx_unix ctx) (handle_cmd env (CmdPut v ttl ch) ctx)"
    using f(2) cmd_put_small [OF assms, of env ttl ch ctx]
    by (simp add: keeps_record_def shelf_def bump_def send_reply_def immutable_record_def)
qed

lemma fresh_not_expired: "\<not> expired (immutable_record c u v ttl) u"
  by (simp add: expired_def immutable_record_def sat_sub_def)

text \<open>
  C12. A client reads what it wrote. On a running node with any number of shards, a put of at most
  76800 bytes returns the key of the value, and the next call, a get of that key, then returns the
  value, if no more than its lifetime has passed in between. The shard that owns the key is alive and
  has no command queued when the put is called, and in each of the two calls it does exactly one turn,
  in which no datagram has arrived; what the other shards do, their datagrams and timers, has no
  influence.
\<close>

theorem node_put_get:
  assumes "relay_part (pb_relay env)" and "tunn_drains (en_tunn env) q" and "node_reachable env ident cfg nd"
    and "length v \<le> 76800" and "k = hash_value (en_crypto env) v" and "idle (owner env k nd) nd"
    and "one_turn (owner env k nd) c1 es1" and "one_turn (owner env k nd) c2 es2"
    and "ck_unix c1 \<le> ck_unix c2" and "ck_unix c2 - ck_unix c1 \<le> ttl"
  shows "\<exists>nd1 nd2. put_ttl env es1 v ttl nd = Some (Inr k, nd1) \<and> node_get env es2 k nd1 = Some (Inr (Some v), nd2)"
proof -
  let ?o = "owner env k nd" and ?r = "immutable_record (en_crypto env) (ck_unix c1) v ttl"
  let ?c = "set_clocks c1 (sh_ctx (nd_shards nd ! owner env k nd))"
  have u: "sx_unix ?c = ck_unix c1"
    by (simp add: set_clocks_def)
  have len: "length v \<le> PMTU_FLOOR * 64"
    using assms(4) by (simp add: PMTU_FLOOR_def)
  have "sx_replies (handle_cmd env (CmdPut v ttl ch) ctx) = sx_replies ctx @ [(ch, ReplyKey k)]" for ch ctx
    using put_at_once(1) [OF len, of env ttl ch ctx] by (simp only: assms(5))
  from call_at_once [OF assms(1-3,6,7) _ this]
  obtain nd1 where nd1: "node_call env es1 ?o (CmdPut v ttl) nd = Some (Inr (ReplyKey k), nd1)"
    "node_reachable env ident cfg nd1" "idle ?o nd1" "length (nd_shards nd1) = length (nd_shards nd)"
    "nd_identity nd1 = nd_identity nd" "sh_ctx (nd_shards nd1 ! ?o) = run_timers env (handle_cmd env (CmdPut v ttl (nd_next_ch nd)) ?c)"
    by auto
  have o: "owner env k nd1 = ?o"
    using nd1(4,5) by (rule owner_same)
  have "keeps_record k ?r (ck_unix c1) (sh_ctx (nd_shards nd1 ! ?o))"
    using timers_keep [OF fresh_not_expired put_at_once(2) [OF len, of env ?c ttl "nd_next_ch nd"], of env]
    by (simp only: nd1(6) u assms(5) [symmetric])
  moreover have "\<not> expired ?r (ck_unix c2)" "sr_kind ?r \<noteq> KIND_TOMBSTONE"
    using assms(9,10) by (auto simp: expired_def immutable_record_def sat_sub_def kinds)
  ultimately obtain nd2 where "node_call env es2 ?o (CmdGet k) nd1 = Some (Inr (ReplyRecord (Some ?r)), nd2)"
    using call_reads [OF assms(1,2) nd1(2), of k c2 es2] nd1(3) assms(8) o by auto
  with nd1(1) show ?thesis
    by (auto simp: put_ttl_def node_get_def and_then_def o assms(5) [symmetric] immutable_record_def)
qed


section \<open>Mutable records\<close>

lemma mutable_record_authentic:
  assumes "crypto_ok c" "length seed = 32" "ident = identity_generate c seed wg"
  shows "authentic c (mutable_record c ident now ns salt v seq ttl)"
    and "signed_by c (mutable_record c ident now ns salt v seq ttl) (verifying_key ident)"
    and "length (sr_signature (mutable_record c ident now ns salt v seq ttl)) = 64"
proof -
  let ?r = "mutable_record c ident now ns salt v seq ttl"
  have pk: "length (verifying_key ident) = 32"
    using assms by (simp add: crypto_ok_def verifying_key_def identity_generate_def)
  then have "verifying_key ident \<noteq> []" by auto
  moreover have "verify_record c (verifying_key ident) (sr_key ?r) v seq ttl 0 (sr_signature ?r)"
    using assms pk by (simp add: crypto_ok_def verify_record_def mutable_record_def sign_record_def sign_with_def
        verifying_key_def identity_generate_def Let_def)
  ultimately show a: "authentic c ?r"
    by (simp add: authentic_def mutable_record_def Let_def kinds)
  then show "signed_by c ?r (verifying_key ident)"
    by (simp add: signed_by_def) (simp add: mutable_record_def Let_def)
  show "length (sr_signature ?r) = 64"
    using assms by (simp add: crypto_ok_def mutable_record_def sign_record_def sign_with_def identity_generate_def Let_def)
qed

text \<open>A record that is newer than the one stored is accepted and kept.\<close>

definition newer :: "stored_record \<Rightarrow> (key \<rightharpoonup> stored_record) \<Rightarrow> bool" where
  "newer r m = (case m (sr_key r) of None \<Rightarrow> True | Some old \<Rightarrow> sr_sequence old < sr_sequence r \<or> sr_kind old = KIND_TOMBSTONE)"

lemma mutable_at_once:
  assumes "sr_kind r = KIND_MUTABLE" "authentic (en_crypto env) r" "length (sr_value r) + length (sr_signature r) \<le> 64 * 1024"
    and "newer r (st_records (sx_store ctx))"
  shows "sx_replies (handle_cmd env (CmdPutMutable r ch) ctx) = sx_replies ctx @ [(ch, ReplyKey (sr_key r))]"
    and "keeps_record (sr_key r) r (sx_unix ctx) (handle_cmd env (CmdPutMutable r ch) ctx)"
proof -
  let ?c1 = "bump (\<lambda>m. m\<lparr>m_store_ok := metric_incr (m_store_ok m)\<rparr>) (ctx\<lparr>sx_store := insert_record (pb_record env) r (sx_store ctx)\<rparr>)"
  have "put_record_check (en_crypto env) r (sx_store ctx) = None"
    using assms by (auto simp: put_record_check_def kinds newer_def split: option.splits)
  then have "put_record (en_crypto env) (pb_record env) r False (sx_store ctx) = (Inr (), insert_record (pb_record env) r (sx_store ctx))"
    using assms(1) by (simp add: put_record_def kinds)
  then have cmd: "handle_cmd env (CmdPutMutable r ch) ctx = send_reply ch (ReplyKey (sr_key r)) (send_store_rpc env r ?c1)"
    by (simp add: cmd_put_mutable_def)
  have "settled (sx_wg ctx) (send_store_rpc env r ?c1) = settled (sx_wg ctx) ?c1"
    using sent.send_store_rpc_inv [OF refl] .
  note f = settled_fields(17) [OF this] settled_shelf [OF this]
  show "sx_replies (handle_cmd env (CmdPutMutable r ch) ctx) = sx_replies ctx @ [(ch, ReplyKey (sr_key r))]"
    using f(1) by (simp add: cmd send_reply_def bump_def del: handle_cmd.simps)
  show "keeps_record (sr_key r) r (sx_unix ctx) (handle_cmd env (CmdPutMutable r ch) ctx)"
    using f(2) by (simp add: cmd keeps_record_def shelf_def bump_def send_reply_def del: handle_cmd.simps)
qed

lemma mutable_readback:
  assumes "relay_part (pb_relay env)" and "tunn_drains (en_tunn env) q" and "node_reachable env ident cfg nd"
    and "crypto_ok (en_crypto env)" and "length seed = 32" and "ident = identity_generate (en_crypto env) seed wg"
    and "r = mutable_record (en_crypto env) ident now ns salt v seq ttl" and "length v + 64 \<le> 64 * 1024"
    and "idle (owner env (sr_key r) nd) nd" and "newer r (st_records (sx_store (sh_ctx (nd_shards nd ! owner env (sr_key r) nd))))"
    and "one_turn (owner env (sr_key r) nd) c1 es1" and "one_turn (owner env (sr_key r) nd) c2 es2"
    and "\<not> expired r (ck_unix c1)" and "\<not> expired r (ck_unix c2)"
  shows "\<exists>nd1 nd2. put_mutable_ttl env es1 now ns salt v seq ttl nd = Some (Inr (sr_key r), nd1)
    \<and> get_mutable env es2 (verifying_key ident) ns salt nd1 = Some (Inr (Some v), nd2)"
proof -
  let ?k = "sr_key r" and ?o = "owner env (sr_key r) nd"
  let ?c = "set_clocks c1 (sh_ctx (nd_shards nd ! owner env (sr_key r) nd))"
  have id: "nd_identity nd = ident"
    using reachable_ok [OF assms(3)] by (simp add: node_ok_def)
  have r: "?k = mutable_key (en_crypto env) (verifying_key ident) ns salt" "sr_value r = v" "sr_kind r = KIND_MUTABLE"
    "sr_namespace r = ns" "sr_salt r = salt"
    by (simp_all add: assms(7) mutable_record_def Let_def)
  note auth = mutable_record_authentic [OF assms(4-6), of now ns salt v seq ttl, folded assms(7)]
  have len: "length (sr_value r) + length (sr_signature r) \<le> 64 * 1024" and new: "newer r (st_records (sx_store ?c))"
    using assms(8,10) auth(3) by (simp_all add: r(2) set_clocks_def)
  have "sx_replies (handle_cmd env (CmdPutMutable r ch) ctx) = sx_replies ctx @ [(ch, ReplyKey ?k)]" if "ctx = ?c" for ch ctx
    using mutable_at_once(1) [OF r(3) auth(1) len new] that by blast
  from call_at_once [OF assms(1-3,9,11) _ this]
  obtain nd1 where nd1: "node_call env es1 ?o (CmdPutMutable r) nd = Some (Inr (ReplyKey ?k), nd1)"
    "node_reachable env ident cfg nd1" "idle ?o nd1" "length (nd_shards nd1) = length (nd_shards nd)"
    "nd_identity nd1 = nd_identity nd" "sh_ctx (nd_shards nd1 ! ?o) = run_timers env (handle_cmd env (CmdPutMutable r (nd_next_ch nd)) ?c)"
    by auto
  have o: "owner env ?k nd1 = ?o"
    using nd1(4,5) by (rule owner_same)
  have u: "sx_unix ?c = ck_unix c1"
    by (simp add: set_clocks_def)
  have "keeps_record ?k r (ck_unix c1) (sh_ctx (nd_shards nd1 ! ?o))"
    using timers_keep [OF assms(13) mutable_at_once(2) [OF r(3) auth(1) len new, unfolded u], of env] by (simp only: nd1(6))
  then obtain nd2 where "node_call env es2 ?o (CmdGet ?k) nd1 = Some (Inr (ReplyRecord (Some r)), nd2)"
    using call_reads [OF assms(1,2) nd1(2), of ?k c2 es2 r] nd1(3) assms(12,14) o r(3) by (auto simp: kinds)
  then have "get_mutable env es2 (verifying_key ident) ns salt nd1 = Some (Inr (Some v), nd2)"
    using r(1) [symmetric] r(2-5) auth(2) o by (simp add: get_mutable_def get_record_def and_then_def mutable_result_def)
  moreover have "put_mutable_ttl env es1 now ns salt v seq ttl nd = Some (Inr ?k, nd1)"
    using nd1(1) assms(7) [symmetric] by (simp add: put_mutable_ttl_def and_then_def Let_def id)
  ultimately show ?thesis by blast
qed


text \<open>
  C14. A value that \<^verbatim>\<open>get_mutable\<close> returns is signed: whatever the shards hold and whatever they are
  sent while the call waits, there is a signature of the owner over the key of the name and the value.
\<close>

theorem get_mutable_signed:
  assumes "get_mutable env es owner_pk ns salt nd = Some (Inr (Some v), nd')"
  shows "\<exists>seq ttl nb sig. verify_record (en_crypto env) owner_pk (mutable_key (en_crypto env) owner_pk ns salt) v seq ttl nb sig"
proof -
  from assms obtain q where "(case q of Inl e \<Rightarrow> Inl e | Inr x \<Rightarrow> mutable_result (en_crypto env) owner_pk ns salt x) = Inr (Some v)"
    by (auto simp: get_mutable_def)
  then obtain x where "mutable_result (en_crypto env) owner_pk ns salt x = Inr (Some v)"
    by (cases q) auto
  then obtain r where "signed_by (en_crypto env) r owner_pk" "sr_key r = mutable_key (en_crypto env) owner_pk ns salt" "sr_value r = v"
    by (auto simp: mutable_result_def split: option.splits if_splits)
  then have "verify_record (en_crypto env) owner_pk (mutable_key (en_crypto env) owner_pk ns salt) v
      (sr_sequence r) (sr_ttl_secs r) (sr_not_before_unix r) (sr_signature r)"
    by (auto simp: signed_by_def authentic_def kinds)
  then show ?thesis by blast
qed


section \<open>Examples\<close>

lemma demo_owner: "owner demo_env k demo_node = 0"
  by (simp add: owner_def demo_node_def shard_id_def)

lemma demo_idle: "idle 0 demo_node"
  by (simp add: idle_def no_stop_def demo_node_def demo_handle_def)

lemma demo_turn: "one_turn 0 c [Turn 0 c []]"
  unfolding one_turn_def by (rule exI [of _ "[]"], rule exI [of _ "[]"]) simp

theorem node_put_get_witness:
  "\<exists>nd1 nd2. put_ttl demo_env [Turn 0 (demo_ck 10) []] [1, 2, 3] 60 demo_node = Some (Inr (hash_value demo_crypto [1, 2, 3]), nd1)
    \<and> node_get demo_env [Turn 0 (demo_ck 30000) []] (hash_value demo_crypto [1, 2, 3]) nd1 = Some (Inr (Some [1, 2, 3]), nd2)"
  using node_put_get [of demo_env "\<lambda>_. 0" demo_identity node_config_default demo_node "[1, 2, 3]" _ "demo_ck 10"
      "[Turn 0 (demo_ck 10) []]" "demo_ck 30000" "[Turn 0 (demo_ck 30000) []]" 60, OF _ _ _ _ refl]
    demo_relay_part demo_tunn_drains demo_node_reachable demo_idle demo_turn
  by (simp add: demo_owner demo_ck_def)

lemma demo_mutable:
  assumes "r = mutable_record demo_crypto demo_identity 0 [1] [2] [1, 2, 3] 5 60"
  shows "newer r (st_records (sx_store (sh_ctx (nd_shards demo_node ! 0))))"
    and "\<not> expired r (ck_unix (demo_ck 10))" "\<not> expired r (ck_unix (demo_ck 30000))"
    and "sr_key r = mutable_key demo_crypto (verifying_key demo_identity) [1] [2]"
  by (simp_all add: assms newer_def demo_node_def demo_handle_def demo_shard_fields store_new_def expired_def
      mutable_record_def Let_def demo_ck_def sat_sub_def)


theorem get_mutable_signed_witness:
  "\<exists>nd nd' seq ttl nb sig. get_mutable demo_env [Turn 0 (demo_ck 30000) []] (verifying_key demo_identity) [1] [2] nd
      = Some (Inr (Some [1, 2, 3]), nd')
    \<and> verify_record demo_crypto (verifying_key demo_identity) (mutable_key demo_crypto (verifying_key demo_identity) [1] [2])
        [1, 2, 3] seq ttl nb sig"
proof -
  let ?r = "mutable_record demo_crypto demo_identity 0 [1] [2] [1, 2, 3] 5 60"
  have "\<exists>nd1 nd2. put_mutable_ttl demo_env [Turn 0 (demo_ck 10) []] 0 [1] [2] [1, 2, 3] 5 60 demo_node = Some (Inr (sr_key ?r), nd1)
    \<and> get_mutable demo_env [Turn 0 (demo_ck 30000) []] (verifying_key demo_identity) [1] [2] nd1 = Some (Inr (Some [1, 2, 3]), nd2)"
    by (rule mutable_readback [OF _ _ demo_node_reachable, where q = "\<lambda>_. 0" and seed = "replicate 32 7" and wg = "replicate 32 9"
          and ?c1.0 = "demo_ck 10" and ?c2.0 = "demo_ck 30000"])
      (use demo_relay_part demo_tunn_drains demo_crypto_ok demo_idle demo_turn demo_mutable(1-3) [OF refl]
        in \<open>simp_all add: demo_owner demo_identity_def\<close>)
  then obtain nd nd' where get: "get_mutable demo_env [Turn 0 (demo_ck 30000) []] (verifying_key demo_identity) [1] [2] nd
      = Some (Inr (Some [1, 2, 3]), nd')"
    by blast
  with get_mutable_signed [OF get] show ?thesis
    by auto
qed

end
