(* ===== verification/Node_Disk.thy ===== *)
theory Node_Disk
  imports Node_Calls
begin

text \<open>
  A value outlives the process: what a client has put is in the log when the node has shut down, and
  a node that starts from the same directory finds it there.
\<close>

section \<open>The log of a put\<close>

lemma put_journals:
  assumes "length v \<le> PMTU_FLOOR * 64" "journals env j ctx"
  shows "journals env (j @ write_frame (en_crc env) TYPE_RECORD
      (record_encode (pb_record env) (immutable_record (en_crypto env) (sx_unix ctx) v ttl)))
    (handle_cmd env (CmdPut v ttl ch) ctx)"
proof -
  let ?r = "immutable_record (en_crypto env) (sx_unix ctx) v ttl"
  let ?c1 = "bump (\<lambda>m. m\<lparr>m_store_ok := metric_incr (m_store_ok m)\<rparr>) (ctx\<lparr>sx_store := insert_record (pb_record env) ?r (sx_store ctx)\<rparr>)"
  have "settled (sx_wg ctx) (send_store_rpc env ?r ?c1) = settled (sx_wg ctx) ?c1"
    using sent.send_store_rpc_inv [OF refl] .
  from settled_shelf [OF this] have "shelf (handle_cmd env (CmdPut v ttl ch) ctx) = shelf ?c1"
    using cmd_put_small [OF assms(1), of env ttl ch ctx] by simp
  moreover have "journals env (j @ write_frame (en_crc env) TYPE_RECORD (record_encode (pb_record env) ?r)) ?c1"
    using assms(2) by (auto simp: journals_def journal_def bump_def insert_record_pending split: option.split)
  ultimately show ?thesis
    using journals_shelf by blast
qed

section \<open>Starting from a directory\<close>

definition log_of :: "disk \<Rightarrow> bytes" where
  "log_of d = (case wal_log d of None \<Rightarrow> [] | Some w \<Rightarrow> w)"

lemma spawn_journals:
  assumes "spawn_shard env i ident cfg os = Some h" "cf_peerstore_dir cfg = Some dir"
  shows "journals env (log_of (so_disk os)) (sh_ctx h)"
    and "st_records (sx_store (sh_ctx h)) = wal_replay (en_crc env)
      (record_apply (en_crypto env) (pb_record env) (ck_unix (so_clocks os))) Map.empty (log_of (so_disk os))"
    and "sh_alive h" "sh_join h" "sh_rx h = []"
proof -
  obtain addr where "sh_ctx h = snd (shard_new env i ident cfg addr (so_disk os) (so_clocks os))"
    and "sh_alive h" "sh_join h" "sh_rx h = []"
    using assms(1) by (auto simp: spawn_shard_def split_beta Let_def split: option.splits)
  then show "journals env (log_of (so_disk os)) (sh_ctx h)" "sh_alive h" "sh_join h" "sh_rx h = []"
    "st_records (sx_store (sh_ctx h)) = wal_replay (en_crc env)
      (record_apply (en_crypto env) (pb_record env) (ck_unix (so_clocks os))) Map.empty (log_of (so_disk os))"
    using assms(2)
    by (simp_all add: shard_new_def split_beta Let_def journals_def journal_def log_of_def ps_open_def store_open_def
        replay_wal_def store_new_def ps_recover_def split: option.split)
qed

lemma spawn_all_nth:
  assumes "spawn_all env ident cfg os ids = Some hs" "n < length ids"
  shows "spawn_shard env (ids ! n) ident cfg (os (ids ! n)) = Some (hs ! n)"
  using assms
proof (induction ids arbitrary: hs n)
  case (Cons i ids)
  then show ?case
    by (cases n) (auto split: option.splits)
qed simp

lemma node_start_nth:
  assumes "node_start env ident cfg os = Some nd" "cf_bootstrap cfg = []" "i < length (nd_shards nd)"
  shows "spawn_shard env (of_nat i) ident cfg (os (of_nat i)) = Some (nd_shards nd ! i)" and "nd_running nd"
proof -
  from assms(1,2) obtain hs where hs: "spawn_all env ident cfg os (map of_nat [0..<unat (max (cf_shard_count cfg) 1)]) = Some hs"
    and nd: "nd_shards nd = hs" "nd_running nd"
    by (auto simp: node_start_def Let_def split: option.splits)
  then show "spawn_shard env (of_nat i) ident cfg (os (of_nat i)) = Some (nd_shards nd ! i)" "nd_running nd"
    using spawn_all_nth [OF hs, of i] spawn_all_ok(1) [OF hs] assms(3) by simp_all
qed

lemma node_start_idle:
  assumes "node_start env ident cfg os = Some nd" "cf_bootstrap cfg = []" "cf_peerstore_dir cfg = Some dir" "i < length (nd_shards nd)"
  shows "idle i nd"
proof -
  have "sh_alive (nd_shards nd ! n) \<and> sh_rx (nd_shards nd ! n) = []" if "n < length (nd_shards nd)" for n
    using spawn_journals(3,5) [OF node_start_nth(1) [OF assms(1,2) that] assms(3)] by simp
  then show ?thesis
    using node_start_nth(2) [OF assms(1,2,4)] assms(4) by (auto simp: idle_def no_stop_def in_set_conv_nth)
qed


section \<open>Shutting down\<close>

lemma shutdown_nth:
  assumes "i < length (nd_shards nd)" "sh_alive (nd_shards nd ! i)" "sh_join (nd_shards nd ! i)"
  shows "length (nd_shards (node_shutdown env nd)) = length (nd_shards nd)"
    and "\<exists>bufs. sh_ctx (nd_shards (node_shutdown env nd) ! i) = shard_stop env bufs (sh_ctx (nd_shards nd ! i))"
  using assms by (auto simp: node_shutdown_def send_all_def handle_join_def shard_exit_def tx_send_def Let_def split: option.splits)

section \<open>A value outlives the process\<close>

lemma restamp_live: "ck_unix c - t \<le> sr_ttl_secs r \<Longrightarrow> t \<le> ck_unix c \<Longrightarrow> \<not> expired (restamp t r) (ck_unix c)"
  by (auto simp: expired_def restamp_def sat_sub_def)

lemma put_then_shutdown:
  assumes "relay_part (pb_relay env)" "tunn_drains (en_tunn env) q" "node_reachable env ident cfg nd" "idle (owner env k nd) nd"
    and "sh_join (nd_shards nd ! owner env k nd)" "journals env w (sh_ctx (nd_shards nd ! owner env k nd))"
    and "length v \<le> 76800" "k = hash_value (en_crypto env) v"
    and "one_turn (owner env k nd) c es" "put_ttl env es v ttl nd = Some (res, nd1)"
  shows "res = Inr k" and "nd_running nd1" and "log_of (sx_disk (sh_ctx (nd_shards (node_shutdown env nd1) ! owner env k nd)))
    = w @ write_frame (en_crc env) TYPE_RECORD
        (record_encode (pb_record env) (immutable_record (en_crypto env) (ck_unix c) v ttl))"
proof -
  let ?o = "owner env k nd" and ?c = "set_clocks c (sh_ctx (nd_shards nd ! owner env k nd))"
  have len: "length v \<le> PMTU_FLOOR * 64"
    using assms(7) by (simp add: PMTU_FLOOR_def)
  have "sx_replies (handle_cmd env (CmdPut v ttl ch) ctx) = sx_replies ctx @ [(ch, ReplyKey k)]" for ch ctx
    using put_at_once(1) [OF len, of env ttl ch ctx] by (simp only: assms(8))
  from call_at_once [OF assms(1-4,9) _ this] assms(5,8,10)
  have res: "res = Inr k" and nd1: "idle ?o nd1" "sh_join (nd_shards nd1 ! ?o)"
    "sh_ctx (nd_shards nd1 ! ?o) = run_timers env (handle_cmd env (CmdPut v ttl (nd_next_ch nd)) ?c)"
    by (auto simp: put_ttl_def and_then_def)
  have "journals env w ?c"
    using assms(6) by (simp add: journals_def journal_def set_clocks_def)
  from timers_journal [OF put_journals [OF len this, of ttl "nd_next_ch nd"]]
  have "journals env (w @ write_frame (en_crc env) TYPE_RECORD
      (record_encode (pb_record env) (immutable_record (en_crypto env) (ck_unix c) v ttl))) (sh_ctx (nd_shards nd1 ! ?o))"
    by (simp add: nd1(3) set_clocks_def)
  from stop_journals [OF this] shutdown_nth(2) [of ?o nd1 env] nd1(1,2)
  show "log_of (sx_disk (sh_ctx (nd_shards (node_shutdown env nd1) ! ?o)))
      = w @ write_frame (en_crc env) TYPE_RECORD
          (record_encode (pb_record env) (immutable_record (en_crypto env) (ck_unix c) v ttl))"
    by (auto simp: idle_def log_of_def)
  show "res = Inr k" by (rule res)
  show "nd_running nd1"
    using nd1(1) by (simp add: idle_def no_stop_def)
qed

text \<open>
  A node that is left alone for a while: the shard \<open>i\<close> gets no datagrams, while the other shards do
  anything. It stays idle and keeps its log and its live records.
\<close>

definition left_alone :: "nat \<Rightarrow> node_event list \<Rightarrow> bool" where
  "left_alone i es = (\<forall>e \<in> set es. ev_shard e = i \<longrightarrow> (\<exists>c. e = Turn i c []))"

lemma turn_idle: "shard_turn env c [] [] ctx = Some (True, [], run_timers env (set_clocks c ctx))"
  by (simp add: shard_turn_def drain_cmds_eq)

text \<open>What a shard keeps from one state of the node to the next, for the records of which \<open>L\<close> holds.\<close>

definition stays :: "'t shard_env \<Rightarrow> (stored_record \<Rightarrow> bool) \<Rightarrow> nat \<Rightarrow> 't node \<Rightarrow> 't node \<Rightarrow> bool" where
  "stays env L i nd nd' = (idle i nd' \<and> length (nd_shards nd') = length (nd_shards nd) \<and> nd_identity nd' = nd_identity nd
     \<and> sh_join (nd_shards nd' ! i) = sh_join (nd_shards nd ! i)
     \<and> (\<forall>j. journals env j (sh_ctx (nd_shards nd ! i)) \<longrightarrow> journals env j (sh_ctx (nd_shards nd' ! i)))
     \<and> (\<forall>k r u. L r \<longrightarrow> keeps_record k r u (sh_ctx (nd_shards nd ! i)) \<longrightarrow> (\<exists>u'. keeps_record k r u' (sh_ctx (nd_shards nd' ! i)))))"

lemma staysD:
  assumes "stays env L i nd nd'"
  shows "idle i nd'" "length (nd_shards nd') = length (nd_shards nd)" "nd_identity nd' = nd_identity nd"
    and "sh_join (nd_shards nd' ! i) = sh_join (nd_shards nd ! i)"
    and "journals env j (sh_ctx (nd_shards nd ! i)) \<Longrightarrow> journals env j (sh_ctx (nd_shards nd' ! i))"
    and "L r \<Longrightarrow> keeps_record k r u (sh_ctx (nd_shards nd ! i)) \<Longrightarrow> \<exists>u'. keeps_record k r u' (sh_ctx (nd_shards nd' ! i))"
  using assms unfolding stays_def by blast+

lemma stays_trans: "stays env L i a b \<Longrightarrow> stays env L i b c \<Longrightarrow> stays env L i a c"
  unfolding stays_def by metis

lemma stays_refl: "idle i nd \<Longrightarrow> stays env L i nd nd"
  by (auto simp: stays_def)

lemma left_alone_step:
  assumes "node_reachable env ident cfg nd" "idle i nd" "node_step env nd e = Some nd'" "ev_shard e = i \<Longrightarrow> \<exists>c. e = Turn i c []"
    and "\<And>c b r. e = Turn i c b \<Longrightarrow> L r \<Longrightarrow> \<not> expired r (ck_unix c)"
  shows "stays env L i nd nd'"
proof (cases "ev_shard e = i")
  case False
  then show ?thesis
    using node_step_frame(1-3) [OF assms(1) _ assms(3)] node_step_frame(4) [OF assms(1) _ assms(3), of i] assms(2)
    by (auto simp: stays_def idle_def)
next
  case True
  then obtain c where e: "e = Turn i c []"
    using assms(4) by blast
  let ?h = "nd_shards nd ! i" and ?c = "set_clocks c (sh_ctx (nd_shards nd ! i))"
  have i: "i < length (nd_shards nd)" "no_stop nd" "sh_alive ?h" "sh_rx ?h = []" "nd_running nd"
    using assms(2) by (simp_all add: idle_def no_stop_def)
  have nd': "nd_shards nd' = (nd_shards nd)[i := ?h\<lparr>sh_rx := [], sh_ctx := run_timers env ?c\<rparr>]"
      "nd_identity nd' = nd_identity nd"
    using assms(3) i turn_idle [of env c "sh_ctx ?h"] by (auto simp: e)
  have "journals env j (run_timers env ?c)" if "journals env j (sh_ctx ?h)" for j
    using that by (intro timers_journal) (simp add: journals_def journal_def set_clocks_def)
  moreover have "\<exists>u'. keeps_record k r u' (run_timers env ?c)" if "L r" "keeps_record k r u (sh_ctx ?h)" for k r u
    using that assms(5) [OF e] by (intro exI [of _ "ck_unix c"] timers_keep) (simp_all add: keeps_record_def set_clocks_def)
  ultimately show ?thesis
    using nd' i node_step_frame(1) [OF assms(1) i(2) assms(3)] by (auto simp: stays_def idle_def)
qed

lemma left_alone_run:
  assumes "node_reachable env ident cfg nd" "idle i nd" "node_run env nd es = Some nd'" "left_alone i es"
    and "\<And>c b r. Turn i c b \<in> set es \<Longrightarrow> L r \<Longrightarrow> \<not> expired r (ck_unix c)"
  shows "stays env L i nd nd'"
  using assms
proof (induction es arbitrary: nd)
  case (Cons e es)
  then obtain nd1 where nd1: "node_step env nd e = Some nd1" "node_run env nd1 es = Some nd'"
    by (auto split: bind_splits)
  have "stays env L i nd nd1"
    using Cons.prems(4,5) by (intro left_alone_step [OF Cons.prems(1,2) nd1(1)]) (auto simp: left_alone_def)
  moreover from this have "stays env L i nd1 nd'"
    using Cons.prems(1,4,5) nd1 by (intro Cons.IH) (auto simp: left_alone_def stays_def intro: node_reachable.event)
  ultimately show ?case
    by (rule stays_trans)
qed (auto intro: stays_refl)

lemma restart_has:
  assumes "spawn_shard env i ident cfg os = Some h" "cf_peerstore_dir cfg = Some dir" "prost_ok (pb_record env)"
    and "log_of (so_disk os) = wal_bytes (en_crc env) fs @ write_frame (en_crc env) TYPE_RECORD (record_encode (pb_record env) r)"
    and "list_all frame_ok fs" "record_loggable (pb_record env) r" "authentic (en_crypto env) r"
  shows "st_records (sx_store (sh_ctx h)) (sr_key r) = Some (restamp (ck_unix (so_clocks os)) r)"
proof -
  have "list_all frame_ok (fs @ [(TYPE_RECORD, record_encode (pb_record env) r)])"
    using assms(5,6) by (simp add: frame_ok_def record_loggable_def)
  from wal_replay_torn [OF this torn_tail_Nil [of "en_crc env"], of "record_apply (en_crypto env) (pb_record env) (ck_unix (so_clocks os))" Map.empty]
  show ?thesis
    using spawn_journals(2) [OF assms(1,2)] record_apply_encode [OF assms(3,6,7)] by (simp add: assms(4))
qed

lemma put_durable:
  assumes "relay_part (pb_relay env)" "tunn_drains (en_tunn env) q"
    and "cf_peerstore_dir cfg = Some dir" "cf_bootstrap cfg = []" "node_start env ident cfg os = Some nd0"
    and "k = hash_value (en_crypto env) v" "i = owner env k nd0" "left_alone i es0" "node_run env nd0 es0 = Some nd"
    and "length v \<le> 76800" "one_turn i c es" "put_ttl env es v ttl nd = Some (res, nd1)"
  shows "res = Inr k" "nd_running nd1" and "log_of (sx_disk (sh_ctx (nd_shards (node_shutdown env nd1) ! i)))
    = log_of (so_disk (os (of_nat i))) @ write_frame (en_crc env) TYPE_RECORD
        (record_encode (pb_record env) (immutable_record (en_crypto env) (ck_unix c) v ttl))"
proof -
  have r: "node_reachable env ident cfg nd0"
    using assms(5) by (rule node_reachable.start)
  then have r': "node_reachable env ident cfg nd" and i: "i < length (nd_shards nd0)"
    using run_reachable [OF assms(9)] owner_less [OF r, of k] assms(7) by simp_all
  have s: "stays env (\<lambda>_. False) i nd0 nd"
    by (rule left_alone_run [OF r node_start_idle [OF assms(5,4,3) i] assms(9,8)]) simp
  have o1: "owner env k nd = i" "idle i nd"
    using owner_same [OF staysD(2,3) [OF s], of env k] assms(7) staysD(1) [OF s] by simp_all
  note h = node_start_nth(1) [OF assms(5,4) i]
  have "sh_join (nd_shards nd ! i)" "journals env (log_of (so_disk (os (of_nat i)))) (sh_ctx (nd_shards nd ! i))"
    using staysD(4) [OF s] staysD(5) [OF s spawn_journals(1) [OF h assms(3)]] spawn_journals(4) [OF h assms(3)] by simp_all
  note put = put_then_shutdown [OF assms(1,2) r', of k, unfolded o1(1), OF o1(2) this assms(10,6,11,12)]
  show "res = Inr k" "nd_running nd1" "log_of (sx_disk (sh_ctx (nd_shards (node_shutdown env nd1) ! i)))
    = log_of (so_disk (os (of_nat i))) @ write_frame (en_crc env) TYPE_RECORD
        (record_encode (pb_record env) (immutable_record (en_crypto env) (ck_unix c) v ttl))"
    by (rule put)+
qed

lemma get_durable:
  assumes "relay_part (pb_relay env)" "tunn_drains (en_tunn env) q" "prost_ok (pb_record env)"
    and "cf_peerstore_dir cfg = Some dir" "cf_bootstrap cfg = []" "node_start env ident cfg os = Some nd0"
    and "k = hash_value (en_crypto env) v" "i = owner env k nd0" "left_alone i es0" "node_run env nd0 es0 = Some nd"
    and "log_of (so_disk (os (of_nat i))) = wal_bytes (en_crc env) fs @ write_frame (en_crc env) TYPE_RECORD
        (record_encode (pb_record env) (immutable_record (en_crypto env) u v ttl))"
    and "list_all frame_ok fs" "record_loggable (pb_record env) (immutable_record (en_crypto env) u v ttl)"
    and "one_turn i c es" "t = ck_unix (so_clocks (os (of_nat i)))"
    and "\<And>c'. c' = c \<or> Turn i c' [] \<in> set es0 \<Longrightarrow> t \<le> ck_unix c' \<and> ck_unix c' - t \<le> ttl"
  shows "\<exists>nd'. node_get env es k nd = Some (Inr (Some v), nd')"
proof -
  let ?r = "immutable_record (en_crypto env) u v ttl"
  have r: "node_reachable env ident cfg nd0"
    using assms(6) by (rule node_reachable.start)
  then have r': "node_reachable env ident cfg nd" and i: "i < length (nd_shards nd0)"
    using run_reachable [OF assms(10)] owner_less [OF r, of k] assms(8) by simp_all
  from restart_has [OF node_start_nth(1) [OF assms(6,5) i] assms(4,3,11,12,13)] assms(7,15)
  have keep: "keeps_record k (restamp t ?r) (sx_unix (sh_ctx (nd_shards nd0 ! i))) (sh_ctx (nd_shards nd0 ! i))"
    by (simp add: keeps_record_def) (simp add: immutable_record_def)
  have live: "\<not> expired (restamp t ?r) (ck_unix c')" if "c' = c \<or> Turn i c' [] \<in> set es0" for c'
    using assms(16) [OF that] by (intro restamp_live) (simp_all add: immutable_record_def)
  have "b = []" if "Turn i c' b \<in> set es0" for c' b
    using that assms(9) by (auto simp: left_alone_def)
  then have s: "stays env (\<lambda>r. r = restamp t ?r) i nd0 nd"
    using live by (intro left_alone_run [OF r node_start_idle [OF assms(6,5,4) i] assms(10,9)]) auto
  from staysD(6) [OF this refl keep] obtain u' where u': "keeps_record k (restamp t ?r) u' (sh_ctx (nd_shards nd ! i))"
    by blast
  have o1: "owner env k nd = i" "idle i nd"
    using owner_same [OF staysD(2,3) [OF s], of env k] assms(8) staysD(1) [OF s] by simp_all
  have kind: "sr_kind (restamp t ?r) \<noteq> KIND_TOMBSTONE"
    by (simp add: restamp_def immutable_record_def kinds)
  from call_reads [OF assms(1,2) r', of k, unfolded o1(1), OF o1(2) assms(14) u' live kind]
  obtain nd' where "node_call env es i (CmdGet k) nd = Some (Inr (ReplyRecord (Some (restamp t ?r))), nd')"
    by blast
  then show ?thesis
    by (simp add: node_get_def and_then_def o1(1)) (simp add: restamp_def immutable_record_def)
qed

text \<open>
  C3. What a client has put survives a restart. A node with a directory and no bootstrap addresses is
  started, and right after the start a client puts a value of at most 76800 bytes with a lifetime that
  is not zero; during this call the owning shard does one turn in which no datagram has arrived, while
  the other shards do anything. The put returns the key. Then the node is shut down, and a node with
  the same identity and configuration is started from the files that are then on disk: a get of the
  key, during which the owning shard again does one turn without datagrams, returns the value, if no
  more than the lifetime has passed since the restart. The logs that the first node finds consist of
  whole frames, as a shutdown leaves them.
\<close>

theorem node_durable:
  assumes "relay_part (pb_relay env)" and "tunn_drains (en_tunn env) q" and "prost_ok (pb_record env)"
    and "cf_peerstore_dir cfg = Some dir" and "cf_bootstrap cfg = []"
    and "node_start env ident cfg os = Some nd" and "\<forall>i. log_of (so_disk (os i)) = wal_bytes (en_crc env) (fs i) \<and> list_all frame_ok (fs i)"
    and "length v \<le> 76800" and "k = hash_value (en_crypto env) v"
    and "record_loggable (pb_record env) (immutable_record (en_crypto env) (ck_unix c1) v ttl)"
    and "one_turn (owner env k nd) c1 es1" and "put_ttl env es1 v ttl nd = Some (res, nd1)"
    and "node_start env ident cfg os' = Some nd2"
    and "\<forall>i < length (nd_shards nd). so_disk (os' (of_nat i)) = sx_disk (sh_ctx (nd_shards (node_shutdown env nd1) ! i))"
    and "one_turn (owner env k nd) c2 es2" and "t = ck_unix (so_clocks (os' (of_nat (owner env k nd))))"
    and "t \<le> ck_unix c2" and "ck_unix c2 - t \<le> ttl"
  shows "\<exists>nd3. res = Inr k \<and> node_get env es2 k nd2 = Some (Inr (Some v), nd3)"
proof -
  have r: "node_reachable env ident cfg nd" "node_reachable env ident cfg nd2"
    using assms(6,13) by (blast intro: node_reachable.start)+
  have same: "length (nd_shards nd2) = length (nd_shards nd)" "nd_identity nd2 = nd_identity nd"
    using reachable_ok [OF r(1)] reachable_ok [OF r(2)] by (simp_all add: node_ok_def)
  have alone: "left_alone i []" "node_run env n [] = Some n" for i n
    by (simp_all add: left_alone_def)
  note put = put_durable [OF assms(1,2,4-6,9) refl alone assms(8,11,12)]
  have "log_of (so_disk (os' (of_nat (owner env k nd)))) = wal_bytes (en_crc env) (fs (of_nat (owner env k nd)))
      @ write_frame (en_crc env) TYPE_RECORD (record_encode (pb_record env) (immutable_record (en_crypto env) (ck_unix c1) v ttl))"
    using put(3) assms(7,14) owner_less [OF r(1), of k] by simp
  from get_durable [OF assms(1-5,13,9) owner_same [OF same, symmetric] alone this _ assms(10,15,16)] assms(7,17,18)
  show ?thesis
    using put(1) by simp
qed


section \<open>An example\<close>

lemma node_start_defined:
  assumes "\<forall>i. so_bound (os i) \<noteq> None"
  shows "\<exists>nd. node_start env ident cfg os = Some nd"
proof -
  have "\<exists>hs. spawn_all env ident cfg os ids = Some hs" for ids
    using assms by (induction ids) (auto simp: spawn_shard_def split_beta Let_def split: option.split)
  then show ?thesis
    by (auto simp: node_start_def Let_def split: option.split)
qed

theorem node_durable_witness:
  "\<exists>cfg nd nd1 os' nd2 nd3. cf_peerstore_dir cfg = Some ''d'' \<and> node_start demo_env demo_identity cfg demo_os = Some nd
    \<and> put_ttl demo_env [Turn 0 (demo_ck 10) []] [1, 2, 3] 60 nd = Some (Inr (hash_value demo_crypto [1, 2, 3]), nd1)
    \<and> (\<forall>i < length (nd_shards nd). so_disk (os' (of_nat i)) = sx_disk (sh_ctx (nd_shards (node_shutdown demo_env nd1) ! i)))
    \<and> node_start demo_env demo_identity cfg os' = Some nd2
    \<and> node_get demo_env [Turn 0 (demo_ck 30000) []] (hash_value demo_crypto [1, 2, 3]) nd2 = Some (Inr (Some [1, 2, 3]), nd3)"
proof -
  let ?cfg = "node_config_default\<lparr>cf_peerstore_dir := Some ''d''\<rparr>" and ?k = "hash_value demo_crypto [1, 2, 3]"
  have cfg: "cf_peerstore_dir ?cfg = Some ''d''" "cf_bootstrap ?cfg = []" "max (cf_shard_count ?cfg) 1 = 1"
    by (simp_all add: node_config_default_def)
  obtain nd where nd: "node_start demo_env demo_identity ?cfg demo_os = Some nd"
    using node_start_defined [of demo_os demo_env demo_identity ?cfg] by (auto simp: demo_os_def)
  have reach: "node_reachable demo_env demo_identity ?cfg nd"
    using nd by (rule node_reachable.start)
  then have len: "length (nd_shards nd) = 1" and own: "owner demo_env k nd = 0" for k
    using reachable_ok [OF reach] owner_less [OF reach, of k] cfg(3) by (simp_all add: node_ok_def)
  obtain res nd1 where put: "put_ttl demo_env [Turn 0 (demo_ck 10) []] [1, 2, 3] 60 nd = Some (res, nd1)"
    using call_defined [of demo_env "\<lambda>_. 0" demo_identity ?cfg nd 0 "CmdPut [1, 2, 3] 60" "[Turn 0 (demo_ck 10) []]"]
      demo_relay_part demo_tunn_drains reach len own by (auto simp: put_ttl_def and_then_def)
  define os' where "os' i = \<lparr>so_bound = Some (AddrV4 127 0 0 1 4000),
      so_disk = sx_disk (sh_ctx (nd_shards (node_shutdown demo_env nd1) ! unat i)), so_clocks = demo_ck 20000\<rparr>" for i :: u32
  obtain nd2 where nd2: "node_start demo_env demo_identity ?cfg os' = Some nd2"
    using node_start_defined [of os' demo_env demo_identity ?cfg] by (auto simp: os'_def)
  have disk: "\<forall>i < length (nd_shards nd). so_disk (os' (of_nat i)) = sx_disk (sh_ctx (nd_shards (node_shutdown demo_env nd1) ! i))"
    by (simp add: len os'_def)
  have "length (record_encode demo_record_codec (immutable_record demo_crypto 0 [1, 2, 3] 60)) < 2 ^ 11" "id_ok (kbytes ?k)"
    by code_simp+
  then have log: "record_loggable demo_record_codec (immutable_record demo_crypto 0 [1, 2, 3] 60)"
    by (simp add: record_loggable_def) (simp add: immutable_record_def)
  have t: "ck_unix (demo_ck 20000) \<le> ck_unix (demo_ck 30000)" "ck_unix (demo_ck 30000) - ck_unix (demo_ck 20000) \<le> 60"
    "ck_unix (demo_ck 10) = 0"
    by (simp_all add: demo_ck_def)
  have "\<exists>nd3. res = Inr ?k \<and> node_get demo_env [Turn 0 (demo_ck 30000) []] ?k nd2 = Some (Inr (Some [1, 2, 3]), nd3)"
    by (rule node_durable [OF _ _ _ cfg(1,2) nd _ _ _ _ _ put nd2 disk, where q = "\<lambda>_. 0" and fs = "\<lambda>_. []"
          and ?c1.0 = "demo_ck 10" and ?c2.0 = "demo_ck 30000" and t = "ck_unix (demo_ck 20000)"])
      (use demo_relay_part demo_tunn_drains log demo_turn own
        in \<open>simp_all add: demo_os_def log_of_def empty_disk_def os'_def t\<close>)
  then show ?thesis
    using cfg(1) nd put nd2 disk by blast
qed

end
