(* ===== verification/Cli.thy ===== *)
theory Cli
  imports Node_Disk Webrtc
begin

text \<open>
  The command line (\<^verbatim>\<open>bin/molia.rs\<close>): the arguments, the configuration they give, and the command that
  is run against the node, with what it prints and how the process ends. Strings are their UTF-8
  bytes. The operating system is an argument: what the files hold, which sockets could be bound,
  and what the threads of the node do meanwhile.
\<close>

section \<open>Arguments\<close>

record cli_opts =
  op_listen :: socket_addr
  op_bootstrap :: "socket_addr list"
  op_shards :: u32
  op_put :: "bytes option"
  op_get :: "bytes option"
  op_plaintext :: bool
  op_gateway :: "socket_addr option"
  op_clear_peerstore :: bool
  op_new_identity :: bool
  op_data_dir :: bytes
  op_relay :: bool
  op_put_mutable :: "(bytes \<times> bytes \<times> bytes \<times> u64) option"
  op_announce :: "(bytes \<times> bytes) option"
  op_providers :: "bytes option"
  op_get_mutable :: "(bytes \<times> bytes \<times> bytes) option"
  op_log_level :: "bytes option"
  op_ttl_secs :: "u64 option"

definition cli_defaults :: "u32 \<Rightarrow> cli_opts" where
  "cli_defaults parallelism =
     \<lparr>op_listen = AddrV4 0 0 0 0 4001, op_bootstrap = [], op_shards = parallelism, op_put = None, op_get = None,
      op_plaintext = True, op_gateway = None, op_clear_peerstore = False, op_new_identity = False,
      op_data_dir = of_chars ''.'', op_relay = False, op_put_mutable = None, op_announce = None, op_providers = None,
      op_get_mutable = None, op_log_level = None, op_ttl_secs = None\<rparr>"

text \<open>A missing or ill-formed argument is a panic with the message of the \<^verbatim>\<open>expect\<close>.\<close>

datatype cli_stop = CliPanic string | CliHelp | CliUnknown bytes

fun pop_arg :: "string \<Rightarrow> bytes list \<Rightarrow> cli_stop + bytes \<times> bytes list" where
  "pop_arg msg [] = Inl (CliPanic msg)"
| "pop_arg msg (a # args) = Inr (a, args)"

definition expect :: "string \<Rightarrow> 'a option \<Rightarrow> cli_stop + 'a" where
  "expect msg x = (case x of Some y \<Rightarrow> Inr y | None \<Rightarrow> Inl (CliPanic msg))"

definition parse_number :: "nat \<Rightarrow> bytes \<Rightarrow> ('a::len) word option" where
  "parse_number w s = map_option of_nat (parse_unsigned w s)"

text \<open>One option \<open>a\<close> with the arguments after it; the result is what is left of these.\<close>

definition cli_arg :: "addr_text \<Rightarrow> bytes \<Rightarrow> bytes list \<Rightarrow> cli_opts \<Rightarrow> cli_stop + bytes list \<times> cli_opts" where
  "cli_arg t a args o1 =
     (if a = of_chars ''--listen'' then
        and_try (pop_arg ''addr'' args) (\<lambda>(x, args). and_try (expect ''listen addr'' (at_parse t x)) (\<lambda>addr.
          Inr (args, o1\<lparr>op_listen := addr\<rparr>)))
      else if a = of_chars ''--bootstrap'' then
        and_try (pop_arg ''seed-addrs'' args) (\<lambda>(x, args).
          and_try (try_all (\<lambda>p. expect ''seed addr'' (at_parse t p)) (filter (\<lambda>p. p \<noteq> []) (split_byte 44 x))) (\<lambda>seeds.
            Inr (args, o1\<lparr>op_bootstrap := op_bootstrap o1 @ seeds\<rparr>)))
      else if a = of_chars ''--shards'' then
        and_try (pop_arg ''n'' args) (\<lambda>(x, args). and_try (expect ''shards'' (parse_number 32 x)) (\<lambda>n.
          Inr (args, o1\<lparr>op_shards := n\<rparr>)))
      else if a = of_chars ''--put'' then and_try (pop_arg ''value'' args) (\<lambda>(x, args). Inr (args, o1\<lparr>op_put := Some x\<rparr>))
      else if a = of_chars ''--get'' then and_try (pop_arg ''hex key'' args) (\<lambda>(x, args). Inr (args, o1\<lparr>op_get := Some x\<rparr>))
      else if a = of_chars ''--wg'' then Inr (args, o1\<lparr>op_plaintext := False\<rparr>)
      else if a = of_chars ''--clear-peerstore'' then Inr (args, o1\<lparr>op_clear_peerstore := True\<rparr>)
      else if a = of_chars ''--new-identity'' then Inr (args, o1\<lparr>op_new_identity := True\<rparr>)
      else if a = of_chars ''--data-dir'' then and_try (pop_arg ''path'' args) (\<lambda>(x, args). Inr (args, o1\<lparr>op_data_dir := x\<rparr>))
      else if a = of_chars ''--relay'' then Inr (args, o1\<lparr>op_relay := True\<rparr>)
      else if a = of_chars ''--put-mutable'' then
        and_try (pop_arg ''ns'' args) (\<lambda>(ns, args). and_try (pop_arg ''salt'' args) (\<lambda>(salt, args).
        and_try (pop_arg ''value'' args) (\<lambda>(v, args). and_try (pop_arg ''seq'' args) (\<lambda>(s, args).
        and_try (expect ''seq'' (parse_number 64 s)) (\<lambda>seq. Inr (args, o1\<lparr>op_put_mutable := Some (ns, salt, v, seq)\<rparr>))))))
      else if a = of_chars ''--announce'' then
        and_try (pop_arg ''hex key'' args) (\<lambda>(k, args). and_try (pop_arg ''meta'' args) (\<lambda>(m, args).
          Inr (args, o1\<lparr>op_announce := Some (k, m)\<rparr>)))
      else if a = of_chars ''--providers'' then
        and_try (pop_arg ''hex key'' args) (\<lambda>(x, args). Inr (args, o1\<lparr>op_providers := Some x\<rparr>))
      else if a = of_chars ''--get-mutable'' then
        and_try (pop_arg ''owner_pubkey'' args) (\<lambda>(pk, args). and_try (pop_arg ''ns'' args) (\<lambda>(ns, args).
        and_try (pop_arg ''salt'' args) (\<lambda>(salt, args). Inr (args, o1\<lparr>op_get_mutable := Some (pk, ns, salt)\<rparr>))))
      else if a = of_chars ''--log-level'' then
        and_try (pop_arg ''level'' args) (\<lambda>(x, args). Inr (args, o1\<lparr>op_log_level := Some x\<rparr>))
      else if a = of_chars ''--ttl'' then
        and_try (pop_arg ''secs'' args) (\<lambda>(x, args). and_try (expect ''ttl'' (parse_number 64 x)) (\<lambda>n.
          Inr (args, o1\<lparr>op_ttl_secs := Some n\<rparr>)))
      else if a = of_chars ''--webrtc-gateway'' then
        (case args of
           s # rest \<Rightarrow>
             if \<not> starts_with (of_chars ''-'') s
             then and_try (expect ''webrtc-gateway addr'' (at_parse t s)) (\<lambda>addr. Inr (rest, o1\<lparr>op_gateway := Some addr\<rparr>))
             else Inr (args, o1\<lparr>op_gateway := Some (AddrV4 127 0 0 1 9080)\<rparr>)
         | [] \<Rightarrow> Inr (args, o1\<lparr>op_gateway := Some (AddrV4 127 0 0 1 9080)\<rparr>))
      else if a = of_chars ''--help'' then Inl CliHelp
      else Inl (CliUnknown a))"

lemma pop_arg_length: "pop_arg msg args = Inr (x, rest) \<Longrightarrow> length rest < length args"
  by (cases args) auto

lemma and_try_Inr: "and_try r f = Inr y \<longleftrightarrow> (\<exists>x. r = Inr x \<and> f x = Inr y)"
  by (cases r) (simp_all add: and_try_def)

lemma cli_arg_length: "cli_arg t a args o1 = Inr (rest, o2) \<Longrightarrow> length rest \<le> length args"
  by (auto simp: cli_arg_def and_try_Inr split: if_splits list.splits dest!: pop_arg_length)

function cli_parse :: "addr_text \<Rightarrow> bytes list \<Rightarrow> cli_opts \<Rightarrow> cli_stop + cli_opts" where
  "cli_parse t [] o1 = Inr o1"
| "cli_parse t (a # args) o1 =
     (case cli_arg t a args o1 of Inl e \<Rightarrow> Inl e | Inr (rest, o2) \<Rightarrow> cli_parse t rest o2)"
  by pat_completeness auto

termination
  by (relation "measure (\<lambda>(t, args, o1). length args)") (auto dest: cli_arg_length)

section \<open>Keys and values as text\<close>

definition parse_key :: "crypto \<Rightarrow> bytes \<Rightarrow> cli_stop + key" where
  "parse_key c hex =
     and_try (expect ''hex key'' (hex_decode c (chars_of (trim hex)))) (\<lambda>raw.
       expect ''key'' (key_from_bytes (take 32 raw @ replicate (32 - length raw) 0)))"

definition parse_pubkey :: "crypto \<Rightarrow> bytes \<Rightarrow> cli_stop + bytes" where
  "parse_pubkey c hex =
     and_try (expect ''hex owner_pubkey'' (hex_decode c (chars_of (trim hex)))) (\<lambda>raw.
       if length raw = 32 then Inr raw else Inl (CliPanic ''owner_pubkey must be 32 bytes''))"

definition hex_text :: "crypto \<Rightarrow> bytes \<Rightarrow> bytes" where
  "hex_text c bs = of_chars (hex_encode c bs)"

definition text_or_hex :: "crypto \<Rightarrow> bytes \<Rightarrow> bytes" where
  "text_or_hex c v = (case from_utf8 v of Some s \<Rightarrow> s | None \<Rightarrow> hex_text c v)"

definition print_value :: "crypto \<Rightarrow> bytes \<Rightarrow> bytes" where
  "print_value c v = text_or_hex c v @ [10]"

section \<open>Configuration\<close>

definition path_join :: "bytes \<Rightarrow> string \<Rightarrow> string" where
  "path_join dir name =
     (if dir = [] then name else if last dir = 47 then chars_of dir @ name else chars_of dir @ ''/'' @ name)"

definition cli_config :: "cli_opts \<Rightarrow> node_config" where
  "cli_config opts =
     \<lparr>cf_listen = op_listen opts, cf_shard_count = max (op_shards opts) 1, cf_bootstrap = op_bootstrap opts,
      cf_plaintext = op_plaintext opts, cf_query_blind = True, cf_two_hop_relay = op_relay opts,
      cf_peerstore_dir = Some (path_join (op_data_dir opts) ''peerstore'')\<rparr>"

text \<open>
  What the process finds: the number of processors, whether the data directory could be made and an
  old peer store be removed, the files of the identity and what a new one would be, what each shard
  finds, the bound gateway, the time, and what the threads of the node do while the process sleeps
  and while it waits for the reply.
\<close>

record cli_os =
  co_parallelism :: u32
  co_data_dir :: bool
  co_peerstore :: bool
  co_clear :: bool
  co_identity :: "string option"
  co_legacy :: "bytes option"
  co_fresh :: identity
  co_save :: bool
  co_shard :: "u32 \<Rightarrow> spawn_os"
  co_gateway :: "socket_addr option"
  co_unix :: u64
  co_sleep :: "node_event list"
  co_wait :: "node_event list"

text \<open>The identity, and the text of its file when that is written.\<close>

definition cli_identity :: "crypto \<Rightarrow> cli_os \<Rightarrow> cli_opts \<Rightarrow> cli_stop + identity \<times> string option" where
  "cli_identity c os opts =
     (if op_new_identity opts
      then if co_save os then Inr (co_fresh os, Some (identity_to_json c (co_fresh os))) else Inl (CliPanic ''write identity'')
      else Inr (load_or_generate c (co_identity os) True (co_legacy os) (co_fresh os)))"

definition cli_clear :: "cli_os \<Rightarrow> cli_opts \<Rightarrow> cli_stop + (u32 \<Rightarrow> spawn_os)" where
  "cli_clear os opts =
     (if op_clear_peerstore opts \<and> co_peerstore os
      then if co_clear os then Inr (\<lambda>i. (co_shard os i)\<lparr>so_disk := empty_disk\<rparr>) else Inl (CliPanic ''clear peerstore'')
      else Inr (co_shard os))"

section \<open>Running a command\<close>

text \<open>
  How the process ends: it prints and returns from \<^verbatim>\<open>main\<close>, it exits with a code and a message, it
  panics, or it serves on. Returning and panicking drop the node, which shuts it down; exiting does
  not.
\<close>

datatype cli_end = CliReturns bytes | CliExits nat bytes | CliPanics string | CliServes bytes

definition oneshot :: "cli_opts \<Rightarrow> bool" where
  "oneshot opts = (op_put opts \<noteq> None \<or> op_get opts \<noteq> None \<or> op_put_mutable opts \<noteq> None \<or> op_get_mutable opts \<noteq> None
     \<or> op_announce opts \<noteq> None \<or> op_providers opts \<noteq> None)"

definition cli_ttl :: "cli_opts \<Rightarrow> u64" where
  "cli_ttl opts = (case op_ttl_secs opts of Some s \<Rightarrow> s | None \<Rightarrow> MUTABLE_TTL_SECS)"

definition finish_key :: "crypto \<Rightarrow> string \<Rightarrow> string + key \<Rightarrow> cli_end" where
  "finish_key c msg r = (case r of Inr k \<Rightarrow> CliReturns (hex_text c (kbytes k) @ [10]) | Inl e \<Rightarrow> CliPanics msg)"

definition finish_value :: "crypto \<Rightarrow> string + bytes option \<Rightarrow> cli_end" where
  "finish_value c r =
     (case r of Inr (Some v) \<Rightarrow> CliReturns (print_value c v) | Inr None \<Rightarrow> CliExits 1 (of_chars ''not found'') | Inl e \<Rightarrow> CliPanics ''get'')"

definition finish_mutable :: "crypto \<Rightarrow> string + bytes option \<Rightarrow> cli_end" where
  "finish_mutable c r =
     (case r of Inr (Some v) \<Rightarrow> CliReturns (print_value c v) | Inr None \<Rightarrow> CliExits 1 (of_chars ''not found'') | Inl e \<Rightarrow> CliExits 1 (of_chars e))"

definition finish_announce :: "string + unit \<Rightarrow> cli_end" where
  "finish_announce r = (case r of Inr _ \<Rightarrow> CliReturns (of_chars ''ok'' @ [10]) | Inl e \<Rightarrow> CliPanics ''announce'')"

definition finish_providers :: "crypto \<Rightarrow> string + (node_id \<times> bytes) list \<Rightarrow> cli_end" where
  "finish_providers c r =
     (case r of
        Inl e \<Rightarrow> CliPanics ''providers''
      | Inr list \<Rightarrow>
          if list = [] then CliExits 1 (of_chars ''none'')
          else CliReturns (concat (map (\<lambda>(i, meta). hex_text c (nid i) @ [32] @ text_or_hex c meta @ [10]) list)))"

definition stopped :: "cli_stop \<Rightarrow> cli_end" where
  "stopped e = (case e of CliPanic msg \<Rightarrow> CliPanics msg | CliHelp \<Rightarrow> CliReturns [] | CliUnknown a \<Rightarrow> CliExits 2 (of_chars ''unknown arg '' @ a))"

definition finished :: "('r \<Rightarrow> cli_end) \<Rightarrow> ('r \<times> 't node) option \<Rightarrow> (cli_end \<times> 't node) option" where
  "finished f = map_option (\<lambda>(r, nd). (f r, nd))"

text \<open>The command, on the node after the sleep; the first of the commands given is run.\<close>

definition cli_command :: "'t shard_env \<Rightarrow> cli_os \<Rightarrow> cli_opts \<Rightarrow> bytes \<Rightarrow> 't node \<Rightarrow> (cli_end \<times> 't node) option" where
  "cli_command env os opts printed nd =
     (let c = en_crypto env; es = co_wait os; ttl = cli_ttl opts
      in case op_put opts of
           Some v \<Rightarrow> finished (finish_key c ''put'') (put_ttl env es v ttl nd)
         | None \<Rightarrow>
         (case op_get opts of
            Some h \<Rightarrow> (case parse_key c h of Inl e \<Rightarrow> Some (stopped e, nd) | Inr k \<Rightarrow> finished (finish_value c) (node_get env es k nd))
          | None \<Rightarrow>
         (case op_put_mutable opts of
            Some (ns, salt, v, seq) \<Rightarrow> finished (finish_key c ''put-mutable'') (put_mutable_ttl env es (co_unix os) ns salt v seq ttl nd)
          | None \<Rightarrow>
         (case op_get_mutable opts of
            Some (pk, ns, salt) \<Rightarrow>
              (case parse_pubkey c pk of Inl e \<Rightarrow> Some (stopped e, nd) | Inr p \<Rightarrow> finished (finish_mutable c) (get_mutable env es p ns salt nd))
          | None \<Rightarrow>
         (case op_announce opts of
            Some (key, meta) \<Rightarrow>
              (case parse_key c key of Inl e \<Rightarrow> Some (stopped e, nd) | Inr k \<Rightarrow> finished finish_announce (node_announce env es k meta nd))
          | None \<Rightarrow>
         (case op_providers opts of
            Some h \<Rightarrow> (case parse_key c h of Inl e \<Rightarrow> Some (stopped e, nd) | Inr k \<Rightarrow> finished (finish_providers c) (find_providers env es k nd))
          | None \<Rightarrow> Some (CliServes printed, nd)))))))"

text \<open>The end of the process, and the node as it is then.\<close>

definition cli_leave :: "'t shard_env \<Rightarrow> bytes \<Rightarrow> cli_end \<times> 't node \<Rightarrow> cli_end \<times> 't node option" where
  "cli_leave env printed = (\<lambda>(e, nd).
     case e of
       CliReturns out \<Rightarrow> (CliReturns (printed @ out), Some (node_drop env nd))
     | CliPanics msg \<Rightarrow> (CliPanics msg, Some (node_drop env nd))
     | CliExits n msg \<Rightarrow> (CliExits n msg, Some nd)
     | CliServes out \<Rightarrow> (CliServes out, Some nd))"

definition cli_with_node :: "'t shard_env \<Rightarrow> cli_os \<Rightarrow> cli_opts \<Rightarrow> 't node \<Rightarrow> (cli_end \<times> 't node option) option" where
  "cli_with_node env os opts nd =
     (case (case op_gateway opts of
              None \<Rightarrow> Some []
            | Some _ \<Rightarrow> map_option (\<lambda>a. of_chars ''webrtc-gateway http://'' @ at_print (en_text env) a @ [10]) (co_gateway os)) of
        None \<Rightarrow> Some (CliPanics ''webrtc-gateway bind'', Some (node_drop env nd))
      | Some printed \<Rightarrow>
          Option.bind (if oneshot opts then node_run env nd (co_sleep os) else Some nd) (\<lambda>nd1.
            map_option (cli_leave env printed) (cli_command env os opts printed nd1)))"

definition cli_main :: "'t shard_env \<Rightarrow> cli_os \<Rightarrow> bytes list \<Rightarrow> (cli_end \<times> 't node option) option" where
  "cli_main env os args =
     (case cli_parse (en_text env) args (cli_defaults (co_parallelism os)) of
        Inl e \<Rightarrow> Some (stopped e, None)
      | Inr opts \<Rightarrow>
          if \<not> co_data_dir os then Some (CliPanics ''data-dir'', None)
          else case cli_clear os opts of
                 Inl e \<Rightarrow> Some (stopped e, None)
               | Inr shard_os \<Rightarrow>
                   (case cli_identity (en_crypto env) os opts of
                      Inl e \<Rightarrow> Some (stopped e, None)
                    | Inr (ident, saved) \<Rightarrow>
                        (case node_start env ident (cli_config opts) shard_os of
                           None \<Rightarrow> Some (CliPanics ''bind'', None)
                         | Some nd \<Rightarrow> cli_with_node env os opts nd)))"

section \<open>Putting and getting\<close>

text \<open>
  The situation of a run: the directory is there with the identity in it, the sockets can be bound,
  and the shard \<open>i\<close> gets no datagrams, has turns while the process sleeps and one, at \<open>c\<close>, while it
  waits.
\<close>

definition cli_ready :: "'t shard_env \<Rightarrow> identity \<Rightarrow> nat \<Rightarrow> clocks \<Rightarrow> cli_os \<Rightarrow> bool" where
  "cli_ready env ident i c os = (co_data_dir os \<and> Option.bind (co_identity os) (identity_from_json (en_crypto env)) = Some ident
     \<and> (\<forall>n. so_bound (co_shard os n) \<noteq> None) \<and> left_alone i (co_sleep os) \<and> one_turn i c (co_wait os))"

text \<open>The hexadecimal text is printable.\<close>

definition hex_graphic :: "crypto \<Rightarrow> bool" where
  "hex_graphic c = (\<forall>bs. list_all graphic (hex_text c bs))"

lemma trim_text:
  assumes "list_all graphic xs"
  shows "trim xs = xs"
proof (cases xs)
  case (Cons x ys)
  have "trim_end zs = zs" if "list_all graphic zs" for zs
    using that by (induction zs) simp_all
  with assms show ?thesis
    by (simp add: trim_def Cons)
qed (simp add: trim_def)

lemma parse_key_text: "crypto_ok c \<Longrightarrow> hex_graphic c \<Longrightarrow> id_ok (kbytes k) \<Longrightarrow> parse_key c (hex_text c (kbytes k)) = Inr k"
  using trim_text [of "hex_text c (kbytes k)"] crypto_okD(5) [of c "kbytes k"]
  by (simp add: parse_key_def hex_graphic_def hex_text_def expect_def and_try_def id_ok_def ID_LEN_def key_from_bytes_def)

text \<open>A run up to its command, for arguments that give a data directory and one command.\<close>

lemma cli_started:
  assumes "cli_ready env ident i c os" "node_start env ident (cli_config opts) (co_shard os) = Some nd"
    and "cli_parse (en_text env) args (cli_defaults (co_parallelism os)) = Inr opts"
    and "\<not> op_clear_peerstore opts" "\<not> op_new_identity opts" "op_gateway opts = None" "oneshot opts"
    and "node_run env nd (co_sleep os) = Some nd1"
  shows "cli_main env os args = map_option (cli_leave env []) (cli_command env os opts [] nd1)"
  using assms
  by (simp add: cli_main_def cli_clear_def cli_identity_def cli_with_node_def load_or_generate_def cli_ready_def)

abbreviation put_args :: "bytes \<Rightarrow> bytes \<Rightarrow> bytes list" where
  "put_args dir v \<equiv> [of_chars ''--data-dir'', dir, of_chars ''--put'', v]"

abbreviation get_args :: "bytes \<Rightarrow> bytes \<Rightarrow> bytes list" where
  "get_args dir h \<equiv> [of_chars ''--data-dir'', dir, of_chars ''--get'', h]"

lemma cli_parse_args:
  "cli_parse t (put_args dir v) o1 = Inr (o1\<lparr>op_data_dir := dir, op_put := Some v\<rparr>)"
  "cli_parse t (get_args dir h) o1 = Inr (o1\<lparr>op_data_dir := dir, op_get := Some h\<rparr>)"
  by (simp_all add: cli_arg_def and_try_def)

text \<open>
  C5. What one run of the program puts, the next one gets: a run with the arguments \<^verbatim>\<open>--data-dir d --put v\<close>
  prints the key of the value in hexadecimal and returns, and a later run with \<^verbatim>\<open>--data-dir d --get\<close> and
  that text, on the files the first one leaves, prints the value, if no more than a day has passed
  since it started. The value is UTF-8 of at most 76800 bytes, the identity file is there before the
  first run, the sockets can be bound, both runs see the same number of processors, and the logs
  consist of whole frames. In both runs no datagram reaches the shard that owns the key: it does any
  number of turns while the program sleeps and one while the call waits. The other shards do anything.
\<close>

theorem cli_put_get:
  assumes "relay_part (pb_relay env)" and "tunn_drains (en_tunn env) q" and "prost_ok (pb_record env)"
    and "crypto_ok (en_crypto env)" and "hex_graphic (en_crypto env)"
    and "k = hash_value (en_crypto env) v" and "n = max (co_parallelism os1) 1"
    and "i = unat (shard_id (identity_node_id (en_crypto env) ident) k n)"
    and "cli_ready env ident i c1 os1" and "cli_ready env ident i c2 os2" and "co_parallelism os2 = co_parallelism os1"
    and "\<forall>m. log_of (so_disk (co_shard os1 m)) = wal_bytes (en_crc env) (fs m) \<and> list_all frame_ok (fs m)"
    and "utf8_ok v" and "length v \<le> 76800"
    and "record_loggable (pb_record env) (immutable_record (en_crypto env) (ck_unix c1) v MUTABLE_TTL_SECS)"
    and "t = ck_unix (so_clocks (co_shard os2 (of_nat i)))"
    and "\<forall>c. c = c2 \<or> Turn i c [] \<in> set (co_sleep os2) \<longrightarrow> t \<le> ck_unix c \<and> ck_unix c - t \<le> MUTABLE_TTL_SECS"
  shows "\<exists>nd1. cli_main env os1 (put_args dir v) = Some (CliReturns (hex_text (en_crypto env) (kbytes k) @ [10]), Some nd1)
    \<and> ((\<forall>m < unat n. so_disk (co_shard os2 (of_nat m)) = sx_disk (sh_ctx (nd_shards nd1 ! m))) \<longrightarrow>
        (\<exists>nd2. cli_main env os2 (get_args dir (hex_text (en_crypto env) (kbytes k))) = Some (CliReturns (v @ [10]), Some nd2)))"
proof -
  let ?o1 = "(cli_defaults (co_parallelism os1))\<lparr>op_data_dir := dir, op_put := Some v\<rparr>"
  let ?h = "hex_text (en_crypto env) (kbytes k)"
  let ?o2 = "(cli_defaults (co_parallelism os1))\<lparr>op_data_dir := dir, op_get := Some ?h\<rparr>"
  let ?cfg = "cli_config ?o1"
  have cfg: "cli_config ?o2 = ?cfg" "cf_peerstore_dir ?cfg = Some (path_join dir ''peerstore'')" "cf_bootstrap ?cfg = []"
      "max (cf_shard_count ?cfg) 1 = n"
    by (simp_all add: cli_config_def cli_defaults_def assms(7))
  obtain nd0 where nd0: "node_start env ident ?cfg (co_shard os1) = Some nd0"
    using node_start_defined [of "co_shard os1" env ident ?cfg] assms(9) by (auto simp: cli_ready_def)
  have r0: "node_reachable env ident ?cfg nd0"
    using nd0 by (rule node_reachable.start)
  have len: "length (nd_shards nd0) = unat n" and id: "nd_identity nd0 = ident"
    using reachable_ok [OF r0] cfg(4) by (simp_all add: node_ok_def)
  have i: "i = owner env k nd0"
    by (simp add: owner_def node_node_id_def len id assms(8))
  have al: "left_alone i (co_sleep os1)" "one_turn i c1 (co_wait os1)" "left_alone i (co_sleep os2)" "one_turn i c2 (co_wait os2)"
    using assms(9,10) by (simp_all add: cli_ready_def)
  obtain nd where nd: "node_run env nd0 (co_sleep os1) = Some nd"
    using node_run_defined [OF assms(1,2) r0] by blast
  have r: "node_reachable env ident ?cfg nd"
    using run_reachable [OF nd r0] .
  obtain res nd1 where put: "put_ttl env (co_wait os1) v MUTABLE_TTL_SECS nd = Some (res, nd1)"
    using call_defined [OF assms(1,2) r owner_less [OF r, of k], of "CmdPut v MUTABLE_TTL_SECS" "co_wait os1"] assms(6)
    by (auto simp: put_ttl_def and_then_def)
  note p = put_durable [OF assms(1,2) cfg(2,3) nd0 assms(6) i al(1) nd assms(14) al(2) put]
  have main1: "cli_main env os1 (put_args dir v) = Some (CliReturns (?h @ [10]), Some (node_shutdown env nd1))"
    using cli_started [OF assms(9) nd0 cli_parse_args(1) _ _ _ _ nd] put p(1,2)
    by (simp add: cli_defaults_def oneshot_def cli_command_def cli_ttl_def finished_def finish_key_def cli_leave_def node_drop_def)
  obtain nd2 where nd2: "node_start env ident ?cfg (co_shard os2) = Some nd2"
    using node_start_defined [of "co_shard os2" env ident ?cfg] assms(10) by (auto simp: cli_ready_def)
  have r2: "node_reachable env ident ?cfg nd2"
    using nd2 by (rule node_reachable.start)
  then have "length (nd_shards nd2) = length (nd_shards nd0)" "nd_identity nd2 = nd_identity nd0"
    using reachable_ok [OF r2] reachable_ok [OF r0] by (simp_all add: node_ok_def)
  then have i2: "i = owner env k nd2"
    using owner_same [of nd2 nd0 env k] i by simp
  obtain nd3 where nd3: "node_run env nd2 (co_sleep os2) = Some nd3"
    using node_run_defined [OF assms(1,2) r2] by blast
  have "\<exists>nd4. cli_main env os2 (get_args dir ?h) = Some (CliReturns (v @ [10]), Some nd4)"
    if disk: "\<forall>m < unat n. so_disk (co_shard os2 (of_nat m)) = sx_disk (sh_ctx (nd_shards (node_shutdown env nd1) ! m))"
  proof -
    have "log_of (so_disk (co_shard os2 (of_nat i))) = wal_bytes (en_crc env) (fs (of_nat i)) @ write_frame (en_crc env) TYPE_RECORD
        (record_encode (pb_record env) (immutable_record (en_crypto env) (ck_unix c1) v MUTABLE_TTL_SECS))"
      using p(3) disk assms(12) owner_less [OF r0, of k] i len by simp
    from get_durable [OF assms(1-3) cfg(2,3) nd2 assms(6) i2 al(3) nd3 this _ assms(15) al(4) assms(16)] assms(12,17)
    obtain nd4 where get: "node_get env (co_wait os2) k nd3 = Some (Inr (Some v), nd4)"
      by blast
    have key: "parse_key (en_crypto env) ?h = Inr k"
      using assms(4,6) by (intro parse_key_text [OF assms(4,5)]) (simp add: crypto_ok_def hash_value_def id_ok_def ID_LEN_def)
    have "node_start env ident (cli_config ?o2) (co_shard os2) = Some nd2"
      using nd2 cfg(1) by simp
    from cli_started [OF assms(10) this _ _ _ _ _ nd3, of "get_args dir ?h"] cli_parse_args(2) [of "en_text env" dir ?h] show ?thesis
      using get key assms(11,13)
      by (simp add: cli_defaults_def oneshot_def cli_command_def finished_def finish_value_def print_value_def text_or_hex_def
          from_utf8_def cli_leave_def)
  qed
  with main1 show ?thesis
    by blast
qed

section \<open>An example\<close>

text \<open>A text with two letters for each byte.\<close>

definition demo_hex :: "bytes \<Rightarrow> bytes" where
  "demo_hex bs = concat (map (\<lambda>b. [97 + b div 16, 97 + b mod 16]) bs)"

fun demo_unhex :: "bytes \<Rightarrow> bytes option" where
  "demo_unhex [] = Some []"
| "demo_unhex [x] = None"
| "demo_unhex (x # y # bs) = map_option (Cons ((x - 97) * 16 + (y - 97))) (demo_unhex bs)"

definition hex_crypto :: crypto where
  "hex_crypto = demo_crypto\<lparr>hex_encode := (\<lambda>bs. chars_of (demo_hex bs)), hex_decode := (\<lambda>s. demo_unhex (of_chars s))\<rparr>"

definition hex_env :: "unit shard_env" where
  "hex_env = demo_env\<lparr>en_crypto := hex_crypto\<rparr>"

lemma demo_unhex_hex: "demo_unhex (demo_hex bs) = Some bs"
  by (induction bs) (simp_all add: demo_hex_def div_mult_mod_eq)

lemma hex_crypto_ok: "crypto_ok hex_crypto"
  using demo_crypto_ok by (simp add: crypto_ok_def hex_crypto_def demo_unhex_hex)

lemma letter_graphic: "unat x < 16 \<Longrightarrow> graphic (97 + x)" for x :: u8
  by (simp add: graphic_def word_le_nat_alt unat_word_ariths)

lemma demo_hex_graphic: "list_all graphic (demo_hex bs)"
proof (induction bs)
  case (Cons b bs)
  have "unat (b div 16) < 16" "unat (b mod 16) < 16"
    using less_mult_imp_div_less [of "unat b" 16 16] unat_u8_less [of b] by (simp_all add: unat_div unat_mod)
  with Cons show ?case
    by (simp add: demo_hex_def letter_graphic)
qed (simp add: demo_hex_def)

lemma hex_crypto_graphic: "hex_graphic hex_crypto"
  by (simp add: hex_graphic_def hex_text_def hex_crypto_def demo_hex_graphic)

definition demo_cli_os :: "(u32 \<Rightarrow> spawn_os) \<Rightarrow> nat \<Rightarrow> cli_os" where
  "demo_cli_os shards ms =
     \<lparr>co_parallelism = 1, co_data_dir = True, co_peerstore = False, co_clear = True,
      co_identity = Some (identity_to_json hex_crypto (identity_generate hex_crypto (replicate 32 3) (replicate 32 4))),
      co_legacy = None, co_fresh = demo_identity, co_save = True, co_shard = shards, co_gateway = None, co_unix = 0,
      co_sleep = [Turn 0 (demo_ck ms) []], co_wait = [Turn 0 (demo_ck ms) []]\<rparr>"

lemma demo_cli_ready:
  assumes "\<forall>n. so_bound (shards n) \<noteq> None"
  shows "cli_ready hex_env (identity_generate hex_crypto (replicate 32 3) (replicate 32 4)) 0 (demo_ck ms) (demo_cli_os shards ms)"
  using assms identity_generate_json [OF hex_crypto_ok, of "replicate 32 3" "replicate 32 4"] demo_turn
  by (simp add: cli_ready_def demo_cli_os_def hex_env_def left_alone_def)

lemma hex_loggable: "record_loggable (pb_record hex_env) (immutable_record (en_crypto hex_env) t (of_chars ''abc'') MUTABLE_TTL_SECS)"
proof -
  have "length (pack bs) = 2 * length bs + 1" for bs
    by (induction bs) simp_all
  moreover have "length (kbytes (hash_value hex_crypto v)) = 32" for v
    by (simp add: hash_value_def hex_crypto_def demo_crypto_def)
  ultimately show ?thesis
    by (simp add: record_loggable_def record_encode_def hex_env_def demo_record_codec_def field_codec_def pack_list_def
        to_proto_def immutable_record_def id_ok_def ID_LEN_def of_chars_def MUTABLE_TTL_SECS_def)
qed

theorem cli_put_get_witness:
  "\<exists>os2 nd1 nd2 h. cli_main hex_env (demo_cli_os demo_os 10) (put_args (of_chars ''d'') (of_chars ''abc'')) = Some (CliReturns (h @ [10]), Some nd1)
    \<and> so_disk (co_shard os2 0) = sx_disk (sh_ctx (nd_shards nd1 ! 0))
    \<and> cli_main hex_env os2 (get_args (of_chars ''d'') h) = Some (CliReturns (of_chars ''abc'' @ [10]), Some nd2)"
proof -
  let ?ident = "identity_generate hex_crypto (replicate 32 3) (replicate 32 4)" and ?v = "of_chars ''abc''"
  let ?k = "hash_value hex_crypto ?v" and ?os1 = "demo_cli_os demo_os 10"
  have env: "relay_part (pb_relay hex_env)" "tunn_drains (en_tunn hex_env) (\<lambda>_. 0)" "prost_ok (pb_record hex_env)"
      "crypto_ok (en_crypto hex_env)" "hex_graphic (en_crypto hex_env)"
    using demo_relay_part demo_tunn_drains hex_crypto_ok hex_crypto_graphic by (simp_all add: hex_env_def)
  have i: "0 = unat (shard_id s k 1)" for s k
    using shard_id_in_range [of 1 s k] by (simp add: word_less_1)
  have ready1: "cli_ready hex_env ?ident 0 (demo_ck 10) ?os1"
    by (rule demo_cli_ready) (simp add: demo_os_def)
  have v: "utf8_ok ?v"
    by code_simp
  have l: "length ?v \<le> 76800"
    by (simp add: of_chars_def)
  have logs: "\<forall>m. log_of (so_disk (co_shard ?os1 m)) = wal_bytes (en_crc hex_env) [] \<and> list_all frame_ok []"
    by (simp add: demo_cli_os_def demo_os_def log_of_def empty_disk_def)
  have t: "ck_unix (demo_ck 20000) \<le> ck_unix (demo_ck 30000)" "ck_unix (demo_ck 30000) - ck_unix (demo_ck 20000) \<le> MUTABLE_TTL_SECS"
    by (simp_all add: demo_ck_def MUTABLE_TTL_SECS_def)
  have main: "\<exists>nd1. cli_main hex_env ?os1 (put_args (of_chars ''d'') ?v) = Some (CliReturns (hex_text hex_crypto (kbytes ?k) @ [10]), Some nd1)
      \<and> ((\<forall>m < unat (1 :: u32). so_disk (shards (of_nat m)) = sx_disk (sh_ctx (nd_shards nd1 ! m))) \<longrightarrow>
        (\<exists>nd2. cli_main hex_env (demo_cli_os shards 30000) (get_args (of_chars ''d'') (hex_text hex_crypto (kbytes ?k)))
          = Some (CliReturns (?v @ [10]), Some nd2)))"
    if "\<forall>n. so_bound (shards n) \<noteq> None" "so_clocks (shards 0) = demo_ck 20000" for shards
  proof -
    let ?os2 = "demo_cli_os shards 30000"
    have alone: "\<forall>c. c = demo_ck 30000 \<or> Turn 0 c [] \<in> set (co_sleep ?os2) \<longrightarrow>
        ck_unix (demo_ck 20000) \<le> ck_unix c \<and> ck_unix c - ck_unix (demo_ck 20000) \<le> MUTABLE_TTL_SECS"
      using t by (simp add: demo_cli_os_def)
    have n: "(1 :: u32) = max (co_parallelism ?os1) 1" and p: "co_parallelism ?os2 = co_parallelism ?os1"
        and c: "ck_unix (demo_ck 20000) = ck_unix (so_clocks (co_shard ?os2 (of_nat 0)))"
        and d: "co_shard ?os2 = shards"
      using that(2) by (simp_all add: demo_cli_os_def)
    show ?thesis
      using cli_put_get [OF env refl n i ready1 demo_cli_ready [OF that(1)] p logs v l hex_loggable c alone, of "of_chars ''d''"]
      by (simp only: d) (simp add: hex_env_def)
  qed
  let ?s1 = "\<lambda>_. \<lparr>so_bound = Some (AddrV4 127 0 0 1 4000), so_disk = empty_disk, so_clocks = demo_ck 20000\<rparr>"
  obtain nd1 where nd1: "cli_main hex_env ?os1 (put_args (of_chars ''d'') ?v) = Some (CliReturns (hex_text hex_crypto (kbytes ?k) @ [10]), Some nd1)"
    using main [of ?s1] by auto
  let ?s2 = "\<lambda>_. \<lparr>so_bound = Some (AddrV4 127 0 0 1 4000), so_disk = sx_disk (sh_ctx (nd_shards nd1 ! 0)), so_clocks = demo_ck 20000\<rparr>"
  obtain nd2 where "cli_main hex_env (demo_cli_os ?s2 30000) (get_args (of_chars ''d'') (hex_text hex_crypto (kbytes ?k)))
      = Some (CliReturns (?v @ [10]), Some nd2)"
    using main [of ?s2] nd1 by auto
  moreover have "so_disk (co_shard (demo_cli_os ?s2 30000) 0) = sx_disk (sh_ctx (nd_shards nd1 ! 0))"
    by (simp add: demo_cli_os_def)
  ultimately show ?thesis
    using nd1 by blast
qed

end
