(* ===== verification/Spec2Isabelle.thy ===== *)
theory Spec2Isabelle
  imports Routing Codec Lookup Timers Nat_Relay Wg Erasure Metrics Sybil Udp Webrtc_Rpc Cli
begin

text \<open>
  \<^bold>\<open>molia\<close>: a distributed hash table over UDP, without shared state between its threads. This library
  models the Rust sources under \<^verbatim>\<open>src/src/\<close> and the message schema \<^verbatim>\<open>src/proto/molia.proto\<close>, and proves
  what makes them correct. File names below are relative to \<^verbatim>\<open>src/src/\<close>.

  \<^bold>\<open>The program.\<close> A node (\<^verbatim>\<open>node.rs\<close>) has one or more shards (\<^verbatim>\<open>shard.rs\<close>), each a thread with its own socket,
  routing table, store, log and timers. A client call is sent as a command to the shard that owns the
  key and waits for one reply. A shard takes turns: the datagrams that are ready, up to 32 commands,
  the timers that are due. Datagrams are messages with a 12-byte header and a Protobuf body, in the
  clear or inside a WireGuard session, possibly relayed by a third node. A shard that does not hold a
  key looks it up iteratively at the peers closest to it. Browsers reach a node through an HTTP and
  WebRTC gateway; the program \<^verbatim>\<open>molia\<close> is the command line around all this.

  \<^bold>\<open>How code is translated.\<close> Integers are words of their width, byte vectors and strings are lists of
  bytes, structs are records and enums are datatypes. An operation on \<^verbatim>\<open>&mut self\<close> returns the new state;
  a \<^verbatim>\<open>Result\<close> is a sum, an \<^verbatim>\<open>Option\<close> an option. Time is an argument (\<open>clocks\<close>: an instant in nanoseconds
  and the wall clock in seconds). A file is its bytes, a directory the record \<open>disk\<close>. What leaves a shard
  is collected in its state: datagrams in \<open>sx_out\<close>, replies in \<open>sx_replies\<close>. Code that is not in the
  repository is a field of \<open>shard_env\<close> or a parameter: hash functions and signatures (\<open>crypto\<close>), the
  generated Protobuf codec (\<open>prost\<close>), tunnels (\<open>tunn_ops\<close>), the Reed-Solomon code, the text of addresses, the
  order of iteration of a hash map, the WebRTC engine and the JSON parser. What is assumed about these
  is named: \<open>crypto_ok\<close>, \<open>prost_ok\<close>, \<open>relay_part\<close>, \<open>tunn_drains\<close>, \<open>hex_graphic\<close>. \<^verbatim>\<open>Demo\<close> and the ends of the theories have
  concrete functions that satisfy them, and every theorem with hypotheses is applied there.

  \<^bold>\<open>Basics.\<close>
  \<^item> \<^verbatim>\<open>Prelude\<close>: types, saturating arithmetic, lists, bounded vectors; the locale \<open>inv_machine\<close> of a machine
    with an invariant, interpreted for the pool, the timers, the routing table, the lookup, the peer
    store, the record store and the rate limiter.
  \<^item> \<^verbatim>\<open>Float64\<close>: finite binary64 arithmetic as rounded rationals, with its error bounds.
  \<^item> \<^verbatim>\<open>Rust_Text\<close>: UTF-8 and the string functions used by the gateway and the command line; what is
    printed is parsed back.

  \<^bold>\<open>Components of a shard.\<close>
  \<^item> \<^verbatim>\<open>Types\<close> (\<^verbatim>\<open>types.rs\<close>): identifiers, XOR distance, bucket index, choice of a shard.
  \<^item> \<^verbatim>\<open>Routing\<close> (\<^verbatim>\<open>routing.rs\<close>): all operations on the 256 buckets. The locale \<open>slot_inv\<close> lifts what holds of
    one slot to every run; its interpretations are the sizes, no duplicates and the limit per /24
    without evictions, and the range of the round-trip times. \<open>closest\<close> returns the nearest contacts.
  \<^item> \<^verbatim>\<open>Proto\<close>, \<^verbatim>\<open>Codec\<close> (\<^verbatim>\<open>molia.proto\<close>, \<^verbatim>\<open>codec.rs\<close>): messages and the header; a message that is encoded is
    decoded to itself, and an encoded message never exceeds the datagram limit.
  \<^item> \<^verbatim>\<open>Pool\<close>, \<^verbatim>\<open>Timers\<close>, \<^verbatim>\<open>Metrics\<close>, \<^verbatim>\<open>Erasure\<close>, \<^verbatim>\<open>Nat_Relay\<close> (\<^verbatim>\<open>pool.rs\<close>, \<^verbatim>\<open>event_loop.rs\<close>, \<^verbatim>\<open>metrics.rs\<close>, \<^verbatim>\<open>erasure.rs\<close>, \<^verbatim>\<open>nat.rs\<close>,
    \<^verbatim>\<open>relay.rs\<close>): buffers, exact delivery of due timers, totals and their text, the splitting of
    a value into fragments and its reconstruction when the Reed-Solomon code gives the missing ones back, and
    the relay budget: what it bounds, and that it does not bound the share of forwarded traffic.
  \<^item> \<^verbatim>\<open>Crypto\<close> (\<^verbatim>\<open>crypto.rs\<close>): identities, keys, signed bytes, proofs of work.
  \<^item> \<^verbatim>\<open>Wal\<close>, \<^verbatim>\<open>Peerstore\<close>, \<^verbatim>\<open>Store\<close> (\<^verbatim>\<open>peerstore.rs\<close>, \<^verbatim>\<open>store.rs\<close>): the log format with recovery after a torn write;
    the locale \<open>log_state\<close> says when replaying what was logged gives a view of the state back, and both
    stores interpret it. Only authentic records enter the store, sequence numbers of mutable records do
    not fall, and what was flushed is recovered; expired records that were collected come back with it.
  \<^item> \<^verbatim>\<open>Lookup\<close> (\<^verbatim>\<open>lookup.rs\<close>): the iterative lookup: bounds on the shortlist and on the requests in flight,
    termination, and that the result is made of the closest of all peers the lookup has heard of.
  \<^item> \<^verbatim>\<open>Wg\<close> (\<^verbatim>\<open>wg.rs\<close>): packet headers, sessions and their indices, and which session gets a packet. The
    function \<open>demux_shard\<close> is modelled but, as in the code, nothing calls it.
  \<^item> \<^verbatim>\<open>Sybil\<close> (\<^verbatim>\<open>sybil.rs\<close>): token buckets, scores, quarantine, tokens. The locale \<open>rate_account\<close> bounds what any
    bucket lets through in a period; it is interpreted for addresses and for prefixes.

  \<^bold>\<open>The shard\<close> (\<^verbatim>\<open>shard.rs\<close>).
  \<^item> \<^verbatim>\<open>Shard_State\<close>, \<^verbatim>\<open>Shard\<close>: the state, the ways to send, all handlers and the loop. The two recursions
    without a bound in the code, a relayed frame inside a relayed frame and the draining of a session,
    are partial functions whose result is an option.
  \<^item> \<^verbatim>\<open>Shard_Inv\<close>: the locales \<open>ctx_send\<close>, \<open>ctx_parts\<close>, \<open>ctx_handle\<close>, \<open>ctx_drive\<close>, \<open>ctx_lookups\<close>, \<open>ctx_run\<close> and \<open>ctx_steps\<close>:
    what is kept by a few basic updates is kept by every handler and every run.
  \<^item> \<^verbatim>\<open>Shard_Total\<close>: every datagram, command and timer is handled to the end. \<^verbatim>\<open>Shard_Health\<close>: the
    predicate \<open>healthy\<close>, which lists the invariants of the parts that hold in every run, is kept; an address
    is bound to a key only by a signed message or an injected peer; a turn of the loop is a run.
  \<^item> \<^verbatim>\<open>Shard_Replies\<close>: each command is answered at most once, and an open lookup is answered within its
    time. \<^verbatim>\<open>Shard_Data\<close>, \<^verbatim>\<open>Shard_Find\<close>: a value put at one shard reaches another one, and a get is answered over
    the network; also what goes wrong with large values and with forged answers.
  \<^item> \<^verbatim>\<open>Udp\<close> (\<^verbatim>\<open>udp.rs\<close>, the polling of \<^verbatim>\<open>event_loop.rs\<close> and of the loop): the calls that bind the socket and the
    batched receive with its buffers; a turn on a socket is the turn on the datagrams read.

  \<^bold>\<open>The node\<close> (\<^verbatim>\<open>node.rs\<close>).
  \<^item> \<^verbatim>\<open>Node\<close>: start, calls and shutdown, over a schedule of the turns and exits of the threads. A turn
    that is under way when the node is shut down is the last turn before the shutdown.
  \<^item> \<^verbatim>\<open>Node_Inv\<close>: what holds after every sequence of calls, overlapping ones included, for every
    interleaving with the threads.
  \<^item> \<^verbatim>\<open>Node_Calls\<close>: a value or a named record that was put is read back by the next call, when the shard that
    owns it gets no datagram in between; what \<open>get_mutable\<close> returns is signed.
  \<^item> \<^verbatim>\<open>Node_Disk\<close>: what was put is returned by a node started later on the same directory, under the
    conditions its theorem lists.

  \<^bold>\<open>The gateway\<close> (\<^verbatim>\<open>webrtc.rs\<close>, \<^verbatim>\<open>ice_rtc.rs\<close>).
  \<^item> \<^verbatim>\<open>Webrtc\<close>: reading and writing HTTP, routing, rooms, the bridge to the node's socket, offers, the loop
    of a session, the listener.
  \<^item> \<^verbatim>\<open>Webrtc_Http\<close>: a request is read as written, in any pieces. \<^verbatim>\<open>Webrtc_Rooms\<close>: the rooms implement the
    sequence of operations on each room. \<^verbatim>\<open>Webrtc_Rpc\<close>: a request of a browser is answered by a shard
    that has the record.

  \<^bold>\<open>The command line\<close> (\<^verbatim>\<open>bin/molia.rs\<close>). \<^verbatim>\<open>Cli\<close>: arguments, configuration, identity, each command, its output and
  how the process ends; what one process puts the next one gets, if no datagram reaches the owning shard.

  \<^bold>\<open>Bounds and fuel.\<close> No definition has fuel, except that unpacking the fields of the example codec
  counts down from the length of the input. The partial functions of the shard are shown to return for
  every input when the payload of a relay frame is at most as long as its body (\<open>relay_part\<close>) and a
  session has finitely many packets queued (\<open>tunn_drains\<close>). The search for a proof of work is partial
  too, as in the code. What sockets, clocks and threads do is given as finite lists; a
  socket whose list is used up has nothing to read, and a call for which the schedule has no reply
  times out.

  \<^bold>\<open>Not modelled.\<close>
  \<^item> Log output, the text of \<^verbatim>\<open>Debug\<close> implementations, and the tests in the sources.
  \<^item> The encoder and decoder generated from \<^verbatim>\<open>molia.proto\<close>, cryptographic primitives, tunnels, the poller and
    the WebRTC engine: they are not in the repository and are parameters.
  \<^item> Errors of the file system while a log is written or read, other than a torn end of the log, and
    errors of the poller: the sources end the thread or ignore them.
  \<^item> Time passing inside a turn: the clocks are read once per turn.
  \<^item> Interleaving inside a request of the gateway: a request takes the lock of the rooms once for what it
    changes, so requests are ordered by that.
  \<^item> The example programs under \<^verbatim>\<open>src/examples/\<close>, \<^verbatim>\<open>src/build.rs\<close>, the sample in \<^verbatim>\<open>src/docs/security/\<close> and the page in
    \<^verbatim>\<open>src/playgroud/\<close>: client programs, a call of the Protobuf compiler and a browser page.
\<close>

end
